(* ===== verification/Prelude.thy ===== *)
theory Prelude
  imports Main "HOL-Library.Word" "HOL-Library.AList" "HOL-Library.Sublist"
begin

text \<open>
  What every component shares: Go's 64-bit signed arithmetic with its wrap-around written out,
  durations in nanoseconds, association lists standing for Go maps, and the slice idioms of
  the standard library that several components use (\<open>slices.IndexFunc\<close> followed by an
  assignment or an append, \<open>slices.DeleteFunc\<close>, \<open>slices.Contains\<close>).
\<close>

section \<open>Collections of facts\<close>

named_theorems go_defs \<open>definitions of the model a component's proofs unfold together\<close>
named_theorems keeps \<open>operations that keep an invariant\<close>

section \<open>Machine integers\<close>

text \<open>
  A Go \<open>int64\<close> (and an \<open>int\<close> on the supported 64-bit platforms) is an \<open>int\<close> in the range
  \<open>in64\<close>; where the source multiplies or adds values it did not bound, the model wraps the result
  into that range with \<open>wrap64\<close>. An \<open>uint64\<close> is a \<open>64 word\<close>.
\<close>

definition in64 :: "int \<Rightarrow> bool" where
  "in64 x \<longleftrightarrow> - (2 ^ 63) \<le> x \<and> x < 2 ^ 63"

definition wrap64 :: "int \<Rightarrow> int" where
  "wrap64 x = (x + 2 ^ 63) mod 2 ^ 64 - 2 ^ 63"

lemma wrap64_in64 [simp, intro]: "in64 (wrap64 x)"
  by (simp add: in64_def wrap64_def)

lemma wrap64_id: "in64 x \<Longrightarrow> wrap64 x = x"
  by (simp add: in64_def wrap64_def)

lemma wrap64_small [simp]: "0 \<le> x \<Longrightarrow> x < 9223372036854775808 \<Longrightarrow> wrap64 x = x"
  by (rule wrap64_id) (simp add: in64_def)

type_synonym duration = int
type_synonym time = int

definition microsecond :: duration where "microsecond = 1000"
definition millisecond :: duration where "millisecond = 1000000"
definition second :: duration where "second = 1000000000"
definition minute :: duration where "minute = 60 * second"
definition hour :: duration where "hour = 60 * minute"

lemmas duration_defs [go_defs] =
  microsecond_def millisecond_def second_def minute_def hour_def

lemma second_pos [simp]: "0 < second"
  by (simp add: second_def)

text \<open>\<open>time.Duration(n) * time.Second\<close>: an \<open>int64\<close> multiplication.\<close>

definition seconds :: "int \<Rightarrow> duration" where
  "seconds n = wrap64 (n * second)"

definition milliseconds :: "int \<Rightarrow> duration" where
  "milliseconds n = wrap64 (n * millisecond)"

lemma seconds_exact: "0 \<le> n \<Longrightarrow> n \<le> 9223372036 \<Longrightarrow> seconds n = n * second"
  by (simp add: seconds_def second_def)

lemma milliseconds_exact: "0 \<le> n \<Longrightarrow> n \<le> 9223372036854 \<Longrightarrow> milliseconds n = n * millisecond"
  by (simp add: milliseconds_def millisecond_def)

text \<open>\<open>Duration.Round\<close> to a multiple of \<open>m > 0\<close>, halves away from zero, and \<open>Duration.Abs\<close>; both saturate.\<close>

definition Round :: "duration \<Rightarrow> duration \<Rightarrow> duration" where
  "Round m d =
     (let r = \<bar>d\<bar> mod m
      in if d < 0
         then (if r + r < m then d + r else if d - m + r \<ge> - (2 ^ 63) then d - m + r else - (2 ^ 63))
         else (if r + r < m then d - r else if d + m - r < 2 ^ 63 then d + m - r else 2 ^ 63 - 1))"

definition Abs_duration :: "duration \<Rightarrow> duration" where
  "Abs_duration d = (if d = - (2 ^ 63) then 2 ^ 63 - 1 else \<bar>d\<bar>)"

section \<open>Slices\<close>

text \<open>
  \<open>slices.IndexFunc\<close> and then either \<open>xs[i] = x\<close> or \<open>append(xs, x)\<close>: replace the first element
  that satisfies the test, or append.
\<close>

fun upsert :: "('a \<Rightarrow> bool) \<Rightarrow> 'a \<Rightarrow> 'a list \<Rightarrow> 'a list" where
  "upsert p x [] = [x]"
| "upsert p x (y # ys) = (if p y then x # ys else y # upsert p x ys)"

lemma upsert_in [simp]: "x \<in> set (upsert p x xs)"
  by (induction xs) auto

lemma set_upsert_subset: "set (upsert p x xs) \<subseteq> insert x (set xs)"
  by (induction xs) auto

lemma upsert_keeps: "y \<in> set xs \<Longrightarrow> \<not> p y \<Longrightarrow> y \<in> set (upsert p x xs)"
  by (induction xs) auto

lemma upsert_fresh: "(\<And>y. y \<in> set xs \<Longrightarrow> \<not> p y) \<Longrightarrow> upsert p x xs = xs @ [x]"
  by (induction xs) auto

lemma length_upsert:
  "length (upsert p x xs) = length xs + (if \<exists>y\<in>set xs. p y then 0 else 1)"
  by (induction xs) auto

lemma find_upsert_same:
  "p x \<Longrightarrow> find p (upsert p x xs) = Some x"
  by (induction xs) auto

lemma find_upsert_other:
  "\<not> q x \<Longrightarrow> (\<And>y. p y \<Longrightarrow> \<not> q y) \<Longrightarrow> find q (upsert p x xs) = find q xs"
  by (induction xs) auto

text \<open>Keyed by a field: replacing under a key keeps the keys distinct.\<close>

lemma map_upsert_key:
  "map k (upsert (\<lambda>y. k y = k x) x xs) =
     (if k x \<in> k ` set xs then map k xs else map k xs @ [k x])"
  by (induction xs) auto

lemma ex_upsert_key:
  "(\<exists>y\<in>set (upsert (\<lambda>y. k y = k x) x xs). k y = i) \<longleftrightarrow> i = k x \<or> (\<exists>y\<in>set xs. k y = i)"
  by (induction xs) auto

lemma distinct_upsert_key:
  "distinct (map k xs) \<Longrightarrow> distinct (map k (upsert (\<lambda>y. k y = k x) x xs))"
  by (auto simp: map_upsert_key)

lemma find_filter_key:
  "find (\<lambda>y. k y = a) (filter (\<lambda>y. k y \<noteq> b) xs) = (if a = b then None else find (\<lambda>y. k y = a) xs)"
  by (induction xs) auto

lemma find_key_iff:
  "distinct (map k xs) \<Longrightarrow> find (\<lambda>y. k y = a) xs = Some y \<longleftrightarrow> y \<in> set xs \<and> k y = a"
  by (induction xs) force+

lemma find_subset:
  assumes "distinct (map k xs)" and "distinct (map k ys)" and "set ys \<subseteq> set xs"
  shows "find (\<lambda>y. k y = a) ys = None \<or> find (\<lambda>y. k y = a) ys = find (\<lambda>y. k y = a) xs"
proof (cases "find (\<lambda>y. k y = a) ys")
  case (Some y)
  with assms have "find (\<lambda>y. k y = a) xs = Some y" by (auto simp: find_key_iff)
  with Some show ?thesis by simp
qed simp

text \<open>A list cut to an optional limit.\<close>

definition take_limit :: "nat option \<Rightarrow> 'a list \<Rightarrow> 'a list" where
  "take_limit l xs = (case l of None \<Rightarrow> xs | Some n \<Rightarrow> take n xs)"

lemma take_limit_Nil [simp]: "take_limit l [] = []"
  by (simp add: take_limit_def split: option.split)

lemma take_limit_idem [simp]: "take_limit l (take_limit l xs) = take_limit l xs"
  by (simp add: take_limit_def split: option.split)

lemma take_limit_append: "take_limit l (take_limit l xs @ ys) = take_limit l (xs @ ys)"
  by (auto simp: take_limit_def min_def split: option.split)

lemma take_limit_fits: "(\<And>n. l = Some n \<Longrightarrow> length xs \<le> n) \<Longrightarrow> take_limit l xs = xs"
  by (auto simp: take_limit_def split: option.split)

lemma take_limit_cut: "take_limit l xs \<noteq> xs \<Longrightarrow> \<exists>n. l = Some n \<and> n < length xs"
  by (auto simp: take_limit_def split: option.splits)

section \<open>Association lists\<close>

text \<open>
  A Go map is an association list with distinct keys; the order of the list carries no meaning,
  and code that ranges over a map takes the order of the visit as an argument.
\<close>

lemma sum_list_alist_update:
  fixes f :: "'v \<Rightarrow> int"
  assumes "distinct (map fst xs)" and "map_of xs k = Some v"
  shows "sum_list (map (f \<circ> snd) (AList.update k v' xs)) = sum_list (map (f \<circ> snd) xs) - f v + f v'"
  using assms
proof (induction xs)
  case Nil
  then show ?case by simp
next
  case (Cons x xs)
  show ?case
  proof (cases "fst x = k")
    case True
    with Cons.prems show ?thesis by (cases x) auto
  next
    case False
    with Cons show ?thesis by (cases x) auto
  qed
qed

lemma sum_list_alist_insert:
  fixes f :: "'v \<Rightarrow> int"
  assumes "map_of xs k = None"
  shows "sum_list (map (f \<circ> snd) (AList.update k v' xs)) = sum_list (map (f \<circ> snd) xs) + f v'"
  using assms by (induction xs) (auto split: if_splits)

lemma sum_list_alist_delete:
  fixes f :: "'v \<Rightarrow> int"
  assumes "distinct (map fst xs)" and "map_of xs k = Some v"
  shows "sum_list (map (f \<circ> snd) (AList.delete k xs)) = sum_list (map (f \<circ> snd) xs) - f v"
  using assms
proof (induction xs)
  case Nil
  then show ?case by simp
next
  case (Cons x xs)
  show ?case
  proof (cases "fst x = k")
    case True
    with Cons.prems have "k \<notin> fst ` set xs" by auto
    with True Cons.prems show ?thesis by (cases x) auto
  next
    case False
    with Cons show ?thesis by (cases x) auto
  qed
qed

lemma in_set_alist_update:
  "distinct (map fst xs) \<Longrightarrow> (j, w) \<in> set (AList.update k v xs) \<longleftrightarrow>
     (if j = k then w = v else (j, w) \<in> set xs)"
  by (induction xs) (force split: if_splits)+

lemma sum_list_map_nonneg [intro]:
  fixes f :: "'a \<Rightarrow> int"
  shows "(\<And>x. x \<in> set xs \<Longrightarrow> 0 \<le> f x) \<Longrightarrow> 0 \<le> sum_list (map f xs)"
  by (induction xs) auto

lemma member_le_sum_list_int:
  fixes f :: "'a \<Rightarrow> int"
  assumes "x \<in> set xs" and "\<And>y. y \<in> set xs \<Longrightarrow> 0 \<le> f y"
  shows "f x \<le> sum_list (map f xs)"
  using assms
proof (induction xs)
  case Nil
  then show ?case by simp
next
  case (Cons y ys)
  have "0 \<le> sum_list (map f ys)"
    using Cons.prems(2) by (intro sum_list_nonneg) auto
  with Cons show ?case by (auto simp: add_increasing add_increasing2)
qed

lemma sum_list_le_length_mult:
  fixes f :: "'a \<Rightarrow> int"
  assumes "\<And>x. x \<in> set xs \<Longrightarrow> f x \<le> m"
  shows "sum_list (map f xs) \<le> int (length xs) * m"
  using assms by (induction xs) (auto simp: algebra_simps, smt (verit))

end
