(* ===== verification/Interfaces.thy ===== *)
theory Interfaces
  imports Prelude
begin

text \<open>
  The interfaces between components, as locales: what a client calls (\<open>fixes\<close>), what the provider
  promises (\<open>assumes\<close>), and the facts clients use, proved once. Each is interpreted on the model's
  own definitions in the theory of the component that provides it.
\<close>

section \<open>The outbox of one Run\<close>

text \<open>
  What the reporter relies on when it delivers output (\<open>NextBatch\<close> and \<open>AckUpTo\<close> of the buffer for
  one Run): a batch is a front part of what is held, never empty while something is held, and
  acknowledging a number drops exactly the entries numbered up to it.
\<close>

locale outbox =
  fixes batch :: "'q \<Rightarrow> 'c list"
    and ack :: "'n::linorder \<Rightarrow> 'q \<Rightarrow> 'q option"
    and held :: "'q \<Rightarrow> 'c list"
    and num :: "'c \<Rightarrow> 'n"
    and valid :: "'q \<Rightarrow> bool"
  assumes batch_front: "valid q \<Longrightarrow> prefix (batch q) (held q)"
    and batch_some: "valid q \<Longrightarrow> held q \<noteq> [] \<Longrightarrow> batch q \<noteq> []"
    and numbered: "valid q \<Longrightarrow> sorted_wrt (\<lambda>c d. num c < num d) (held q)"
    and ack_drops: "valid q \<Longrightarrow>
      \<exists>q'. ack n q = Some q' \<and> valid q' \<and> held q' = dropWhile (\<lambda>c. num c \<le> n) (held q)"
begin

lemma batch_empty_iff: "valid q \<Longrightarrow> batch q = [] \<longleftrightarrow> held q = []"
  using batch_front [of q] batch_some [of q] by auto

lemma ack_filter:
  assumes "valid q"
  obtains q' where "ack n q = Some q'" and "valid q'"
    and "held q' = filter (\<lambda>c. n < num c) (held q)"
proof -
  have "dropWhile (\<lambda>c. num c \<le> n) xs = filter (\<lambda>c. n < num c) xs"
    if "sorted_wrt (\<lambda>c d. num c < num d) xs" for xs
    using that
  proof (induction xs)
    case Nil
    then show ?case by simp
  next
    case (Cons c cs)
    show ?case
    proof (cases "num c \<le> n")
      case True
      with Cons show ?thesis by simp
    next
      case False
      with Cons.prems have "\<forall>d\<in>set cs. n < num d" by auto
      with False show ?thesis by simp
    qed
  qed
  with ack_drops [OF assms, of n] numbered [OF assms] that show thesis by metis
qed

text \<open>Progress: an acknowledgement that covers the first entry of the batch shortens the outbox.\<close>

lemma ack_progress:
  assumes "valid q" and "batch q \<noteq> []" and "num (hd (batch q)) \<le> n"
  obtains q' where "ack n q = Some q'" and "valid q'" and "length (held q') < length (held q)"
proof -
  obtain q' where q': "ack n q = Some q'" "valid q'"
    and h: "held q' = filter (\<lambda>c. n < num c) (held q)"
    using ack_filter [OF assms(1)] by metis
  obtain c cs where c: "batch q = c # cs" using assms(2) by (cases "batch q") auto
  then obtain rest where "held q = c # rest"
    using batch_front [OF assms(1)] by (auto elim: prefixE)
  with assms(3) c h have "length (held q') < length (held q)"
    by (auto simp: less_Suc_eq_le)
  with q' that show thesis by blast
qed

text \<open>An acknowledgement of the whole batch removes it and nothing else.\<close>

lemma ack_batch:
  assumes "valid q" and "batch q \<noteq> []"
  obtains q' where "ack (num (last (batch q))) q = Some q'" and "valid q'"
    and "held q = batch q @ held q'"
proof -
  let ?n = "num (last (batch q))"
  obtain q' where q': "ack ?n q = Some q'" "valid q'"
    and h: "held q' = filter (\<lambda>c. ?n < num c) (held q)"
    using ack_filter [OF assms(1)] by metis
  obtain rest where rest: "held q = batch q @ rest"
    using batch_front [OF assms(1)] by (auto elim: prefixE)
  obtain bs c where bs: "batch q = bs @ [c]" using assms(2) by (metis rev_exhaust)
  have "filter (\<lambda>c. ?n < num c) (batch q) = []" and "filter (\<lambda>c. ?n < num c) rest = rest"
    using numbered [OF assms(1)] by (auto simp: rest bs sorted_wrt_append filter_empty_conv
        filter_id_conv)
  with rest h have "held q = batch q @ held q'" by simp
  with q' that show thesis by blast
qed

end

section \<open>The sink of a process's output\<close>

text \<open>
  What the runner relies on when it copies a process's streams (\<open>runner.Sink\<close>): a write appends the
  bytes, each marked with its stream, as far as an optional limit allows, and time passing (a flush
  in the background) changes nothing.
\<close>

locale output_sink =
  fixes emit :: "'st \<Rightarrow> 'b list \<Rightarrow> 's \<Rightarrow> 's option"
    and idle :: "'s \<Rightarrow> 's"
    and content :: "'s \<Rightarrow> ('st \<times> 'b) list"
    and limit :: "'s \<Rightarrow> nat option"
    and cut :: "'s \<Rightarrow> bool"
    and valid :: "'s \<Rightarrow> bool"
  assumes within: "valid s \<Longrightarrow> take_limit (limit s) (content s) = content s"
    and emit_appends: "valid s \<Longrightarrow> \<exists>s'. emit st d s = Some s' \<and> valid s' \<and> limit s' = limit s \<and>
      content s' = take_limit (limit s) (content s @ map (Pair st) d) \<and>
      (cut s' \<longleftrightarrow> cut s \<or> content s' \<noteq> content s @ map (Pair st) d)"
    and idle_keeps: "valid s \<Longrightarrow> valid (idle s) \<and> limit (idle s) = limit s \<and>
      content (idle s) = content s \<and> cut (idle s) = cut s"
begin

text \<open>
  A copying session: the blocks read from the process, in the order they arrive, with background
  flushes (\<open>None\<close>) in between.
\<close>

fun copying :: "('st \<times> 'b list) option list \<Rightarrow> 's \<Rightarrow> 's option" where
  "copying [] s = Some s"
| "copying (None # es) s = copying es (idle s)"
| "copying (Some (st, d) # es) s = (case emit st d s of None \<Rightarrow> None | Some s' \<Rightarrow> copying es s')"

fun blocks :: "('st \<times> 'b list) option list \<Rightarrow> ('st \<times> 'b) list" where
  "blocks [] = []"
| "blocks (None # es) = blocks es"
| "blocks (Some (st, d) # es) = map (Pair st) d @ blocks es"

lemma copying_content:
  assumes "valid s"
  obtains s' where "copying es s = Some s'" and "valid s'" and "limit s' = limit s"
    and "content s' = take_limit (limit s) (content s @ blocks es)"
    and "cut s' \<longleftrightarrow> cut s \<or> content s' \<noteq> content s @ blocks es"
proof -
  have "\<exists>s'. copying es s = Some s' \<and> valid s' \<and> limit s' = limit s \<and>
      content s' = take_limit (limit s) (content s @ blocks es) \<and>
      (cut s' \<longleftrightarrow> cut s \<or> content s' \<noteq> content s @ blocks es)"
    using assms
  proof (induction es s rule: copying.induct)
    case (1 s)
    then show ?case by (simp add: within)
  next
    case (2 es s)
    then show ?case using idle_keeps [of s] by simp
  next
    case (3 st d es s)
    obtain s1 where s1: "emit st d s = Some s1" "valid s1" "limit s1 = limit s"
      and c1: "content s1 = take_limit (limit s) (content s @ map (Pair st) d)"
      and t1: "cut s1 \<longleftrightarrow> cut s \<or> content s1 \<noteq> content s @ map (Pair st) d"
      using emit_appends [OF "3.prems"] by metis
    obtain s2 where s2: "copying es s1 = Some s2" "valid s2" "limit s2 = limit s"
      and c2: "content s2 = take_limit (limit s) (content s1 @ blocks es)"
      and t2: "cut s2 \<longleftrightarrow> cut s1 \<or> content s2 \<noteq> content s1 @ blocks es"
      using "3.IH" [OF s1(1,2)] s1(3) by auto
    let ?all = "content s @ map (Pair st) d @ blocks es"
    have c: "content s2 = take_limit (limit s) ?all"
      using c1 c2 by (simp add: take_limit_append)
    moreover have "cut s2 \<longleftrightarrow> cut s \<or> content s2 \<noteq> ?all"
    proof (cases "content s1 = content s @ map (Pair st) d")
      case True
      with t1 t2 show ?thesis by simp
    next
      case False
      then obtain n where n: "limit s = Some n" "n < length (content s @ map (Pair st) d)"
        using c1 take_limit_cut [of "limit s" "content s @ map (Pair st) d"] by metis
      then have "length (content s2) \<le> n" using c by (simp add: take_limit_def)
      with n have "content s2 \<noteq> ?all" by auto
      with False t1 t2 show ?thesis by blast
    qed
    ultimately show ?case using s1 s2 by simp
  qed
  with that show thesis by blast
qed

end

section \<open>The ledger of Runs\<close>

text \<open>
  What the agent relies on to execute no Run twice (\<open>MarkActive\<close>, \<open>MarkFinished\<close>, \<open>IsActive\<close> and
  \<open>RecentOutcome\<close> of the state store): marks take effect for their own Run and no other, an outcome
  is on record as soon as it is reported, and what is on record is only ever forgotten, never
  changed by another Run's operations. \<open>'e\<close> is the environment of a call, and \<open>prompt\<close> the condition
  on it under which a new outcome cannot already be too old to keep.
\<close>

locale ledger =
  fixes mark_active :: "'e \<Rightarrow> 'r \<Rightarrow> 's \<Rightarrow> 's"
    and mark_finished :: "'e \<Rightarrow> 'i \<Rightarrow> 'o \<Rightarrow> 's \<Rightarrow> 's"
    and is_active :: "'i \<Rightarrow> 's \<Rightarrow> bool"
    and recorded :: "'i \<Rightarrow> 's \<Rightarrow> 'h option"
    and key :: "'r \<Rightarrow> 'i"
    and entry :: "'e \<Rightarrow> 'i \<Rightarrow> 'o \<Rightarrow> 'h"
    and prompt :: "'e \<Rightarrow> bool"
    and good :: "'s \<Rightarrow> bool"
  assumes good_mark: "good s \<Longrightarrow> good (mark_active e r s)"
    and good_finish: "good s \<Longrightarrow> good (mark_finished e j out s)"
    and active_mark: "is_active i (mark_active e r s) \<longleftrightarrow> i = key r \<or> is_active i s"
    and active_finish: "is_active i (mark_finished e j out s) \<longleftrightarrow> i \<noteq> j \<and> is_active i s"
    and recorded_mark: "good s \<Longrightarrow>
      recorded i (mark_active e r s) = None \<or> recorded i (mark_active e r s) = recorded i s"
    and recorded_other: "good s \<Longrightarrow> i \<noteq> j \<Longrightarrow>
      recorded i (mark_finished e j out s) = None \<or> recorded i (mark_finished e j out s) = recorded i s"
    and recorded_finish: "good s \<Longrightarrow> prompt e \<Longrightarrow>
      recorded j (mark_finished e j out s) = Some (entry e j out)"
begin

text \<open>Runs finished one after the other: the last outcome of each Run is the one on record.\<close>

fun finish_all :: "('e \<times> 'i \<times> 'o) list \<Rightarrow> 's \<Rightarrow> 's" where
  "finish_all [] s = s"
| "finish_all ((e, j, out) # xs) s = finish_all xs (mark_finished e j out s)"

lemma good_finish_all: "good s \<Longrightarrow> good (finish_all xs s)"
  by (induction xs s rule: finish_all.induct) (auto intro: good_finish)

lemma active_finish_all:
  "is_active i (finish_all xs s) \<longleftrightarrow> is_active i s \<and> i \<notin> (fst \<circ> snd) ` set xs"
  by (induction xs s rule: finish_all.induct) (auto simp: active_finish)

lemma recorded_finish_all:
  "good s \<Longrightarrow> i \<notin> (fst \<circ> snd) ` set xs \<Longrightarrow>
   recorded i (finish_all xs s) = None \<or> recorded i (finish_all xs s) = recorded i s"
proof (induction xs s rule: finish_all.induct)
  case (1 s)
  then show ?case by simp
next
  case (2 e j out xs s)
  then show ?case
    using recorded_other [of s i j e out] good_finish [of s e j out] by auto
qed

text \<open>A Run the ledger knows is not offered for execution again by marking or finishing others.\<close>

lemma finish_settles:
  "good s \<Longrightarrow> prompt e \<Longrightarrow>
   \<not> is_active j (mark_finished e j out s) \<and> recorded j (mark_finished e j out s) \<noteq> None"
  by (simp add: active_finish recorded_finish)

end

end
