(* ===== verification/Output_Buffer.thy ===== *)
theory Output_Buffer
  imports Prelude Interfaces
begin

text \<open>
  \<open>internal/output/buffer.go\<close>: the chunks the Server has not acknowledged, per Run, under one
  global cap. The struct \<open>Buffer\<close> is the record \<open>buffer\<close>, its Go map of \<open>*runOutput\<close> an
  association list; the pointer that \<open>Add\<close> takes to its own Run is the key of the Run, so that the
  eviction loop may change the same entry it later appends to, as it does in the source. An access
  outside a slice, which would panic, is the value \<open>None\<close>; the lemmas show it never happens.
  Sizes are byte counts of memory the process holds, so the \<open>int64\<close> sums cannot wrap and are
  plain integers; sequence numbers are \<open>uint64\<close>.
\<close>

section \<open>Data\<close>

record chunk =
  ch_run :: string
  ch_seq :: "64 word"
  ch_stream :: string
  ch_at :: time
  ch_data :: string

definition chunk_size :: "chunk \<Rightarrow> int" where
  "chunk_size c = int (length (ch_data c))"

lemma chunk_size_nonneg [simp]: "0 \<le> chunk_size c"
  by (simp add: chunk_size_def)

record run_output =
  ro_chunks :: "chunk list"
  ro_bytes :: int
  ro_truncated :: bool

definition empty_output :: run_output where
  "empty_output = \<lparr>ro_chunks = [], ro_bytes = 0, ro_truncated = False\<rparr>"

type_synonym run_table = "(string \<times> run_output) list"

record buffer =
  bf_cap :: int
  bf_batch_bytes :: int
  bf_batch_chunks :: int
  bf_runs :: run_table
  bf_size :: int

definition DefaultGlobalCap :: int where "DefaultGlobalCap = 64 * 2 ^ 20"
definition DefaultBatchBytes :: int where "DefaultBatchBytes = 256 * 2 ^ 10"
definition DefaultBatchChunks :: int where "DefaultBatchChunks = 64"

record buffer_options =
  bo_cap :: int
  bo_batch_bytes :: int
  bo_batch_chunks :: int

definition NewBuffer :: "buffer_options \<Rightarrow> buffer" where
  "NewBuffer opts =
     \<lparr>bf_cap = (if bo_cap opts \<le> 0 then DefaultGlobalCap else bo_cap opts),
      bf_batch_bytes = (if bo_batch_bytes opts \<le> 0 then DefaultBatchBytes else bo_batch_bytes opts),
      bf_batch_chunks = (if bo_batch_chunks opts \<le> 0 then DefaultBatchChunks else bo_batch_chunks opts),
      bf_runs = [], bf_size = 0\<rparr>"

section \<open>Operations\<close>

definition get_run :: "buffer \<Rightarrow> string \<Rightarrow> run_output option" where
  "get_run b k = map_of (bf_runs b) k"

definition put_run :: "string \<Rightarrow> run_output \<Rightarrow> buffer \<Rightarrow> buffer" where
  "put_run k r b = b\<lparr>bf_runs := AList.update k r (bf_runs b)\<rparr>"

text \<open>\<open>Buffer.run\<close>: the Run's entry, created when it is missing.\<close>

definition ensure_run :: "string \<Rightarrow> buffer \<Rightarrow> buffer" where
  "ensure_run k b = (case get_run b k of None \<Rightarrow> put_run k empty_output b | Some _ \<Rightarrow> b)"

text \<open>
  \<open>Buffer.largestRun\<close> ranges over a Go map, whose order is unspecified: the order of the visit is
  the argument \<open>iter\<close>, a function of the table that lists its entries in the order visited.
\<close>

definition visits_all :: "(run_table \<Rightarrow> run_table) \<Rightarrow> bool" where
  "visits_all iter \<longleftrightarrow> (\<forall>t. set (iter t) = set t)"

fun larger :: "(string \<times> run_output) option \<Rightarrow> string \<times> run_output \<Rightarrow> (string \<times> run_output) option" where
  "larger largest (k, r) =
     (if ro_chunks r \<noteq> [] \<and> (case largest of None \<Rightarrow> True | Some (_, l) \<Rightarrow> ro_bytes r > ro_bytes l)
      then Some (k, r) else largest)"

definition largestRun :: "(run_table \<Rightarrow> run_table) \<Rightarrow> buffer \<Rightarrow> string option" where
  "largestRun iter b = map_option fst (foldl larger None (iter (bf_runs b)))"

definition dropOldest :: "string \<Rightarrow> buffer \<Rightarrow> buffer option" where
  "dropOldest k b =
     (case get_run b k of None \<Rightarrow> None
      | Some r \<Rightarrow> (case ro_chunks r of [] \<Rightarrow> None
          | c # cs \<Rightarrow> Some ((put_run k (r\<lparr>ro_chunks := cs, ro_bytes := ro_bytes r - chunk_size c\<rparr>) b)
                            \<lparr>bf_size := bf_size b - chunk_size c\<rparr>)))"

definition mark_truncated :: "string \<Rightarrow> buffer \<Rightarrow> buffer" where
  "mark_truncated k b =
     (case get_run b k of None \<Rightarrow> b | Some r \<Rightarrow> put_run k (r\<lparr>ro_truncated := True\<rparr>) b)"

definition total_chunks :: "buffer \<Rightarrow> nat" where
  "total_chunks b = sum_list (map (\<lambda>e. length (ro_chunks (snd e))) (bf_runs b))"

lemma update_fewer:
  "map_of xs k = Some r \<Longrightarrow> length (ro_chunks r') < length (ro_chunks r) \<Longrightarrow>
   sum_list (map (\<lambda>e. length (ro_chunks (snd e))) (AList.update k r' xs))
     < sum_list (map (\<lambda>e. length (ro_chunks (snd e))) xs)"
  by (induction xs) (auto split: if_splits)

lemma update_same:
  "map_of xs k = Some r \<Longrightarrow> length (ro_chunks r') = length (ro_chunks r) \<Longrightarrow>
   sum_list (map (\<lambda>e. length (ro_chunks (snd e))) (AList.update k r' xs))
     = sum_list (map (\<lambda>e. length (ro_chunks (snd e))) xs)"
  by (induction xs) (auto split: if_splits)

lemma total_chunks_dropOldest: "dropOldest k b = Some b' \<Longrightarrow> total_chunks b' < total_chunks b"
  by (auto simp: dropOldest_def total_chunks_def put_run_def get_run_def
      split: option.splits list.splits intro!: update_fewer)

lemma total_chunks_mark [simp]: "total_chunks (mark_truncated k b) = total_chunks b"
  by (auto simp: mark_truncated_def total_chunks_def put_run_def get_run_def
      split: option.splits intro!: update_same)

text \<open>The eviction loop of \<open>Add\<close>; the number of chunks held decreases in every round.\<close>

function make_room :: "(run_table \<Rightarrow> run_table) \<Rightarrow> int \<Rightarrow> buffer \<Rightarrow> buffer option" where
  "make_room iter sz b =
     (if bf_size b + sz > bf_cap b then
        (case largestRun iter b of None \<Rightarrow> Some b
         | Some k \<Rightarrow> (case dropOldest k (mark_truncated k b) of None \<Rightarrow> None
             | Some b' \<Rightarrow> make_room iter sz b'))
      else Some b)"
  by pat_completeness auto
termination
  by (relation "measure (\<lambda>(iter, sz, b). total_chunks b)")
    (auto dest: total_chunks_dropOldest)

declare make_room.simps [simp del]

definition append_chunk :: "chunk \<Rightarrow> run_output \<Rightarrow> run_output" where
  "append_chunk c r = r\<lparr>ro_chunks := ro_chunks r @ [c], ro_bytes := ro_bytes r + chunk_size c\<rparr>"

text \<open>\<open>Buffer.Add\<close>.\<close>

definition Add :: "(run_table \<Rightarrow> run_table) \<Rightarrow> chunk \<Rightarrow> buffer \<Rightarrow> buffer option" where
  "Add iter c b =
     (case make_room iter (chunk_size c) (ensure_run (ch_run c) b) of None \<Rightarrow> None
      | Some b1 \<Rightarrow>
          if bf_size b1 + chunk_size c > bf_cap b1 then Some (mark_truncated (ch_run c) b1)
          else (case get_run b1 (ch_run c) of None \<Rightarrow> None
                | Some r \<Rightarrow> Some ((put_run (ch_run c) (append_chunk c r) b1)
                                   \<lparr>bf_size := bf_size b1 + chunk_size c\<rparr>)))"

text \<open>
  \<open>Buffer.NextBatch\<close>: the loop over the Run's chunks. \<open>n\<close> and \<open>bytes\<close> are the length and the size of
  the batch so far, \<open>prev\<close> the sequence number of the chunk before the current one.
\<close>

fun batch_loop :: "buffer \<Rightarrow> int \<Rightarrow> int \<Rightarrow> 64 word option \<Rightarrow> chunk list \<Rightarrow> chunk list" where
  "batch_loop b n bytes prev [] = []"
| "batch_loop b n bytes prev (c # cs) =
     (if n = bf_batch_chunks b then []
      else if (case prev of None \<Rightarrow> False | Some p \<Rightarrow> ch_seq c \<noteq> p + 1) then []
      else if n > 0 \<and> bytes + chunk_size c > bf_batch_bytes b then []
      else c # batch_loop b (n + 1) (bytes + chunk_size c) (Some (ch_seq c)) cs)"

definition NextBatch :: "string \<Rightarrow> buffer \<Rightarrow> chunk list" where
  "NextBatch k b =
     (case get_run b k of None \<Rightarrow> [] | Some r \<Rightarrow> batch_loop b 0 0 None (ro_chunks r))"

text \<open>\<open>Buffer.AckUpTo\<close>.\<close>

function AckUpTo :: "string \<Rightarrow> 64 word \<Rightarrow> buffer \<Rightarrow> buffer option" where
  "AckUpTo k seq b =
     (case get_run b k of None \<Rightarrow> Some b
      | Some r \<Rightarrow> (case ro_chunks r of [] \<Rightarrow> Some b
          | c # _ \<Rightarrow> if ch_seq c \<le> seq then
                      (case dropOldest k b of None \<Rightarrow> None | Some b' \<Rightarrow> AckUpTo k seq b')
                    else Some b))"
  by pat_completeness auto
termination
  by (relation "measure (\<lambda>(k, seq, b). total_chunks b)") (auto dest: total_chunks_dropOldest)

declare AckUpTo.simps [simp del]

definition Truncated :: "string \<Rightarrow> buffer \<Rightarrow> bool" where
  "Truncated k b = (case get_run b k of None \<Rightarrow> False | Some r \<Rightarrow> ro_truncated r)"

definition Forget :: "string \<Rightarrow> buffer \<Rightarrow> buffer" where
  "Forget k b =
     (case get_run b k of None \<Rightarrow> b
      | Some r \<Rightarrow> b\<lparr>bf_size := bf_size b - ro_bytes r, bf_runs := AList.delete k (bf_runs b)\<rparr>)"

definition Size :: "buffer \<Rightarrow> int" where
  "Size b = bf_size b"


section \<open>Lookup after each operation\<close>

lemma bf_frame [simp]:
  "bf_size (put_run k r b) = bf_size b" "bf_cap (put_run k r b) = bf_cap b"
  "bf_batch_bytes (put_run k r b) = bf_batch_bytes b"
  "bf_batch_chunks (put_run k r b) = bf_batch_chunks b"
  "bf_size (mark_truncated k b) = bf_size b" "bf_cap (mark_truncated k b) = bf_cap b"
  "bf_size (ensure_run k b) = bf_size b" "bf_cap (ensure_run k b) = bf_cap b"
  by (auto simp: put_run_def mark_truncated_def ensure_run_def split: option.splits)

lemma get_put_run [simp]: "get_run (put_run k r b) j = (if j = k then Some r else get_run b j)"
  by (simp add: get_run_def put_run_def update_conv')

lemma get_run_size [simp]: "get_run (b\<lparr>bf_size := n\<rparr>) j = get_run b j"
  by (simp add: get_run_def)

lemma get_ensure_run:
  "get_run (ensure_run k b) j =
     (if j = k \<and> get_run b k = None then Some empty_output else get_run b j)"
  by (auto simp: ensure_run_def split: option.splits)

lemma get_mark_truncated:
  "get_run (mark_truncated k b) j =
     (if j = k then map_option (\<lambda>r. r\<lparr>ro_truncated := True\<rparr>) (get_run b k) else get_run b j)"
  by (auto simp: mark_truncated_def split: option.splits)

definition evicted :: "run_output \<Rightarrow> run_output" where
  "evicted r = r\<lparr>ro_truncated := True, ro_chunks := tl (ro_chunks r),
                 ro_bytes := ro_bytes r - chunk_size (hd (ro_chunks r))\<rparr>"

lemma dropOldest_Some:
  "get_run b k = Some r \<Longrightarrow> ro_chunks r = c # cs \<Longrightarrow>
   dropOldest k b = Some ((put_run k (r\<lparr>ro_chunks := cs, ro_bytes := ro_bytes r - chunk_size c\<rparr>) b)
                          \<lparr>bf_size := bf_size b - chunk_size c\<rparr>)"
  by (simp add: dropOldest_def)

lemma evict_Some:
  assumes "get_run b k = Some r" and "ro_chunks r \<noteq> []"
  shows "dropOldest k (mark_truncated k b) =
    Some ((put_run k (evicted r) b)\<lparr>bf_size := bf_size b - chunk_size (hd (ro_chunks r))\<rparr>)"
  using assms
  by (cases "ro_chunks r")
    (auto simp: dropOldest_def mark_truncated_def evicted_def put_run_def get_run_def update_conv')

section \<open>The invariant\<close>

definition run_ok :: "string \<Rightarrow> run_output \<Rightarrow> bool" where
  "run_ok k r \<longleftrightarrow>
     ro_bytes r = sum_list (map chunk_size (ro_chunks r)) \<and> (\<forall>c\<in>set (ro_chunks r). ch_run c = k)"

definition run_bytes :: "run_table \<Rightarrow> int" where
  "run_bytes t = sum_list (map (ro_bytes \<circ> snd) t)"

definition buffer_inv :: "buffer \<Rightarrow> bool" where
  "buffer_inv b \<longleftrightarrow>
     distinct (map fst (bf_runs b)) \<and>
     (\<forall>k r. get_run b k = Some r \<longrightarrow> run_ok k r) \<and>
     bf_size b = run_bytes (bf_runs b) \<and> bf_size b \<le> bf_cap b"

lemma run_ok_bytes_nonneg: "run_ok k r \<Longrightarrow> 0 \<le> ro_bytes r"
  unfolding run_ok_def by auto

lemma run_ok_empty [simp]: "run_ok k empty_output"
  by (simp add: run_ok_def empty_output_def)

lemma run_ok_evicted: "run_ok k r \<Longrightarrow> ro_chunks r \<noteq> [] \<Longrightarrow> run_ok k (evicted r)"
  by (cases "ro_chunks r") (auto simp: run_ok_def evicted_def)

lemma run_bytes_put:
  assumes "buffer_inv b" and "get_run b k = Some r"
  shows "run_bytes (bf_runs (put_run k r' b)) = bf_size b - ro_bytes r + ro_bytes r'"
  using assms sum_list_alist_update [of "bf_runs b" k r ro_bytes r']
  by (simp add: run_bytes_def put_run_def buffer_inv_def get_run_def)

text \<open>One rule covers every change of a single Run's entry together with the size counter.\<close>

lemma buffer_inv_change:
  assumes inv: "buffer_inv b" and r: "get_run b k = Some r" and ok: "run_ok k r'"
    and sz: "sz = bf_size b - ro_bytes r + ro_bytes r'" and cap: "sz \<le> bf_cap b"
  shows "buffer_inv ((put_run k r' b)\<lparr>bf_size := sz\<rparr>)"
  using inv r ok sz cap run_bytes_put [OF inv r, of r']
  by (auto simp: buffer_inv_def put_run_def get_run_def distinct_update update_conv')

lemma buffer_inv_put:
  "buffer_inv b \<Longrightarrow> get_run b k = Some r \<Longrightarrow> run_ok k r' \<Longrightarrow> ro_bytes r' = ro_bytes r \<Longrightarrow>
   buffer_inv (put_run k r' b)"
  using buffer_inv_change [of b k r r' "bf_size b"]
  by (simp add: buffer_inv_def put_run_def)

lemma buffer_inv_ensure [keeps]: "buffer_inv b \<Longrightarrow> buffer_inv (ensure_run k b)"
  unfolding buffer_inv_def
proof (intro conjI allI impI; elim conjE)
  assume "distinct (map fst (bf_runs b))"
  then show "distinct (map fst (bf_runs (ensure_run k b)))"
    by (simp add: ensure_run_def put_run_def distinct_update split: option.split)
next
  fix j r
  assume "\<forall>k r. get_run b k = Some r \<longrightarrow> run_ok k r" and "get_run (ensure_run k b) j = Some r"
  then show "run_ok j r" by (auto simp: get_ensure_run split: if_splits)
next
  assume "bf_size b = run_bytes (bf_runs b)"
  then show "bf_size (ensure_run k b) = run_bytes (bf_runs (ensure_run k b))"
    using sum_list_alist_insert [of "bf_runs b" k ro_bytes empty_output]
    by (auto simp: ensure_run_def put_run_def run_bytes_def get_run_def empty_output_def
        split: option.split)
qed simp

lemma buffer_inv_mark [keeps]: "buffer_inv b \<Longrightarrow> buffer_inv (mark_truncated k b)"
  by (auto simp: mark_truncated_def intro!: buffer_inv_put split: option.splits)
    (auto simp: run_ok_def buffer_inv_def)

lemma buffer_inv_get: "buffer_inv b \<Longrightarrow> get_run b k = Some r \<Longrightarrow> run_ok k r"
  by (simp add: buffer_inv_def)

lemma buffer_inv_new [simp]: "buffer_inv (NewBuffer opts)"
  by (auto simp: buffer_inv_def NewBuffer_def get_run_def run_bytes_def DefaultGlobalCap_def)

lemma entry_bytes_nonneg: "buffer_inv b \<Longrightarrow> e \<in> set (bf_runs b) \<Longrightarrow> 0 \<le> (ro_bytes \<circ> snd) e"
  using run_ok_bytes_nonneg [of "fst e" "snd e"]
  by (auto simp: buffer_inv_def get_run_def)

lemma run_bytes_le_size:
  assumes "buffer_inv b" and "get_run b k = Some r"
  shows "ro_bytes r \<le> bf_size b"
proof -
  have "(ro_bytes \<circ> snd) (k, r) \<le> sum_list (map (ro_bytes \<circ> snd) (bf_runs b))"
    using assms entry_bytes_nonneg [OF assms(1)]
    by (intro member_le_sum_list_int) (auto simp: get_run_def dest: map_of_SomeD)
  with assms show ?thesis by (simp add: buffer_inv_def run_bytes_def)
qed

lemma buffer_size_nonneg: "buffer_inv b \<Longrightarrow> 0 \<le> bf_size b"
  using entry_bytes_nonneg [of b] by (auto simp: buffer_inv_def run_bytes_def)

section \<open>The largest Run\<close>

lemma foldl_larger_None:
  "foldl larger l xs = None \<longleftrightarrow> l = None \<and> (\<forall>(k, r)\<in>set xs. ro_chunks r = [])"
  by (induction xs arbitrary: l) (auto split: option.splits if_splits)

lemma foldl_larger_Some:
  "foldl larger l xs = Some (k, r) \<Longrightarrow>
     (l = Some (k, r) \<or> (k, r) \<in> set xs \<and> ro_chunks r \<noteq> []) \<and>
     (\<forall>(j, s)\<in>set xs. ro_chunks s \<noteq> [] \<longrightarrow> ro_bytes s \<le> ro_bytes r) \<and>
     (\<forall>j s. l = Some (j, s) \<longrightarrow> ro_bytes s \<le> ro_bytes r)"
proof (induction xs arbitrary: l)
  case Nil
  then show ?case by simp
next
  case (Cons x xs)
  obtain j s where x: "x = (j, s)" by (cases x)
  from Cons.prems have "foldl larger (larger l x) xs = Some (k, r)" by simp
  from Cons.IH [OF this] show ?case
    by (auto simp: x split: if_splits option.splits)
qed

lemma largestRun_Some:
  assumes "visits_all iter" and "buffer_inv b" and "largestRun iter b = Some k"
  obtains r where "get_run b k = Some r" and "ro_chunks r \<noteq> []"
    and "\<And>j s. get_run b j = Some s \<Longrightarrow> ro_bytes s \<le> ro_bytes r"
proof -
  from assms(3) obtain r where f: "foldl larger None (iter (bf_runs b)) = Some (k, r)"
    by (auto simp: largestRun_def)
  have d: "distinct (map fst (bf_runs b))" using assms(2) by (simp add: buffer_inv_def)
  note v = foldl_larger_Some [OF f]
  have r: "get_run b k = Some r" "ro_chunks r \<noteq> []"
    using v assms(1) d by (auto simp: visits_all_def get_run_def)
  have "ro_bytes s \<le> ro_bytes r" if s: "get_run b j = Some s" for j s
  proof (cases "ro_chunks s = []")
    case True
    then have "ro_bytes s = 0"
      using buffer_inv_get [OF assms(2) s] by (simp add: run_ok_def)
    then show ?thesis
      using run_ok_bytes_nonneg [OF buffer_inv_get [OF assms(2) r(1)]] by simp
  next
    case False
    with v s assms(1) d show ?thesis
      by (force simp: visits_all_def get_run_def)
  qed
  with r show thesis by (rule that)
qed

lemma largestRun_None:
  assumes "visits_all iter" and "buffer_inv b" and "largestRun iter b = None"
    and "get_run b k = Some r"
  shows "ro_chunks r = []"
proof -
  have "(k, r) \<in> set (bf_runs b)"
    using assms(4) by (auto simp: get_run_def dest: map_of_SomeD)
  then have "(k, r) \<in> set (iter (bf_runs b))"
    using assms(1) by (simp add: visits_all_def)
  then show ?thesis
    using assms(3) by (auto simp: largestRun_def foldl_larger_None)
qed

lemma all_empty_size:
  assumes "buffer_inv b" and "\<And>k r. get_run b k = Some r \<Longrightarrow> ro_chunks r = []"
  shows "bf_size b = 0"
proof -
  have "(ro_bytes \<circ> snd) e = 0" if "e \<in> set (bf_runs b)" for e
  proof -
    have g: "get_run b (fst e) = Some (snd e)"
      using that assms(1) by (simp add: get_run_def buffer_inv_def)
    show ?thesis
      using buffer_inv_get [OF assms(1) g] assms(2) [OF g] by (simp add: run_ok_def)
  qed
  then have "map (ro_bytes \<circ> snd) (bf_runs b) = map (\<lambda>_. 0) (bf_runs b)"
    by simp
  then have "run_bytes (bf_runs b) = 0"
    unfolding run_bytes_def by (simp only: sum_list_0 map_replicate_const sum_list_replicate mult_zero_right)
  with assms(1) show ?thesis by (simp add: buffer_inv_def)
qed

section \<open>The eviction loop\<close>

definition evict :: "string \<Rightarrow> run_output \<Rightarrow> buffer \<Rightarrow> buffer" where
  "evict k r b =
     (put_run k (evicted r) b)\<lparr>bf_size := bf_size b - chunk_size (hd (ro_chunks r))\<rparr>"

lemma get_evict [simp]: "get_run (evict k r b) j = (if j = k then Some (evicted r) else get_run b j)"
  by (simp add: evict_def)

lemma evict_cap [simp]: "bf_cap (evict k r b) = bf_cap b"
  by (simp add: evict_def)

lemma buffer_inv_evict [keeps]:
  assumes "buffer_inv b" and "get_run b k = Some r" and "ro_chunks r \<noteq> []"
  shows "buffer_inv (evict k r b)"
proof -
  have "bf_size b - chunk_size (hd (ro_chunks r)) \<le> bf_cap b"
    using assms(1) chunk_size_nonneg [of "hd (ro_chunks r)"] unfolding buffer_inv_def by linarith
  then show ?thesis
    unfolding evict_def using assms
    by (intro buffer_inv_change run_ok_evicted buffer_inv_get) (auto simp: evicted_def)
qed

text \<open>
  The rule all facts about the loop use: whatever holds at the start and is kept by evicting the
  oldest chunk of a fullest Run holds at the end; the loop returns, and then there is room or
  nothing is left to evict.
\<close>

lemma make_room_rule:
  assumes vis: "visits_all iter" and inv: "buffer_inv b" and start: "P b"
    and step: "\<And>b k r. \<lbrakk>buffer_inv b; P b; bf_size b + sz > bf_cap b; get_run b k = Some r;
                 ro_chunks r \<noteq> []; \<And>j s. get_run b j = Some s \<Longrightarrow> ro_bytes s \<le> ro_bytes r\<rbrakk>
                 \<Longrightarrow> P (evict k r b)"
  obtains b' where "make_room iter sz b = Some b'" and "buffer_inv b'" and "P b'"
    and "bf_size b' + sz \<le> bf_cap b' \<or> (\<forall>k r. get_run b' k = Some r \<longrightarrow> ro_chunks r = [])"
proof -
  have "\<exists>b'. make_room iter sz b = Some b' \<and> buffer_inv b' \<and> P b' \<and>
      (bf_size b' + sz \<le> bf_cap b' \<or> (\<forall>k r. get_run b' k = Some r \<longrightarrow> ro_chunks r = []))"
    using vis inv start step
  proof (induction iter sz b rule: make_room.induct)
    case (1 iter sz b)
    show ?case
    proof (cases "bf_size b + sz > bf_cap b")
      case False
      with 1 show ?thesis by (auto simp: make_room.simps [of iter sz b])
    next
      case full: True
      show ?thesis
      proof (cases "largestRun iter b")
        case None
        with full 1 show ?thesis
          by (auto simp: make_room.simps [of iter sz b] dest: largestRun_None)
      next
        case (Some k)
        then obtain r where r: "get_run b k = Some r" "ro_chunks r \<noteq> []"
          and big: "\<And>j s. get_run b j = Some s \<Longrightarrow> ro_bytes s \<le> ro_bytes r"
          using largestRun_Some "1.prems"(1,2) by metis
        have d: "dropOldest k (mark_truncated k b) = Some (evict k r b)"
          using r by (simp add: evict_Some evict_def)
        have "buffer_inv (evict k r b)" and "P (evict k r b)"
          using "1.prems" full r big by (auto intro: buffer_inv_evict)
        with "1.IH" [OF full Some d] "1.prems"(1,4) full Some d show ?thesis
          by (simp add: make_room.simps [of iter sz b])
      qed
    qed
  qed
  with that show thesis by blast
qed

text \<open>What eviction may do to a Run: cut its chunks at the front, and then it is marked.\<close>

definition shrunk :: "run_output \<Rightarrow> run_output \<Rightarrow> bool" where
  "shrunk r r' \<longleftrightarrow> suffix (ro_chunks r') (ro_chunks r) \<and>
     (ro_truncated r \<longrightarrow> ro_truncated r') \<and> (ro_chunks r' \<noteq> ro_chunks r \<longrightarrow> ro_truncated r')"

lemma shrunk_refl [simp]: "shrunk r r"
  by (simp add: shrunk_def)

lemma shrunk_evicted: "shrunk r s \<Longrightarrow> ro_chunks s \<noteq> [] \<Longrightarrow> shrunk r (evicted s)"
  by (auto simp: shrunk_def evicted_def intro: suffix_order.trans suffix_tl)

definition shrunk_from :: "buffer \<Rightarrow> buffer \<Rightarrow> bool" where
  "shrunk_from b0 b \<longleftrightarrow> bf_cap b = bf_cap b0 \<and>
     (\<forall>k. rel_option shrunk (get_run b0 k) (get_run b k))"

lemma shrunk_from_refl [simp]: "shrunk_from b b"
  by (auto simp: shrunk_from_def intro: option.rel_refl)

lemma shrunk_from_evict:
  assumes "shrunk_from b0 b" and "get_run b k = Some r" and "ro_chunks r \<noteq> []"
  shows "shrunk_from b0 (evict k r b)"
  unfolding shrunk_from_def
proof (intro conjI allI)
  fix j
  have "rel_option shrunk (get_run b0 j) (get_run b j)"
    using assms(1) by (simp add: shrunk_from_def)
  with assms(2,3) show "rel_option shrunk (get_run b0 j) (get_run (evict k r b) j)"
    by (cases "get_run b0 j") (auto intro: shrunk_evicted)
qed (use assms(1) in \<open>simp add: shrunk_from_def\<close>)

lemma make_room_shrinks:
  assumes "visits_all iter" and "buffer_inv b"
  obtains b' where "make_room iter sz b = Some b'" and "buffer_inv b'" and "shrunk_from b b'"
    and "bf_size b' + sz \<le> bf_cap b \<or> (\<forall>k r. get_run b' k = Some r \<longrightarrow> ro_chunks r = [])"
proof (rule make_room_rule [OF assms, of "shrunk_from b" sz])
  show "shrunk_from b b" by simp
next
  fix b1 k r
  assume "shrunk_from b b1" and "get_run b1 k = Some r" and "ro_chunks r \<noteq> []"
  then show "shrunk_from b (evict k r b1)" by (rule shrunk_from_evict)
next
  fix b'
  assume "make_room iter sz b = Some b'" and "buffer_inv b'" and "shrunk_from b b'"
    and "bf_size b' + sz \<le> bf_cap b' \<or> (\<forall>k r. get_run b' k = Some r \<longrightarrow> ro_chunks r = [])"
  then show thesis by (intro that) (auto simp: shrunk_from_def)
qed

section \<open>Add\<close>

lemma Add_cases:
  assumes vis: "visits_all iter" and inv: "buffer_inv b"
  obtains b1 r where "make_room iter (chunk_size c) (ensure_run (ch_run c) b) = Some b1"
    and "buffer_inv b1" and "shrunk_from (ensure_run (ch_run c) b) b1"
    and "get_run b1 (ch_run c) = Some r"
    and "bf_size b1 + chunk_size c \<le> bf_cap b"
    and "Add iter c b = Some ((put_run (ch_run c) (append_chunk c r) b1)
                              \<lparr>bf_size := bf_size b1 + chunk_size c\<rparr>)"
  | b1 r where "make_room iter (chunk_size c) (ensure_run (ch_run c) b) = Some b1"
    and "buffer_inv b1" and "shrunk_from (ensure_run (ch_run c) b) b1"
    and "get_run b1 (ch_run c) = Some r"
    and "\<And>k s. get_run b1 k = Some s \<Longrightarrow> ro_chunks s = []"
    and "bf_cap b < chunk_size c"
    and "Add iter c b = Some (mark_truncated (ch_run c) b1)"
proof -
  obtain b1 where m: "make_room iter (chunk_size c) (ensure_run (ch_run c) b) = Some b1"
    and i: "buffer_inv b1" and s: "shrunk_from (ensure_run (ch_run c) b) b1"
    and room: "bf_size b1 + chunk_size c \<le> bf_cap b \<or>
      (\<forall>k r. get_run b1 k = Some r \<longrightarrow> ro_chunks r = [])"
    using make_room_shrinks [OF vis buffer_inv_ensure [OF inv], of "chunk_size c"] by auto
  have cap: "bf_cap b1 = bf_cap b" using s by (simp add: shrunk_from_def)
  have "get_run (ensure_run (ch_run c) b) (ch_run c) \<noteq> None"
    by (simp add: get_ensure_run)
  then obtain r where r: "get_run b1 (ch_run c) = Some r"
    using s by (force simp: shrunk_from_def elim: option.rel_cases)
  show thesis
  proof (cases "bf_size b1 + chunk_size c \<le> bf_cap b")
    case True
    with m r cap show thesis by (intro that(1) [OF m i s r]) (simp_all add: Add_def)
  next
    case False
    with room have e: "\<And>k s. get_run b1 k = Some s \<Longrightarrow> ro_chunks s = []" by blast
    then have "bf_size b1 = 0" using all_empty_size [OF i] by blast
    with False m cap show thesis by (intro that(2) [OF m i s r e]) (simp_all add: Add_def)
  qed
qed

lemma get_run_after_room:
  assumes "shrunk_from (ensure_run j b) b1" and "get_run b k = Some r0"
  obtains r where "get_run b1 k = Some r" and "shrunk r0 r"
proof -
  have "get_run (ensure_run j b) k = Some r0" using assms(2) by (auto simp: get_ensure_run)
  then have "rel_option shrunk (Some r0) (get_run b1 k)"
    using assms(1) by (metis shrunk_from_def)
  with that show thesis by (auto elim: option.rel_cases)
qed

lemma Add_inv:
  assumes "visits_all iter" and "buffer_inv b"
  obtains b' where "Add iter c b = Some b'" and "buffer_inv b'" and "bf_cap b' = bf_cap b"
proof (cases rule: Add_cases [OF assms, where c = c])
  case (1 b1 r)
  then have "buffer_inv ((put_run (ch_run c) (append_chunk c r) b1)\<lparr>bf_size := bf_size b1 + chunk_size c\<rparr>)"
    using buffer_inv_get [OF 1(2,4)]
    by (intro buffer_inv_change) (auto simp: append_chunk_def run_ok_def shrunk_from_def)
  with 1 that show thesis by (simp add: shrunk_from_def)
next
  case (2 b1 r)
  with that buffer_inv_mark show thesis by (simp add: shrunk_from_def)
qed

text \<open>The fair share of a Run: eviction never reaches a Run that holds no more than this.\<close>

definition within_share :: "int \<Rightarrow> buffer \<Rightarrow> string \<Rightarrow> bool" where
  "within_share sz b k \<longleftrightarrow>
     (case get_run b k of None \<Rightarrow> True
      | Some r \<Rightarrow> int (length (bf_runs b)) * ro_bytes r \<le> bf_cap b - sz)"

lemma length_put_run:
  "get_run b k = Some r \<Longrightarrow> length (bf_runs (put_run k r' b)) = length (bf_runs b)"
proof -
  have "map_of xs k = Some r \<Longrightarrow> length (AList.update k r' xs) = length xs" for xs
    by (induction xs) (auto split: if_splits)
  then show "get_run b k = Some r \<Longrightarrow> length (bf_runs (put_run k r' b)) = length (bf_runs b)"
    by (simp add: get_run_def put_run_def)
qed

lemma make_room_spares:
  assumes vis: "visits_all iter" and inv: "buffer_inv b" and j: "get_run b j = Some r0"
    and share: "within_share sz b j" and m: "make_room iter sz b = Some b'"
  shows "get_run b' j = Some r0"
proof -
  define P where "P b1 \<longleftrightarrow> get_run b1 j = Some r0 \<and> length (bf_runs b1) = length (bf_runs b) \<and>
    bf_cap b1 = bf_cap b" for b1
  have step: "P (evict k r b1)"
    if i: "buffer_inv b1" and p: "P b1" and full: "bf_size b1 + sz > bf_cap b1"
      and k: "get_run b1 k = Some r"
      and big: "\<And>j s. get_run b1 j = Some s \<Longrightarrow> ro_bytes s \<le> ro_bytes r" for b1 k r
  proof -
    have "(ro_bytes \<circ> snd) e \<le> ro_bytes r" if "e \<in> set (bf_runs b1)" for e
      using that i big [of "fst e" "snd e"] by (simp add: get_run_def buffer_inv_def)
    then have "bf_size b1 \<le> int (length (bf_runs b)) * ro_bytes r"
      using sum_list_le_length_mult [of "bf_runs b1" "ro_bytes \<circ> snd" "ro_bytes r"] i p
      by (simp add: buffer_inv_def run_bytes_def P_def)
    with full share j p k have "k \<noteq> j"
      by (auto simp: within_share_def P_def)
    with p k show ?thesis
      by (simp add: P_def evict_def length_put_run)
  qed
  have "P b" by (simp add: P_def j)
  then obtain b2 where "make_room iter sz b = Some b2" and "P b2"
    using make_room_rule [OF vis inv, of P sz] step by metis
  with m show ?thesis by (simp add: P_def)
qed

section \<open>Batches\<close>

lemma batch_loop_prefix: "prefix (batch_loop b n bytes prev cs) cs"
  by (induction b n bytes prev cs rule: batch_loop.induct) auto

lemma batch_loop_length:
  "n \<le> bf_batch_chunks b \<Longrightarrow> int (length (batch_loop b n bytes prev cs)) \<le> bf_batch_chunks b - n"
  by (induction b n bytes prev cs rule: batch_loop.induct) auto

lemma batch_loop_bytes:
  "0 < n \<Longrightarrow> batch_loop b n bytes prev cs = [] \<or>
     bytes + sum_list (map chunk_size (batch_loop b n bytes prev cs)) \<le> bf_batch_bytes b"
proof (induction b n bytes prev cs rule: batch_loop.induct)
  case (1 b n bytes prev)
  then show ?case by simp
next
  case (2 b n bytes prev c cs)
  show ?case
  proof (cases "batch_loop b n bytes prev (c # cs) = []")
    case False
    then have rec: "batch_loop b n bytes prev (c # cs) =
        c # batch_loop b (n + 1) (bytes + chunk_size c) (Some (ch_seq c)) cs"
      and fits: "bytes + chunk_size c \<le> bf_batch_bytes b"
      using 2(2) by (auto split: if_splits)
    have "batch_loop b (n + 1) (bytes + chunk_size c) (Some (ch_seq c)) cs = [] \<or>
        bytes + chunk_size c +
          sum_list (map chunk_size (batch_loop b (n + 1) (bytes + chunk_size c) (Some (ch_seq c)) cs))
        \<le> bf_batch_bytes b"
      using 2 False by (auto split: if_splits)
    with rec fits show ?thesis by auto
  qed simp
qed

definition consecutive :: "chunk \<Rightarrow> chunk \<Rightarrow> bool" where
  "consecutive c d \<longleftrightarrow> ch_seq d = ch_seq c + 1"

lemma batch_loop_consecutive:
  "successively consecutive (batch_loop b n bytes prev cs) \<and>
   (batch_loop b n bytes prev cs \<noteq> [] \<longrightarrow>
      (\<forall>p. prev = Some p \<longrightarrow> ch_seq (hd (batch_loop b n bytes prev cs)) = p + 1))"
  by (induction b n bytes prev cs rule: batch_loop.induct)
    (auto simp: successively_Cons consecutive_def split: option.splits)

lemma batch_loop_stops:
  "batch_loop b n bytes prev cs @ d # rest = cs \<Longrightarrow>
     n + int (length (batch_loop b n bytes prev cs)) = bf_batch_chunks b \<or>
     (case batch_loop b n bytes prev cs of [] \<Rightarrow> (\<exists>p. prev = Some p \<and> ch_seq d \<noteq> p + 1)
      | _ \<Rightarrow> \<not> consecutive (last (batch_loop b n bytes prev cs)) d) \<or>
     bytes + sum_list (map chunk_size (batch_loop b n bytes prev cs)) + chunk_size d > bf_batch_bytes b"
proof (induction b n bytes prev cs rule: batch_loop.induct)
  case (1 b n bytes prev)
  then show ?case by simp
next
  case (2 b n bytes prev c cs)
  show ?case
  proof (cases "batch_loop b n bytes prev (c # cs) = []")
    case True
    with "2.prems" show ?thesis by (auto split: if_splits option.splits)
  next
    case False
    let ?tl = "batch_loop b (n + 1) (bytes + chunk_size c) (Some (ch_seq c)) cs"
    have rec: "batch_loop b n bytes prev (c # cs) = c # ?tl"
      using False by (auto split: if_splits)
    have "?tl @ d # rest = cs" using "2.prems" rec by simp
    then have "n + 1 + int (length ?tl) = bf_batch_chunks b \<or>
        (case ?tl of [] \<Rightarrow> (\<exists>p. Some (ch_seq c) = Some p \<and> ch_seq d \<noteq> p + 1)
         | _ \<Rightarrow> \<not> consecutive (last ?tl) d) \<or>
        bytes + chunk_size c + sum_list (map chunk_size ?tl) + chunk_size d > bf_batch_bytes b"
      using "2.IH" False by (auto split: if_splits)
    then show ?thesis
      unfolding rec by (cases ?tl) (auto simp: consecutive_def)
  qed
qed

section \<open>Acknowledgements\<close>

definition acked :: "64 word \<Rightarrow> run_output \<Rightarrow> run_output" where
  "acked seq r = r\<lparr>ro_chunks := dropWhile (\<lambda>c. ch_seq c \<le> seq) (ro_chunks r),
     ro_bytes := sum_list (map chunk_size (dropWhile (\<lambda>c. ch_seq c \<le> seq) (ro_chunks r)))\<rparr>"

lemma AckUpTo_spec:
  assumes "buffer_inv b" and "get_run b k = Some r"
  shows "\<exists>b'. AckUpTo k seq b = Some b' \<and> buffer_inv b' \<and>
    (\<forall>j. get_run b' j = (if j = k then Some (acked seq r) else get_run b j)) \<and>
    bf_cap b' = bf_cap b \<and> bf_batch_chunks b' = bf_batch_chunks b"
  using assms
proof (induction k seq b arbitrary: r rule: AckUpTo.induct)
  case (1 k seq b)
  have ok: "run_ok k r" using 1(2,3) by (simp add: buffer_inv_def)
  show ?case
  proof (cases "ro_chunks r")
    case Nil
    with 1(2,3) ok show ?thesis
      by (auto simp: AckUpTo.simps [of k seq b] acked_def run_ok_def)
  next
    case (Cons c cs)
    show ?thesis
    proof (cases "ch_seq c \<le> seq")
      case False
      with 1(2,3) Cons ok show ?thesis
        by (auto simp: AckUpTo.simps [of k seq b] acked_def run_ok_def)
    next
      case True
      let ?r1 = "r\<lparr>ro_chunks := cs, ro_bytes := ro_bytes r - chunk_size c\<rparr>"
      let ?b1 = "(put_run k ?r1 b)\<lparr>bf_size := bf_size b - chunk_size c\<rparr>"
      have d: "dropOldest k b = Some ?b1" using 1(3) Cons by (simp add: dropOldest_Some)
      have "bf_size b - chunk_size c \<le> bf_cap b"
        using 1(2) chunk_size_nonneg [of c] unfolding buffer_inv_def by linarith
      then have "buffer_inv ?b1"
        using 1(2,3) ok Cons by (intro buffer_inv_change) (auto simp: run_ok_def)
      moreover have "get_run ?b1 k = Some ?r1" by simp
      ultimately show ?thesis
        using 1(1) [OF 1(3) Cons True d] 1(3) Cons True d
        by (auto simp: AckUpTo.simps [of k seq b] acked_def)
    qed
  qed
qed

lemma AckUpTo_absent: "get_run b k = None \<Longrightarrow> AckUpTo k seq b = Some b"
  by (simp add: AckUpTo.simps [of k seq b])

section \<open>The buffer as the outbox of one Run\<close>

definition held :: "string \<Rightarrow> buffer \<Rightarrow> chunk list" where
  "held k b = (case get_run b k of None \<Rightarrow> [] | Some r \<Rightarrow> ro_chunks r)"

definition outbox_valid :: "string \<Rightarrow> buffer \<Rightarrow> bool" where
  "outbox_valid k b \<longleftrightarrow> buffer_inv b \<and> 1 \<le> bf_batch_chunks b \<and>
     sorted_wrt (\<lambda>c d. ch_seq c < ch_seq d) (held k b)"

lemma NextBatch_prefix: "prefix (NextBatch k b) (held k b)"
  by (auto simp: NextBatch_def held_def batch_loop_prefix split: option.split)

lemma NextBatch_some: "1 \<le> bf_batch_chunks b \<Longrightarrow> held k b \<noteq> [] \<Longrightarrow> NextBatch k b \<noteq> []"
  by (auto simp: NextBatch_def held_def neq_Nil_conv split: option.splits)

lemma sorted_wrt_dropWhile: "sorted_wrt P xs \<Longrightarrow> sorted_wrt P (dropWhile Q xs)"
  by (induction xs) auto

lemma held_AckUpTo:
  assumes "outbox_valid k b"
  shows "\<exists>b'. AckUpTo k n b = Some b' \<and> outbox_valid k b' \<and>
    held k b' = dropWhile (\<lambda>c. ch_seq c \<le> n) (held k b)"
proof (cases "get_run b k")
  case None
  with assms show ?thesis by (auto simp: AckUpTo_absent held_def)
next
  case (Some r)
  have "buffer_inv b" using assms by (simp add: outbox_valid_def)
  from AckUpTo_spec [OF this Some, of n] Some assms show ?thesis
    by (auto simp: outbox_valid_def held_def acked_def sorted_wrt_dropWhile)
qed

interpretation run_outbox: outbox "NextBatch k" "AckUpTo k" "held k" ch_seq "outbox_valid k" for k
proof unfold_locales
  show "outbox_valid k b \<Longrightarrow> prefix (NextBatch k b) (held k b)" for b
    by (rule NextBatch_prefix)
  show "outbox_valid k b \<Longrightarrow> held k b \<noteq> [] \<Longrightarrow> NextBatch k b \<noteq> []" for b
    by (simp add: outbox_valid_def NextBatch_some)
  show "outbox_valid k b \<Longrightarrow> sorted_wrt (\<lambda>c d. ch_seq c < ch_seq d) (held k b)" for b
    by (simp add: outbox_valid_def)
qed (rule held_AckUpTo)

section \<open>Forgetting a Run\<close>

lemma Forget_spec [keeps]:
  assumes "buffer_inv b"
  shows "buffer_inv (Forget k b) \<and> get_run (Forget k b) k = None \<and>
    (\<forall>j. j \<noteq> k \<longrightarrow> get_run (Forget k b) j = get_run b j) \<and> Size (Forget k b) \<le> Size b"
proof (cases "get_run b k")
  case None
  with assms show ?thesis by (simp add: Forget_def)
next
  case (Some r)
  have r: "0 \<le> ro_bytes r" using run_ok_bytes_nonneg buffer_inv_get assms Some by blast
  have "run_bytes (AList.delete k (bf_runs b)) = bf_size b - ro_bytes r"
    using sum_list_alist_delete [of "bf_runs b" k r ro_bytes] assms Some
    by (simp add: buffer_inv_def run_bytes_def get_run_def)
  with assms Some r show ?thesis
    by (auto simp: Forget_def buffer_inv_def get_run_def distinct_delete delete_conv' Size_def)
qed

section \<open>What is retained\<close>

text \<open>A step of the buffer that adds the chunks \<open>new\<close> to a Run may cut chunks at its front, but then
  marks it.\<close>

definition retains :: "string \<Rightarrow> chunk list \<Rightarrow> buffer \<Rightarrow> buffer \<Rightarrow> bool" where
  "retains k new b b' \<longleftrightarrow> (\<exists>lost. held k b @ new = lost @ held k b' \<and>
     (lost \<noteq> [] \<or> Truncated k b \<longrightarrow> Truncated k b'))"

lemma retains_refl: "retains k [] b b"
  by (simp add: retains_def)

lemma retains_append:
  assumes "retains k xs b b1" and "retains k ys b1 b2"
  shows "retains k (xs @ ys) b b2"
proof -
  obtain l1 where 1: "held k b @ xs = l1 @ held k b1" "l1 \<noteq> [] \<or> Truncated k b \<longrightarrow> Truncated k b1"
    using assms(1) by (auto simp: retains_def)
  obtain l2 where 2: "held k b1 @ ys = l2 @ held k b2" "l2 \<noteq> [] \<or> Truncated k b1 \<longrightarrow> Truncated k b2"
    using assms(2) by (auto simp: retains_def)
  have "held k b @ xs @ ys = (l1 @ l2) @ held k b2" using 1(1) 2(1) by (metis append.assoc)
  with 1(2) 2(2) show ?thesis unfolding retains_def by (intro exI [of _ "l1 @ l2"]) auto
qed

lemma Add_loss:
  assumes "visits_all iter" and "buffer_inv b"
  shows "\<exists>b'. Add iter c b = Some b' \<and>
    (\<forall>k. \<exists>lost. held k b @ (if k = ch_run c then [c] else []) = lost @ held k b' \<and>
       (lost \<noteq> [] \<or> Truncated k b \<longrightarrow> Truncated k b')) \<and>
    (chunk_size c \<le> bf_cap b \<longrightarrow> held (ch_run c) b' \<noteq> [] \<and> last (held (ch_run c) b') = c)"
proof -
  have shr: "\<exists>lost. held k b = lost @ held k b1 \<and> (lost \<noteq> [] \<or> Truncated k b \<longrightarrow> Truncated k b1)"
    if s: "shrunk_from (ensure_run (ch_run c) b) b1" for k b1
  proof (cases "get_run b k")
    case None
    have "rel_option shrunk (get_run (ensure_run (ch_run c) b) k) (get_run b1 k)"
      using s by (simp add: shrunk_from_def)
    with None show ?thesis
      by (auto simp: get_ensure_run held_def Truncated_def empty_output_def shrunk_def
          split: option.splits if_splits)
  next
    case (Some r0)
    then obtain r where "get_run b1 k = Some r" "shrunk r0 r"
      using get_run_after_room [OF s] by metis
    with Some show ?thesis by (auto simp: held_def Truncated_def shrunk_def suffix_def)
  qed
  show ?thesis
  proof (cases rule: Add_cases [OF assms, where c = c])
    case (1 b1 r)
    have "held k b' = held k b1 @ (if k = ch_run c then [c] else [])"
      and "Truncated k b' = Truncated k b1" if "Add iter c b = Some b'" for k b'
      using that 1(4,6) by (auto simp: held_def Truncated_def append_chunk_def split: if_splits)
    with shr [OF 1(3)] 1(6) show ?thesis by fastforce
  next
    case (2 b1 r)
    then have h: "held k b1 = []" and h': "held k (mark_truncated (ch_run c) b1) = []" for k
      by (auto simp: held_def get_mark_truncated split: option.splits)
    have t: "Truncated k (mark_truncated (ch_run c) b1) = (k = ch_run c \<or> Truncated k b1)" for k
      using 2(4) by (auto simp: Truncated_def get_mark_truncated split: option.splits)
    show ?thesis
      using shr [OF 2(3)] h h' t 2(6,7) by (intro exI [of _ "mark_truncated (ch_run c) b1"]) auto
  qed
qed

lemma Add_retains:
  assumes "visits_all iter" and "buffer_inv b"
  shows "\<exists>b'. Add iter c b = Some b' \<and> (\<forall>k. retains k (if k = ch_run c then [c] else []) b b')"
  using Add_loss [OF assms, of c] unfolding retains_def by (elim exE conjE) (rule exI, rule conjI)

lemma Add_batch:
  assumes "visits_all iter" and "buffer_inv b" and "Add iter c b = Some b'"
  shows "bf_batch_chunks b' = bf_batch_chunks b"
proof -
  have e: "bf_batch_chunks (ensure_run (ch_run c) b) = bf_batch_chunks b"
    by (simp add: ensure_run_def put_run_def split: option.split)
  obtain b1 where "make_room iter (chunk_size c) (ensure_run (ch_run c) b) = Some b1"
    and "bf_batch_chunks b1 = bf_batch_chunks b"
    by (rule make_room_rule [OF assms(1) buffer_inv_ensure [OF assms(2)],
          where P = "\<lambda>b1. bf_batch_chunks b1 = bf_batch_chunks b", OF e])
      (simp_all add: evict_def)
  with assms(3) show ?thesis by (auto simp: Add_def Let_def mark_truncated_def split: option.splits if_splits)
qed

section \<open>Properties\<close>

text \<open>C26: \<open>Add\<close> never panics, and it keeps the accounting: the size counter is the sum of the
  bytes of the chunks held, every chunk sits under its own Run, and the bytes held never exceed the
  global cap, whatever order Go visits the map of Runs in.\<close>

theorem Add_keeps_invariant:
  assumes "visits_all iter" and "buffer_inv b"
  shows "\<exists>b'. Add iter c b = Some b' \<and> buffer_inv b' \<and> 0 \<le> Size b' \<and> Size b' \<le> bf_cap b"
  using Add_inv [OF assms, of c] buffer_size_nonneg
  by (metis Size_def buffer_inv_def)

text \<open>C6: No output is lost silently. After \<open>Add\<close>, what a Run held (and the new chunk, at the end of
  its own Run) is still there except for chunks cut at the front, and if anything was cut the Run is
  marked truncated; a chunk that fits the cap is itself always kept.\<close>

theorem Add_no_silent_loss:
  assumes "visits_all iter" and "buffer_inv b"
  shows "\<exists>b'. Add iter c b = Some b' \<and>
    (\<forall>k. \<exists>lost. held k b @ (if k = ch_run c then [c] else []) = lost @ held k b' \<and>
       (lost \<noteq> [] \<or> Truncated k b \<longrightarrow> Truncated k b')) \<and>
    (chunk_size c \<le> bf_cap b \<longrightarrow> held (ch_run c) b' \<noteq> [] \<and> last (held (ch_run c) b') = c)"
  by (rule Add_loss [OF assms])

text \<open>C27: One noisy Run cannot starve the others: a Run that holds no more than an equal share of the
  room left for the new chunk (the cap less the chunk, divided by the number of Runs) keeps
  everything it has, unmarked, when another Run's chunk is added.\<close>

theorem Add_fair_share:
  assumes "visits_all iter" and "buffer_inv b" and "get_run b j = Some r0" and "j \<noteq> ch_run c"
    and "within_share (chunk_size c) (ensure_run (ch_run c) b) j"
  shows "\<exists>b'. Add iter c b = Some b' \<and> get_run b' j = Some r0"
proof -
  have j: "get_run (ensure_run (ch_run c) b) j = Some r0"
    using assms(3,4) by (simp add: get_ensure_run)
  have spared: "get_run b1 j = Some r0"
    if "make_room iter (chunk_size c) (ensure_run (ch_run c) b) = Some b1" for b1
    by (rule make_room_spares [OF assms(1) buffer_inv_ensure [OF assms(2)] j assms(5) that])
  show ?thesis
    by (cases rule: Add_cases [OF assms(1,2), where c = c])
      (use spared assms(4) in \<open>auto simp: get_mark_truncated\<close>)
qed

text \<open>\<open>NextBatch\<close> answers with the oldest chunks of the Run: at least one while any is held, never
  more than the two batch limits allow (a single chunk may exceed the byte limit), numbered without
  a gap; and it stops only at a limit or at a gap in the numbers.\<close>

lemma NextBatch_spec:
  assumes "1 \<le> bf_batch_chunks b"
  shows "prefix (NextBatch k b) (held k b) \<and> (held k b \<noteq> [] \<longrightarrow> NextBatch k b \<noteq> []) \<and>
    int (length (NextBatch k b)) \<le> bf_batch_chunks b \<and>
    (length (NextBatch k b) \<le> 1 \<or> sum_list (map chunk_size (NextBatch k b)) \<le> bf_batch_bytes b) \<and>
    successively consecutive (NextBatch k b) \<and>
    (\<forall>d rest. held k b = NextBatch k b @ d # rest \<longrightarrow>
       int (length (NextBatch k b)) = bf_batch_chunks b \<or>
       \<not> consecutive (last (NextBatch k b)) d \<or>
       sum_list (map chunk_size (NextBatch k b)) + chunk_size d > bf_batch_bytes b)"
proof (cases "held k b")
  case Nil
  then show ?thesis using NextBatch_prefix [of k b] assms by simp
next
  case (Cons c cs)
  then have nb: "NextBatch k b = batch_loop b 0 0 None (c # cs)"
    by (auto simp: NextBatch_def held_def split: option.splits)
  have split: "NextBatch k b = c # batch_loop b 1 (chunk_size c) (Some (ch_seq c)) cs"
    using assms nb by simp
  have "length (NextBatch k b) \<le> 1 \<or> sum_list (map chunk_size (NextBatch k b)) \<le> bf_batch_bytes b"
    using batch_loop_bytes [of 1 b "chunk_size c" "Some (ch_seq c)" cs] unfolding split by auto
  moreover have "int (length (NextBatch k b)) \<le> bf_batch_chunks b"
    using batch_loop_length [of 0 b 0 None "c # cs"] assms unfolding nb by simp
  moreover have "successively consecutive (NextBatch k b)"
    using batch_loop_consecutive [of b 0 0 None "c # cs"] unfolding nb by blast
  moreover have "int (length (NextBatch k b)) = bf_batch_chunks b \<or>
       \<not> consecutive (last (NextBatch k b)) d \<or>
       sum_list (map chunk_size (NextBatch k b)) + chunk_size d > bf_batch_bytes b"
    if "held k b = NextBatch k b @ d # rest" for d rest
    using batch_loop_stops [of b 0 0 None "c # cs" d rest] that Cons split
    unfolding nb by (auto split: list.splits)
  ultimately show ?thesis
    using NextBatch_prefix [of k b] split by auto
qed

section \<open>Witnesses\<close>

definition sample_chunk :: "string \<Rightarrow> 64 word \<Rightarrow> string \<Rightarrow> chunk" where
  "sample_chunk k n d = \<lparr>ch_run = k, ch_seq = n, ch_stream = ''stdout'', ch_at = 0, ch_data = d\<rparr>"

definition sample_buffer :: buffer where
  "sample_buffer =
     \<lparr>bf_cap = 6, bf_batch_bytes = 4, bf_batch_chunks = 2,
      bf_runs = [(''a'', \<lparr>ro_chunks = [sample_chunk ''a'' 1 ''xy'', sample_chunk ''a'' 2 ''zw''],
                          ro_bytes = 4, ro_truncated = False\<rparr>),
                 (''b'', \<lparr>ro_chunks = [sample_chunk ''b'' 1 ''q''], ro_bytes = 1,
                          ro_truncated = False\<rparr>)],
      bf_size = 5\<rparr>"

lemma visits_all_id: "visits_all (\<lambda>t. t)" and visits_all_rev: "visits_all rev"
  by (simp_all add: visits_all_def)

lemma sample_buffer_inv: "buffer_inv sample_buffer"
  by (auto simp: buffer_inv_def sample_buffer_def get_run_def run_ok_def run_bytes_def
      sample_chunk_def chunk_size_def split: if_splits)

theorem Add_keeps_invariant_witness:
  "\<exists>b'. Add rev (sample_chunk ''b'' 2 ''rs'') sample_buffer = Some b' \<and> buffer_inv b' \<and>
     0 \<le> Size b' \<and> Size b' \<le> 6"
  using Add_keeps_invariant [OF visits_all_rev sample_buffer_inv, of "sample_chunk ''b'' 2 ''rs''"]
  by (simp add: sample_buffer_def)

theorem Add_no_silent_loss_witness:
  "\<exists>b'. Add (\<lambda>t. t) (sample_chunk ''b'' 2 ''rs'') sample_buffer = Some b' \<and>
     last (held ''b'' b') = sample_chunk ''b'' 2 ''rs'' \<and>
     (\<exists>lost. held ''a'' sample_buffer = lost @ held ''a'' b' \<and> (lost \<noteq> [] \<longrightarrow> Truncated ''a'' b'))"
proof -
  let ?c = "sample_chunk ''b'' 2 ''rs''"
  obtain b' where b': "Add (\<lambda>t. t) ?c sample_buffer = Some b'"
    and l: "\<forall>k. \<exists>lost. held k sample_buffer @ (if k = ch_run ?c then [?c] else []) = lost @ held k b' \<and>
       (lost \<noteq> [] \<or> Truncated k sample_buffer \<longrightarrow> Truncated k b')"
    and k: "chunk_size ?c \<le> bf_cap sample_buffer \<longrightarrow> held (ch_run ?c) b' \<noteq> [] \<and> last (held (ch_run ?c) b') = ?c"
    using Add_no_silent_loss [OF visits_all_id sample_buffer_inv, of ?c] by metis
  have "\<exists>lost. held ''a'' sample_buffer = lost @ held ''a'' b' \<and> (lost \<noteq> [] \<longrightarrow> Truncated ''a'' b')"
    using spec [OF l, of "''a''"] by (auto simp: sample_chunk_def)
  with b' k show ?thesis
    by (simp add: sample_chunk_def sample_buffer_def chunk_size_def)
qed

theorem Add_fair_share_witness:
  "\<exists>b'. Add (\<lambda>t. t) (sample_chunk ''c'' 1 ''uvw'') sample_buffer = Some b' \<and>
     get_run b' ''b'' = Some \<lparr>ro_chunks = [sample_chunk ''b'' 1 ''q''], ro_bytes = 1, ro_truncated = False\<rparr>"
  by (rule Add_fair_share [OF visits_all_id sample_buffer_inv])
    (simp_all add: sample_buffer_def sample_chunk_def get_run_def within_share_def ensure_run_def
      put_run_def chunk_size_def empty_output_def)

lemma NextBatch_spec_example:
  "NextBatch ''a'' sample_buffer \<noteq> [] \<and> successively consecutive (NextBatch ''a'' sample_buffer) \<and>
   int (length (NextBatch ''a'' sample_buffer)) \<le> 2"
  using NextBatch_spec [of sample_buffer "''a''"]
  by (simp add: sample_buffer_def held_def get_run_def)

end
