(* ===== verification/Output_Chunker.thy ===== *)
theory Output_Chunker
  imports Prelude Interfaces Output_Buffer
begin

text \<open>
  \<open>internal/output/chunker.go\<close>: raw stdout and stderr become sized, numbered chunks. The callback
  \<open>receive\<close> (the buffer's \<open>Add\<close>) is called with one chunk at a time; the model keeps the calls, in
  order, in the field \<open>ck_sent\<close>. The clock \<open>now\<close> is read once per chunk; \<open>ck_now n\<close> is what the
  \<open>n\<close>-th reading answers. The flush timer and the mutex make every \<open>Write\<close>, every tick and \<open>Close\<close>
  one atomic step, so a schedule is a list of such steps.
\<close>

section \<open>Data\<close>

record pending =
  pd_stream :: string
  pd_at :: time
  pd_data :: string

definition no_pending :: pending where
  "no_pending = \<lparr>pd_stream = '''', pd_at = 0, pd_data = ''''\<rparr>"

record chunker =
  ck_run :: string
  ck_bytes :: int
  ck_max :: int
  ck_interval :: duration
  ck_now :: "nat \<Rightarrow> time"
  ck_reads :: nat
  ck_pending :: pending
  ck_seq :: "64 word"
  ck_written :: int
  ck_truncated :: bool
  ck_closed :: bool
  ck_sent :: "chunk list"

record chunker_options =
  co_chunk_bytes :: int
  co_flush_interval :: duration
  co_max_output :: int
  co_now :: "nat \<Rightarrow> time"

definition DefaultChunkBytes :: int where "DefaultChunkBytes = 64 * 2 ^ 10"
definition DefaultFlushInterval :: duration where "DefaultFlushInterval = 500 * millisecond"

definition NewChunker :: "string \<Rightarrow> chunker_options \<Rightarrow> chunker" where
  "NewChunker runID opts =
     \<lparr>ck_run = runID,
      ck_bytes = (if co_chunk_bytes opts \<le> 0 then DefaultChunkBytes else co_chunk_bytes opts),
      ck_max = co_max_output opts,
      ck_interval = (if co_flush_interval opts \<le> 0 then DefaultFlushInterval else co_flush_interval opts),
      ck_now = co_now opts, ck_reads = 0, ck_pending = no_pending, ck_seq = 0, ck_written = 0,
      ck_truncated = False, ck_closed = False, ck_sent = []\<rparr>"

section \<open>Operations\<close>

definition flushLocked :: "chunker \<Rightarrow> chunker" where
  "flushLocked c =
     (if pd_data (ck_pending c) = [] then c
      else c\<lparr>ck_seq := ck_seq c + 1,
             ck_sent := ck_sent c @ [\<lparr>ch_run = ck_run c, ch_seq = ck_seq c + 1,
               ch_stream = pd_stream (ck_pending c), ch_at = pd_at (ck_pending c),
               ch_data = pd_data (ck_pending c)\<rparr>],
             ck_pending := no_pending\<rparr>)"

text \<open>\<open>c.pending = pending{stream: stream, at: c.now(), data: ...}\<close>: one reading of the clock.\<close>

definition open_pending :: "string \<Rightarrow> chunker \<Rightarrow> chunker" where
  "open_pending stream c =
     c\<lparr>ck_pending := \<lparr>pd_stream = stream, pd_at = ck_now c (ck_reads c), pd_data = []\<rparr>,
       ck_reads := ck_reads c + 1\<rparr>"

definition put_bytes :: "string \<Rightarrow> chunker \<Rightarrow> chunker" where
  "put_bytes d c =
     c\<lparr>ck_pending := (ck_pending c)\<lparr>pd_data := pd_data (ck_pending c) @ d\<rparr>,
       ck_written := ck_written c + int (length d)\<rparr>"

text \<open>The limit check of one round of the loop: the data kept and whether some was cut.\<close>

definition clip :: "string \<Rightarrow> chunker \<Rightarrow> string \<times> chunker" where
  "clip data c =
     (if ck_max c > 0 \<and> int (length data) > ck_max c - ck_written c
      then (take (nat (ck_max c - ck_written c)) data, c\<lparr>ck_truncated := True\<rparr>)
      else (data, c))"

text \<open>Making the pending chunk one of this stream.\<close>

definition switch_stream :: "string \<Rightarrow> chunker \<Rightarrow> chunker" where
  "switch_stream stream c =
     (let c1 = (if pd_data (ck_pending c) \<noteq> [] \<and> pd_stream (ck_pending c) \<noteq> stream
                then flushLocked c else c)
      in if pd_data (ck_pending c1) = [] then open_pending stream c1 else c1)"

text \<open>
  The loop of \<open>Write\<close>. \<open>None\<close> is a negative slice bound, which would panic, or a loop that does not
  return.
\<close>

partial_function (option) write_loop :: "string \<Rightarrow> string \<Rightarrow> chunker \<Rightarrow> chunker option" where
  "write_loop stream data c =
     (if data = [] then Some c
      else if ck_max c > 0 \<and> ck_max c - ck_written c \<le> 0 then Some (c\<lparr>ck_truncated := True\<rparr>)
      else
        (let kept = fst (clip data c);
             c1 = switch_stream stream (snd (clip data c));
             n = min (ck_bytes c1 - int (length (pd_data (ck_pending c1)))) (int (length kept))
         in if n < 0 then None
            else
              (let c2 = put_bytes (take (nat n) kept) c1;
                   c3 = (if int (length (pd_data (ck_pending c2))) = ck_bytes c2
                         then flushLocked c2 else c2)
               in write_loop stream (drop (nat n) kept) c3)))"

definition Write :: "string \<Rightarrow> string \<Rightarrow> chunker \<Rightarrow> chunker option" where
  "Write stream data c = (if ck_closed c then Some c else write_loop stream data c)"

text \<open>\<open>flushOnTicks\<close>: what one tick does.\<close>

definition tick :: "chunker \<Rightarrow> chunker" where
  "tick c = flushLocked c"

definition Close :: "chunker \<Rightarrow> chunker \<times> (64 word \<times> bool)" where
  "Close c =
     (let c' = (if ck_closed c then c else (flushLocked c)\<lparr>ck_closed := True\<rparr>)
      in (c', (ck_seq c', ck_truncated c')))"

section \<open>The invariant\<close>

definition marked :: "chunk \<Rightarrow> (string \<times> char) list" where
  "marked k = map (Pair (ch_stream k)) (ch_data k)"

definition content :: "chunker \<Rightarrow> (string \<times> char) list" where
  "content c = concat (map marked (ck_sent c)) @
     map (Pair (pd_stream (ck_pending c))) (pd_data (ck_pending c))"

definition ck_limit :: "chunker \<Rightarrow> nat option" where
  "ck_limit c = (if ck_max c > 0 then Some (nat (ck_max c)) else None)"

definition sent_ok :: "chunker \<Rightarrow> bool" where
  "sent_ok c \<longleftrightarrow>
     (\<forall>k\<in>set (ck_sent c). ch_run k = ck_run c \<and> ch_data k \<noteq> [] \<and>
        int (length (ch_data k)) \<le> ck_bytes c) \<and>
     map ch_seq (ck_sent c) = map of_nat [1..<Suc (length (ck_sent c))] \<and>
     ck_seq c = of_nat (length (ck_sent c))"

definition chunker_inv :: "chunker \<Rightarrow> bool" where
  "chunker_inv c \<longleftrightarrow> 0 < ck_bytes c \<and> int (length (pd_data (ck_pending c))) < ck_bytes c \<and>
     ck_written c = int (length (content c)) \<and>
     (0 < ck_max c \<longrightarrow> ck_written c \<le> ck_max c) \<and> sent_ok c"

text \<open>The configuration, which no operation changes.\<close>

definition same_setup :: "chunker \<Rightarrow> chunker \<Rightarrow> bool" where
  "same_setup c c' \<longleftrightarrow> ck_run c' = ck_run c \<and> ck_bytes c' = ck_bytes c \<and> ck_max c' = ck_max c \<and>
     ck_closed c' = ck_closed c"

lemma same_setup_refl [simp]: "same_setup c c"
  by (simp add: same_setup_def)

lemma same_setup_trans: "same_setup a b \<Longrightarrow> same_setup b c \<Longrightarrow> same_setup a c"
  by (simp add: same_setup_def)

lemma same_setup_limit: "same_setup c c' \<Longrightarrow> ck_limit c' = ck_limit c"
  by (simp add: same_setup_def ck_limit_def)

lemma chunker_inv_new: "chunker_inv (NewChunker runID opts)"
  by (simp add: chunker_inv_def NewChunker_def content_def no_pending_def sent_ok_def
      DefaultChunkBytes_def)

text \<open>A flush, with a pending chunk that may also be full: the content stays, numbers go on.\<close>

lemma flushLocked_content [simp]: "content (flushLocked c) = content c"
  by (simp add: flushLocked_def content_def marked_def no_pending_def)

lemma flushLocked_same [simp]:
  "ck_run (flushLocked c) = ck_run c" "ck_bytes (flushLocked c) = ck_bytes c"
  "ck_max (flushLocked c) = ck_max c" "ck_closed (flushLocked c) = ck_closed c"
  "ck_written (flushLocked c) = ck_written c" "ck_truncated (flushLocked c) = ck_truncated c"
  "pd_data (ck_pending (flushLocked c)) = []"
  by (simp_all add: flushLocked_def no_pending_def)

lemma flushLocked_sent_ok:
  assumes "sent_ok c" and "int (length (pd_data (ck_pending c))) \<le> ck_bytes c"
  shows "sent_ok (flushLocked c)"
  using assms by (auto simp: sent_ok_def flushLocked_def)

lemma flushLocked_inv [keeps]: "chunker_inv c \<Longrightarrow> chunker_inv (flushLocked c)"
  by (auto simp: chunker_inv_def flushLocked_sent_ok)

section \<open>One round of the loop\<close>

text \<open>
  What a round relies on and leaves: the pending chunk may be full in between, so the bound on it is
  not strict here.
\<close>

definition mid_inv :: "chunker \<Rightarrow> bool" where
  "mid_inv c \<longleftrightarrow> 0 < ck_bytes c \<and> int (length (pd_data (ck_pending c))) \<le> ck_bytes c \<and>
     ck_written c = int (length (content c)) \<and>
     (0 < ck_max c \<longrightarrow> ck_written c \<le> ck_max c) \<and> sent_ok c"

lemma chunker_inv_mid: "chunker_inv c \<Longrightarrow> mid_inv c"
  by (auto simp: chunker_inv_def mid_inv_def)

lemma mid_flush: "mid_inv c \<Longrightarrow> chunker_inv (flushLocked c)"
  by (auto simp: chunker_inv_def mid_inv_def flushLocked_sent_ok)

lemma open_pending_facts [simp]:
  "pd_data (ck_pending (open_pending st c)) = []" "pd_stream (ck_pending (open_pending st c)) = st"
  "ck_bytes (open_pending st c) = ck_bytes c" "ck_max (open_pending st c) = ck_max c"
  "ck_run (open_pending st c) = ck_run c" "ck_closed (open_pending st c) = ck_closed c"
  "ck_written (open_pending st c) = ck_written c" "ck_truncated (open_pending st c) = ck_truncated c"
  "ck_sent (open_pending st c) = ck_sent c" "sent_ok (open_pending st c) = sent_ok c"
  by (simp_all add: open_pending_def sent_ok_def)

lemma open_pending_content:
  "pd_data (ck_pending c) = [] \<Longrightarrow> content (open_pending st c) = content c"
  by (simp add: content_def)

lemma open_pending_inv:
  "chunker_inv c \<Longrightarrow> pd_data (ck_pending c) = [] \<Longrightarrow> chunker_inv (open_pending st c)"
  by (auto simp: chunker_inv_def open_pending_content)

lemma switch_stream_facts:
  assumes "chunker_inv c"
  shows "chunker_inv (switch_stream st c) \<and> content (switch_stream st c) = content c \<and>
    pd_stream (ck_pending (switch_stream st c)) = st \<and> same_setup c (switch_stream st c) \<and>
    ck_written (switch_stream st c) = ck_written c \<and>
    ck_truncated (switch_stream st c) = ck_truncated c"
  using assms
  by (auto simp: switch_stream_def Let_def open_pending_content same_setup_def
      intro!: open_pending_inv flushLocked_inv)

lemma put_bytes_facts [simp]:
  "pd_data (ck_pending (put_bytes d c)) = pd_data (ck_pending c) @ d"
  "ck_bytes (put_bytes d c) = ck_bytes c" "ck_max (put_bytes d c) = ck_max c"
  "ck_run (put_bytes d c) = ck_run c" "ck_closed (put_bytes d c) = ck_closed c"
  "ck_written (put_bytes d c) = ck_written c + int (length d)"
  "ck_truncated (put_bytes d c) = ck_truncated c" "sent_ok (put_bytes d c) = sent_ok c"
  "content (put_bytes d c) = content c @ map (Pair (pd_stream (ck_pending c))) d"
  by (simp_all add: put_bytes_def sent_ok_def content_def)

text \<open>\<open>fill\<close> is the end of a round: the bytes go in, and a full chunk is flushed.\<close>

definition fill :: "string \<Rightarrow> chunker \<Rightarrow> chunker" where
  "fill d c =
     (let c2 = put_bytes d c
      in if int (length (pd_data (ck_pending c2))) = ck_bytes c2 then flushLocked c2 else c2)"

lemma fill_facts:
  assumes inv: "chunker_inv c"
    and fits: "int (length (pd_data (ck_pending c))) + int (length d) \<le> ck_bytes c"
    and cap: "0 < ck_max c \<Longrightarrow> ck_written c + int (length d) \<le> ck_max c"
  shows "chunker_inv (fill d c) \<and> same_setup c (fill d c) \<and>
    content (fill d c) = content c @ map (Pair (pd_stream (ck_pending c))) d \<and>
    ck_written (fill d c) = ck_written c + int (length d) \<and>
    ck_truncated (fill d c) = ck_truncated c"
proof -
  have m: "mid_inv (put_bytes d c)"
    using inv fits cap by (auto simp: mid_inv_def chunker_inv_def)
  show ?thesis
  proof (cases "int (length (pd_data (ck_pending (put_bytes d c)))) = ck_bytes c")
    case True
    then show ?thesis
      using mid_flush [OF m] by (simp add: fill_def Let_def same_setup_def)
  next
    case False
    then show ?thesis
      using m fits by (auto simp: fill_def Let_def same_setup_def mid_inv_def chunker_inv_def)
  qed
qed

lemma write_loop_Nil: "write_loop st [] c = Some c"
  by (simp add: write_loop.simps)

lemma write_loop_full:
  "data \<noteq> [] \<Longrightarrow> ck_max c > 0 \<Longrightarrow> ck_max c - ck_written c \<le> 0 \<Longrightarrow>
   write_loop st data c = Some (c\<lparr>ck_truncated := True\<rparr>)"
  by (simp add: write_loop.simps)

lemma write_loop_round:
  assumes "data \<noteq> []" and "\<not> (ck_max c > 0 \<and> ck_max c - ck_written c \<le> 0)"
    and "clip data c = (kept, c0)" and "c1 = switch_stream st c0"
    and "n = min (ck_bytes c1 - int (length (pd_data (ck_pending c1)))) (int (length kept))"
    and "0 \<le> n"
  shows "write_loop st data c = write_loop st (drop (nat n) kept) (fill (take (nat n) kept) c1)"
proof -
  have "\<not> n < 0" using assms(6) by simp
  then show ?thesis
    by (subst write_loop.simps)
      (simp only: assms(1,2,3) Let_def fill_def fst_conv snd_conv if_False simp_thms
        assms(4) [symmetric] assms(5) [symmetric])
qed

lemma truncated_facts [simp]:
  "content (c\<lparr>ck_truncated := True\<rparr>) = content c"
  "sent_ok (c\<lparr>ck_truncated := True\<rparr>) = sent_ok c"
  "same_setup c (c\<lparr>ck_truncated := True\<rparr>)"
  by (simp_all add: content_def sent_ok_def same_setup_def)

lemma truncated_inv [simp]: "chunker_inv (c\<lparr>ck_truncated := True\<rparr>) = chunker_inv c"
  by (simp add: chunker_inv_def)

section \<open>The whole loop\<close>

text \<open>Room left for bytes, when there is a limit.\<close>

definition room :: "chunker \<Rightarrow> nat option" where
  "room c = (if ck_max c > 0 then Some (nat (ck_max c - ck_written c)) else None)"

definition too_long :: "nat option \<Rightarrow> 'a list \<Rightarrow> bool" where
  "too_long l xs \<longleftrightarrow> take_limit l xs \<noteq> xs"

lemma write_loop_spec:
  assumes "chunker_inv c"
  shows "\<exists>c'. write_loop st data c = Some c' \<and> chunker_inv c' \<and> same_setup c c' \<and>
    content c' = content c @ map (Pair st) (take_limit (room c) data) \<and>
    (ck_truncated c' \<longleftrightarrow> ck_truncated c \<or> too_long (room c) data)"
  using assms
proof (induction "length data" arbitrary: data c rule: less_induct)
  case less
  show ?case
  proof (cases "data = []")
    case True
    with less.prems show ?thesis by (simp add: write_loop_Nil too_long_def)
  next
    case ne: False
    show ?thesis
    proof (cases "ck_max c > 0 \<and> ck_max c - ck_written c \<le> 0")
      case True
      then have "room c = Some 0" by (simp add: room_def)
      with True ne less.prems show ?thesis
        by (auto simp: write_loop_full take_limit_def too_long_def)
    next
      case notfull: False
      obtain kept c0 where clip: "clip data c = (kept, c0)" by (cases "clip data c")
      define c1 where "c1 = switch_stream st c0"
      define n where "n = min (ck_bytes c1 - int (length (pd_data (ck_pending c1)))) (int (length kept))"
      define c2 where "c2 = fill (take (nat n) kept) c1"
      have kept: "kept = take_limit (room c) data"
        and c0: "chunker_inv c0" "content c0 = content c" "same_setup c c0" "ck_written c0 = ck_written c"
        and t0: "ck_truncated c0 \<longleftrightarrow> ck_truncated c \<or> too_long (room c) data"
        using clip less.prems notfull
        by (auto simp: clip_def room_def take_limit_def too_long_def split: if_splits)
      have kne: "kept \<noteq> []"
        using kept ne notfull by (auto simp: room_def take_limit_def)
      have klen: "0 < ck_max c \<Longrightarrow> int (length kept) \<le> ck_max c - ck_written c"
        using kept notfull by (auto simp: room_def take_limit_def)
      note c1 = switch_stream_facts [OF c0(1), of st, folded c1_def]
      have n: "0 < n" "n \<le> int (length kept)"
        "int (length (pd_data (ck_pending c1))) + n \<le> ck_bytes c1"
        using c1 kne by (auto simp: n_def chunker_inv_def)
      have max: "ck_max c1 = ck_max c" "ck_written c1 = ck_written c"
        using c1 c0 by (simp_all add: same_setup_def)
      have len: "int (length (take (nat n) kept)) = n" using n by simp
      have fitmax: "0 < ck_max c1 \<Longrightarrow> ck_written c1 + n \<le> ck_max c1"
        using klen max n by linarith
      have c2: "chunker_inv c2" "same_setup c1 c2" "ck_written c2 = ck_written c1 + n"
        "content c2 = content c1 @ map (Pair (pd_stream (ck_pending c1))) (take (nat n) kept)"
        "ck_truncated c2 = ck_truncated c1"
        using fill_facts [of c1 "take (nat n) kept", folded c2_def] c1 n(3) fitmax
        unfolding len by blast+
      have step: "write_loop st data c = write_loop st (drop (nat n) kept) c2"
        using write_loop_round [OF ne notfull clip c1_def n_def] n by (simp add: c2_def)
      have "length kept \<le> length data"
        using kept by (simp add: take_limit_def split: option.split)
      then have "length (drop (nat n) kept) < length data"
        using n ne kne by auto
      from less.hyps [OF this c2(1)] obtain c' where
        c': "write_loop st (drop (nat n) kept) c2 = Some c'" "chunker_inv c'" "same_setup c2 c'"
        "content c' = content c2 @ map (Pair st) (take_limit (room c2) (drop (nat n) kept))"
        "ck_truncated c' \<longleftrightarrow> ck_truncated c2 \<or> too_long (room c2) (drop (nat n) kept)"
        by blast
      have fits: "take_limit (room c2) (drop (nat n) kept) = drop (nat n) kept"
      proof (rule take_limit_fits)
        fix m
        assume "room c2 = Some m"
        moreover have "ck_max c2 = ck_max c" using c2(2) max by (simp add: same_setup_def)
        ultimately show "length (drop (nat n) kept) \<le> m"
          using klen c2(3) max n(1) by (auto simp: room_def split: if_splits)
      qed
      have "map (Pair st) (take (nat n) kept) @ map (Pair st) (drop (nat n) kept) = map (Pair st) kept"
        by (metis append_take_drop_id map_append)
      then have "content c' = content c @ map (Pair st) kept"
        using c'(4) c2(4) c1 c0 fits by simp
      moreover have "ck_truncated c' \<longleftrightarrow> ck_truncated c \<or> too_long (room c) data"
        using c'(5) c2(5) c1 t0 fits by (simp add: too_long_def)
      moreover have "same_setup c c'"
        using c0(3) c1 c2(2) c'(3) same_setup_trans by metis
      ultimately show ?thesis
        using step c'(1,2) kept by auto
    qed
  qed
qed

section \<open>The chunker as the process's sink\<close>

lemma room_content:
  assumes "chunker_inv c"
  shows "content c @ map (Pair st) (take_limit (room c) d) =
    take_limit (ck_limit c) (content c @ map (Pair st) d)"
proof (cases "ck_max c > 0")
  case False
  then show ?thesis by (simp add: room_def ck_limit_def take_limit_def)
next
  case True
  then have "length (content c) \<le> nat (ck_max c)"
    and "nat (ck_max c - ck_written c) = nat (ck_max c) - length (content c)"
    using assms by (auto simp: chunker_inv_def)
  with True show ?thesis by (simp add: room_def ck_limit_def take_limit_def take_map)
qed

lemma too_long_content:
  assumes "chunker_inv c"
  shows "too_long (room c) d \<longleftrightarrow>
    take_limit (ck_limit c) (content c @ map (Pair st) d) \<noteq> content c @ map (Pair st) d"
  unfolding room_content [OF assms, symmetric] too_long_def
  by (auto dest: map_injective simp: inj_on_def)

definition sink_valid :: "string \<Rightarrow> int \<Rightarrow> chunker \<Rightarrow> bool" where
  "sink_valid k n c \<longleftrightarrow> chunker_inv c \<and> \<not> ck_closed c \<and> ck_run c = k \<and> ck_bytes c = n"

interpretation chunk_sink: output_sink Write tick content ck_limit ck_truncated "sink_valid k n" for k n
proof unfold_locales
  fix c
  assume v: "sink_valid k n c"
  then have "0 < ck_max c \<Longrightarrow> length (content c) \<le> nat (ck_max c)"
    by (auto simp: sink_valid_def chunker_inv_def)
  then show "take_limit (ck_limit c) (content c) = content c"
    by (intro take_limit_fits) (auto simp: ck_limit_def split: if_splits)
  show "sink_valid k n (tick c) \<and> ck_limit (tick c) = ck_limit c \<and> content (tick c) = content c \<and>
      ck_truncated (tick c) = ck_truncated c"
    using v by (simp add: sink_valid_def tick_def ck_limit_def flushLocked_inv)
  fix st d
  have inv: "chunker_inv c" using v by (simp add: sink_valid_def)
  show "\<exists>c'. Write st d c = Some c' \<and> sink_valid k n c' \<and> ck_limit c' = ck_limit c \<and>
      content c' = take_limit (ck_limit c) (content c @ map (Pair st) d) \<and>
      (ck_truncated c' \<longleftrightarrow> ck_truncated c \<or> content c' \<noteq> content c @ map (Pair st) d)"
  proof -
    obtain c' where c': "write_loop st d c = Some c'" "chunker_inv c'" "same_setup c c'"
      "content c' = content c @ map (Pair st) (take_limit (room c) d)"
      "ck_truncated c' \<longleftrightarrow> ck_truncated c \<or> too_long (room c) d"
      using write_loop_spec [OF inv, of st d] by blast
    have "Write st d c = Some c'" and "sink_valid k n c'"
      using c'(1-3) v by (simp_all add: Write_def sink_valid_def same_setup_def)
    moreover have "content c' = take_limit (ck_limit c) (content c @ map (Pair st) d)"
      by (simp only: c'(4) room_content [OF inv])
    moreover from this have "ck_truncated c' \<longleftrightarrow> ck_truncated c \<or> content c' \<noteq> content c @ map (Pair st) d"
      by (simp only: c'(5) too_long_content [OF inv, of d st])
    ultimately show ?thesis using same_setup_limit [OF c'(3)] by blast
  qed
qed

section \<open>Schedules\<close>

datatype chunker_step = WriteStep string string | TickStep

fun chunker_run :: "chunker_step list \<Rightarrow> chunker \<Rightarrow> chunker option" where
  "chunker_run [] c = Some c"
| "chunker_run (WriteStep st d # es) c =
     (case Write st d c of None \<Rightarrow> None | Some c' \<Rightarrow> chunker_run es c')"
| "chunker_run (TickStep # es) c = chunker_run es (tick c)"

text \<open>The bytes the process wrote, each with its stream, in the order they arrived.\<close>

fun written :: "chunker_step list \<Rightarrow> (string \<times> char) list" where
  "written [] = []"
| "written (WriteStep st d # es) = map (Pair st) d @ written es"
| "written (TickStep # es) = written es"

fun as_block :: "chunker_step \<Rightarrow> (string \<times> string) option" where
  "as_block (WriteStep st d) = Some (st, d)"
| "as_block TickStep = None"

lemma chunker_run_copying: "chunker_run es c = chunk_sink.copying (map as_block es) c"
  by (induction es c rule: chunker_run.induct) (auto split: option.split)

lemma written_blocks: "written es = chunk_sink.blocks (map as_block es)"
  by (induction es rule: written.induct) auto

lemma chunker_run_spec:
  assumes "sink_valid k n c"
  obtains c' where "chunker_run es c = Some c'" and "sink_valid k n c'" and "ck_limit c' = ck_limit c"
    and "content c' = take_limit (ck_limit c) (content c @ written es)"
    and "ck_truncated c' \<longleftrightarrow> ck_truncated c \<or> content c' \<noteq> content c @ written es"
  unfolding chunker_run_copying written_blocks
  using chunk_sink.copying_content [OF assms, of "map as_block es"] by blast

lemma closed_facts [simp]:
  "content (c\<lparr>ck_closed := b\<rparr>) = content c" "sent_ok (c\<lparr>ck_closed := b\<rparr>) = sent_ok c"
  by (simp_all add: content_def sent_ok_def)

lemma Close_facts:
  assumes "sink_valid k sz c" and "Close c = (c', n, tr)"
  shows "concat (map marked (ck_sent c')) = content c \<and> sent_ok c' \<and>
    ck_run c' = k \<and> ck_bytes c' = sz \<and> n = of_nat (length (ck_sent c')) \<and> tr = ck_truncated c"
proof -
  have inv: "sent_ok (flushLocked c)" and o: "\<not> ck_closed c" "ck_run c = k" "ck_bytes c = sz"
    using assms(1) flushLocked_inv [of c] by (auto simp: sink_valid_def chunker_inv_def)
  have "content (flushLocked c) = concat (map marked (ck_sent (flushLocked c)))"
    by (simp only: content_def flushLocked_same list.map append_Nil2)
  then have "concat (map marked (ck_sent (flushLocked c))) = content c" by simp
  with inv o assms(2) show ?thesis
    by (auto simp: Close_def Let_def) (simp_all add: sent_ok_def)
qed

lemma NewChunker_valid:
  "sink_valid runID (ck_bytes (NewChunker runID opts)) (NewChunker runID opts)"
  using chunker_inv_new by (simp add: sink_valid_def NewChunker_def)

lemma NewChunker_facts:
  "content (NewChunker runID opts) = []" "\<not> ck_truncated (NewChunker runID opts)"
  "ck_limit (NewChunker runID opts) =
     (if co_max_output opts > 0 then Some (nat (co_max_output opts)) else None)"
  "ck_bytes (NewChunker runID opts) =
     (if co_chunk_bytes opts \<le> 0 then DefaultChunkBytes else co_chunk_bytes opts)"
  by (simp_all add: NewChunker_def content_def no_pending_def ck_limit_def)

section \<open>Properties\<close>

text \<open>C7: Whatever the process writes to its two streams, in whatever blocks and however the flush
  timer interleaves, \<open>Write\<close> returns every time, and after \<open>Close\<close> the chunks handed to the buffer
  hold exactly the bytes written, each under its stream and in order, up to the Run's output limit
  when there is one; the Run is reported truncated exactly when something was cut.\<close>

theorem chunker_delivers:
  "\<exists>c c' n tr. chunker_run es (NewChunker runID opts) = Some c \<and> Close c = (c', n, tr) \<and>
     concat (map marked (ck_sent c')) =
       take_limit (if co_max_output opts > 0 then Some (nat (co_max_output opts)) else None) (written es) \<and>
     tr = (0 < co_max_output opts \<and> co_max_output opts < int (length (written es)))"
proof -
  let ?c0 = "NewChunker runID opts"
  obtain c where c: "chunker_run es ?c0 = Some c"
    "sink_valid runID (ck_bytes ?c0) c" "content c = take_limit (ck_limit ?c0) (written es)"
    "ck_truncated c \<longleftrightarrow> content c \<noteq> written es"
    using chunker_run_spec [OF NewChunker_valid [of runID opts], where es = es] NewChunker_facts [of runID opts]
    by (metis append_Nil)
  obtain c' n tr where cl: "Close c = (c', n, tr)" by (cases "Close c") auto
  have "content c \<noteq> written es \<longleftrightarrow>
      0 < co_max_output opts \<and> co_max_output opts < int (length (written es))"
    using c(3) by (auto simp: NewChunker_facts take_limit_def nat_less_iff)
  with c cl Close_facts [OF c(2) cl] show ?thesis by (auto simp: NewChunker_facts)
qed

text \<open>C28: The chunks of a Run carry the numbers 1, 2, 3, ... without a gap, across both streams, and
  the last of them is the one \<open>Close\<close> reports; every chunk is the Run's, none is empty and none
  exceeds the chunk size.\<close>

theorem chunker_numbers:
  "\<exists>c c' n tr. chunker_run es (NewChunker runID opts) = Some c \<and> Close c = (c', n, tr) \<and>
     map ch_seq (ck_sent c') = map of_nat [1..<Suc (length (ck_sent c'))] \<and>
     n = of_nat (length (ck_sent c')) \<and>
     (\<forall>k\<in>set (ck_sent c'). ch_run k = runID \<and> ch_data k \<noteq> [] \<and>
        int (length (ch_data k)) \<le>
          (if co_chunk_bytes opts \<le> 0 then DefaultChunkBytes else co_chunk_bytes opts))"
proof -
  obtain c where c: "chunker_run es (NewChunker runID opts) = Some c"
    "sink_valid runID (ck_bytes (NewChunker runID opts)) c"
    using chunker_run_spec [OF NewChunker_valid [of runID opts], where es = es] by metis
  obtain c' n tr where cl: "Close c = (c', n, tr)" by (cases "Close c") auto
  show ?thesis
    using c cl Close_facts [OF c(2) cl] by (auto simp: sent_ok_def NewChunker_facts)
qed

section \<open>Witnesses\<close>

definition sample_options :: chunker_options where
  "sample_options = \<lparr>co_chunk_bytes = 3, co_flush_interval = 0, co_max_output = 7, co_now = (\<lambda>n. int n)\<rparr>"

theorem chunker_numbers_witness:
  "\<exists>c c' n tr.
     chunker_run [WriteStep ''stdout'' ''abcd'', TickStep, WriteStep ''stderr'' ''efgh'']
       (NewChunker ''r'' sample_options) = Some c \<and> Close c = (c', n, tr) \<and>
     n = of_nat (length (ck_sent c')) \<and> (\<forall>k\<in>set (ck_sent c'). ch_run k = ''r'')"
  using chunker_numbers [of "[WriteStep ''stdout'' ''abcd'', TickStep, WriteStep ''stderr'' ''efgh'']"
      "''r''" sample_options] by blast

end
