(* ===== verification/Protocol.thy ===== *)
theory Protocol
  imports Prelude
begin

text \<open>
  \<open>internal/protocol/enums.go\<close> and \<open>types.go\<close>: the wire types of protocol 1. The Go enums are named
  string types whose values may be anything a peer sends, so they are strings here, with the
  source's constants and its \<open>Valid\<close>, \<open>Terminal\<close> and \<open>Reportable\<close> tests. A Go pointer is an option, a
  Go map an association list, a \<open>time.Time\<close> a number of nanoseconds.
\<close>

section \<open>Enums\<close>

type_synonym run_status = string
type_synonym finish_reason = string
type_synonym error_code = string

definition RunStatusQueued :: run_status where "RunStatusQueued = ''queued''"
definition RunStatusDispatched :: run_status where "RunStatusDispatched = ''dispatched''"
definition RunStatusRunning :: run_status where "RunStatusRunning = ''running''"
definition RunStatusSuccess :: run_status where "RunStatusSuccess = ''success''"
definition RunStatusFailed :: run_status where "RunStatusFailed = ''failed''"
definition RunStatusTimedOut :: run_status where "RunStatusTimedOut = ''timed_out''"
definition RunStatusCancelled :: run_status where "RunStatusCancelled = ''cancelled''"
definition RunStatusLost :: run_status where "RunStatusLost = ''lost''"
definition RunStatusMissed :: run_status where "RunStatusMissed = ''missed''"

lemmas run_status_defs = RunStatusQueued_def RunStatusDispatched_def RunStatusRunning_def
  RunStatusSuccess_def RunStatusFailed_def RunStatusTimedOut_def RunStatusCancelled_def
  RunStatusLost_def RunStatusMissed_def

definition status_valid :: "run_status \<Rightarrow> bool" where
  "status_valid s \<longleftrightarrow> s \<in> {RunStatusQueued, RunStatusDispatched, RunStatusRunning, RunStatusSuccess,
     RunStatusFailed, RunStatusTimedOut, RunStatusCancelled, RunStatusLost, RunStatusMissed}"

definition status_terminal :: "run_status \<Rightarrow> bool" where
  "status_terminal s \<longleftrightarrow> s \<in> {RunStatusSuccess, RunStatusFailed, RunStatusTimedOut,
     RunStatusCancelled, RunStatusLost, RunStatusMissed}"

definition status_reportable :: "run_status \<Rightarrow> bool" where
  "status_reportable s \<longleftrightarrow> s \<in> {RunStatusSuccess, RunStatusFailed, RunStatusTimedOut,
     RunStatusCancelled, RunStatusLost}"

definition StreamStdout :: string where "StreamStdout = ''stdout''"
definition StreamStderr :: string where "StreamStderr = ''stderr''"

definition stream_valid :: "string \<Rightarrow> bool" where
  "stream_valid s \<longleftrightarrow> s = StreamStdout \<or> s = StreamStderr"

definition ReasonSpawnFailed :: finish_reason where "ReasonSpawnFailed = ''spawn_failed''"
definition ReasonAgentStopped :: finish_reason where "ReasonAgentStopped = ''agent_stopped''"
definition ReasonAgentRestarted :: finish_reason where "ReasonAgentRestarted = ''agent_restarted''"
definition ReasonRunAsNotPermitted :: finish_reason where
  "ReasonRunAsNotPermitted = ''run_as_not_permitted''"

definition reason_valid :: "finish_reason \<Rightarrow> bool" where
  "reason_valid r \<longleftrightarrow>
     r \<in> {ReasonSpawnFailed, ReasonAgentStopped, ReasonAgentRestarted, ReasonRunAsNotPermitted}"

definition ActiveRunRunning :: string where "ActiveRunRunning = ''running''"

definition active_status_valid :: "string \<Rightarrow> bool" where
  "active_status_valid s \<longleftrightarrow> s = ActiveRunRunning"

definition TriggerScheduled :: string where "TriggerScheduled = ''scheduled''"
definition TriggerManual :: string where "TriggerManual = ''manual''"

definition trigger_valid :: "string \<Rightarrow> bool" where
  "trigger_valid t \<longleftrightarrow> t = TriggerScheduled \<or> t = TriggerManual"

definition ErrInvalidCredential :: error_code where "ErrInvalidCredential = ''invalid_credential''"
definition ErrTokenInvalid :: error_code where "ErrTokenInvalid = ''token_invalid''"
definition ErrRunNotFound :: error_code where "ErrRunNotFound = ''run_not_found''"
definition ErrLeaseExpired :: error_code where "ErrLeaseExpired = ''lease_expired''"
definition ErrNotLeased :: error_code where "ErrNotLeased = ''not_leased''"
definition ErrRunCancelled :: error_code where "ErrRunCancelled = ''run_cancelled''"
definition ErrRunFinished :: error_code where "ErrRunFinished = ''run_finished''"
definition ErrRunNotRunning :: error_code where "ErrRunNotRunning = ''run_not_running''"
definition ErrTokenExpired :: error_code where "ErrTokenExpired = ''token_expired''"
definition ErrPayloadTooLarge :: error_code where "ErrPayloadTooLarge = ''payload_too_large''"
definition ErrValidationFailed :: error_code where "ErrValidationFailed = ''validation_failed''"
definition ErrUnsupportedOS :: error_code where "ErrUnsupportedOS = ''unsupported_os''"
definition ErrUnsupportedProtocol :: error_code where "ErrUnsupportedProtocol = ''unsupported_protocol''"
definition ErrAgentTooOld :: error_code where "ErrAgentTooOld = ''agent_too_old''"
definition ErrThrottled :: error_code where "ErrThrottled = ''throttled''"

lemmas error_code_defs =
  ErrInvalidCredential_def ErrTokenInvalid_def ErrRunNotFound_def ErrLeaseExpired_def
  ErrNotLeased_def ErrRunCancelled_def ErrRunFinished_def ErrRunNotRunning_def
  ErrTokenExpired_def ErrPayloadTooLarge_def ErrValidationFailed_def ErrUnsupportedOS_def
  ErrUnsupportedProtocol_def ErrAgentTooOld_def ErrThrottled_def

lemma reportable_terminal: "status_reportable s \<Longrightarrow> status_terminal s"
  by (auto simp: status_reportable_def status_terminal_def)

lemma terminal_valid: "status_terminal s \<Longrightarrow> status_valid s"
  by (auto simp: status_terminal_def status_valid_def)

section \<open>Messages\<close>

record run_lease =
  rl_run_id :: string
  rl_machine_id :: string
  rl_job_id :: string
  rl_job_name :: string
  rl_trigger :: string
  rl_scheduled_for :: "time option"
  rl_command :: string
  rl_run_as :: "string option"
  rl_shell :: "string option"
  rl_working_directory :: "string option"
  rl_environment :: "(string \<times> string) list"
  rl_timeout_seconds :: int
  rl_max_output_bytes :: int
  rl_lease_expires_at :: time

record agent_config =
  ac_heartbeat_interval_seconds :: int
  ac_output_flush_interval_ms :: int
  ac_output_chunk_bytes :: int
  ac_poll_wait_seconds :: int

record machine_metadata =
  mm_hostname :: string
  mm_os :: string
  mm_os_version :: string
  mm_arch :: string
  mm_kernel_version :: string
  mm_agent_user :: string
  mm_agent_uid :: int
  mm_insecure_http :: bool
  mm_reported_ips :: "string list"
  mm_run_as_allowed :: "string list"

record enroll_request =
  eq_token :: string
  eq_metadata :: machine_metadata
  eq_agent_version :: string
  eq_name :: "string option"

record enroll_response =
  es_machine_id :: string
  es_credential :: string
  es_server_time :: time

record ping_response =
  pg_machine_id :: string
  pg_server_version :: string
  pg_server_time :: time
  pg_recorded_run_as_allowed :: "string list"

record active_run_entry =
  ae_run_id :: string
  ae_status :: string

record work_request =
  wq_wait_seconds :: int
  wq_slots :: int
  wq_active_runs :: "active_run_entry list"
  wq_metadata :: machine_metadata

record work_response =
  wr_runs :: "run_lease list"
  wr_cancel_run_ids :: "string list"
  wr_config :: agent_config
  wr_discovery_requested :: bool

record start_request =
  sr_timeout_seconds :: int
  sr_max_output_bytes :: int

record output_chunk =
  oc_seq :: "64 word"
  oc_stream :: string
  oc_at :: time
  oc_data :: string

record output_response =
  or_last_output_seq :: "64 word"
  or_truncated :: bool
  or_cancel_requested :: bool

record heartbeat_response =
  hr_cancel_requested :: bool
  hr_server_time :: time

record finish_request =
  fq_status :: run_status
  fq_exit_code :: "int option"
  fq_started_at :: "time option"
  fq_finished_at :: time
  fq_last_output_seq :: "64 word"
  fq_output_truncated :: bool
  fq_reason :: "finish_reason option"

record error_response =
  er_error :: error_code
  er_message :: string
  er_errors :: "(string \<times> string list) list"
  er_supported :: "int list"
  er_min_agent_version :: string

record unreadable_source =
  us_source :: string
  us_reason :: string

record discovered_entry =
  de_source :: string
  de_raw :: string
  de_schedule :: "string option"
  de_schedule_kind :: "string option"
  de_timezone :: "string option"
  de_command :: "string option"
  de_run_as :: "string option"
  de_unit :: "string option"
  de_is_agent :: bool
  de_unparseable :: bool
  de_note :: "string option"

record discovery_request =
  dr_truncated :: bool
  dr_omitted_entries :: int
  dr_unreadable_sources :: "unreadable_source list"
  dr_entries :: "discovered_entry list"

record discovery_response =
  ds_entries :: int
  ds_reported_at :: time

text \<open>A lease for the examples of other theories.\<close>

definition sample_lease :: run_lease where
  "sample_lease = \<lparr>rl_run_id = ''r'', rl_machine_id = ''m'', rl_job_id = ''j'', rl_job_name = ''job'',
     rl_trigger = ''manual'', rl_scheduled_for = None, rl_command = ''true'', rl_run_as = Some ''deploy'',
     rl_shell = None, rl_working_directory = None, rl_environment = [], rl_timeout_seconds = 60,
     rl_max_output_bytes = 1000, rl_lease_expires_at = 100\<rparr>"

end
