(* ===== verification/Atomic_File.thy ===== *)
theory Atomic_File
  imports Prelude
begin

text \<open>
  \<open>internal/atomicfile/atomicfile.go\<close>: a file is replaced through a temporary sibling and a rename.
  The file system is a map from paths to content and mode. Which system calls fail is an argument
  (\<open>faults\<close>), and so is the fresh name \<open>os.CreateTemp\<close> picks. The result is every state the disk
  passes through, in order, so that a crash may be placed between any two calls, and the errors
  joined into the one returned (none means success).
\<close>

type_synonym file_entry = "string \<times> int"
type_synonym file_system = "string \<rightharpoonup> file_entry"

record faults =
  ft_create :: bool
  ft_chmod :: bool
  ft_write :: "nat option"
  ft_sync :: bool
  ft_close :: bool
  ft_rename :: bool
  ft_remove :: bool

definition no_faults :: faults where
  "no_faults = \<lparr>ft_create = False, ft_chmod = False, ft_write = None, ft_sync = False,
     ft_close = False, ft_rename = False, ft_remove = False\<rparr>"

datatype io_error = CreateTemp | SetMode | WriteData | SyncFile | CloseFile | RenameFile | RemoveTemp

text \<open>What the deferred function does when an error is returned: remove the temporary file.\<close>

definition clean_up :: "faults \<Rightarrow> string \<Rightarrow> io_error list \<Rightarrow> file_system list \<Rightarrow>
    file_system list \<times> io_error list" where
  "clean_up ft tmp errs states =
     (if ft_remove ft then (states, errs @ [RemoveTemp])
      else (states @ [(last states)(tmp := None)], errs))"

definition close_error :: "faults \<Rightarrow> io_error list" where
  "close_error ft = (if ft_close ft then [CloseFile] else [])"

text \<open>\<open>Writer.Write\<close>. A failing write may have written a part, \<open>ft_write = Some n\<close>, of the data.\<close>

definition atomic_write :: "faults \<Rightarrow> string \<Rightarrow> string \<Rightarrow> string \<Rightarrow> int \<Rightarrow> file_system \<Rightarrow>
    file_system list \<times> io_error list" where
  "atomic_write ft tmp path data mode fs =
     (if ft_create ft then ([fs], [CreateTemp])
      else let s1 = fs(tmp \<mapsto> ('''', 384)) in
      if ft_chmod ft then clean_up ft tmp (SetMode # close_error ft) [fs, s1]
      else let s2 = fs(tmp \<mapsto> ('''', mode)) in
      (case ft_write ft of
         Some n \<Rightarrow> clean_up ft tmp (WriteData # close_error ft) [fs, s1, s2, fs(tmp \<mapsto> (take n data, mode))]
       | None \<Rightarrow>
         let s3 = fs(tmp \<mapsto> (data, mode)) in
         if ft_sync ft then clean_up ft tmp (SyncFile # close_error ft) [fs, s1, s2, s3]
         else if ft_close ft then clean_up ft tmp [CloseFile] [fs, s1, s2, s3]
         else if ft_rename ft then clean_up ft tmp [RenameFile] [fs, s1, s2, s3]
         else ([fs, s1, s2, s3, fs(path \<mapsto> (data, mode), tmp := None)], [])))"

lemma atomic_write_result:
  assumes "atomic_write ft tmp path data mode fs = (states, errs)"
    and "tmp \<noteq> path" and "fs tmp = None"
  shows "(\<forall>s\<in>set states. s path = fs path \<or> s path = Some (data, mode)) \<and>
    (errs = [] \<longrightarrow> last states = fs(path \<mapsto> (data, mode))) \<and>
    (errs \<noteq> [] \<longrightarrow> last states path = fs path \<and> (RemoveTemp \<notin> set errs \<longrightarrow> last states = fs))"
  using assms
  by (auto simp: atomic_write_def clean_up_def Let_def fun_eq_iff split: option.splits if_splits)

text \<open>C10: A crash never leaves a partial file: in every state the disk passes through while a file is
  replaced, whichever calls fail, the path holds either what it held before or the whole new
  content with its mode. Success means the new content and no other change; an error means the
  file is as before, and nothing else changes either unless removing the temporary file failed.\<close>

theorem atomic_write_atomic:
  assumes "tmp \<noteq> path" and "fs tmp = None"
  shows "\<exists>states errs. atomic_write ft tmp path data mode fs = (states, errs) \<and>
    (\<forall>s\<in>set states. s path = fs path \<or> s path = Some (data, mode)) \<and>
    (errs = [] \<longrightarrow> last states = fs(path \<mapsto> (data, mode))) \<and>
    (errs \<noteq> [] \<longrightarrow> last states path = fs path \<and> (RemoveTemp \<notin> set errs \<longrightarrow> last states = fs))"
proof -
  obtain states errs where r: "atomic_write ft tmp path data mode fs = (states, errs)"
    by (rule prod.exhaust)
  from atomic_write_result [OF r assms] r show ?thesis by blast
qed

theorem atomic_write_atomic_witness:
  "\<exists>states errs.
     atomic_write (no_faults\<lparr>ft_write := Some 2\<rparr>) ''d/.s.1.tmp'' ''d/s'' ''new'' 384
       [''d/s'' \<mapsto> (''old'', 384)] = (states, errs) \<and> errs \<noteq> [] \<and>
     last states = [''d/s'' \<mapsto> (''old'', 384)]"
proof -
  let ?w = "atomic_write (no_faults\<lparr>ft_write := Some 2\<rparr>) ''d/.s.1.tmp'' ''d/s'' ''new'' 384
    [''d/s'' \<mapsto> (''old'', 384)]"
  have e: "snd ?w = [WriteData]"
    by (simp add: atomic_write_def no_faults_def clean_up_def close_error_def Let_def)
  obtain states errs where "?w = (states, errs)"
    and "errs \<noteq> [] \<longrightarrow> RemoveTemp \<notin> set errs \<longrightarrow> last states = [''d/s'' \<mapsto> (''old'', 384)]"
    using atomic_write_atomic [of "''d/.s.1.tmp''" "''d/s''" "[''d/s'' \<mapsto> (''old'', 384)]"
        "no_faults\<lparr>ft_write := Some 2\<rparr>" "''new''" 384] by auto
  with e show ?thesis by auto
qed

end
