(* ===== verification/State_Store.thy ===== *)
theory State_Store
  imports Prelude Interfaces Protocol Atomic_File
begin

text \<open>
  \<open>internal/state/state.go\<close>: which Runs are active and which finished recently, in memory and in the
  state file. An operation takes the environment of the call (\<open>store_env\<close>: the readings of the
  clock, JSON as a pair of functions, the system calls that fail), the store and the file system,
  and returns both updated and the error, if any. The slices are lists; a nil slice and an empty
  one, which \<open>save\<close> normalises, are the same list. Pointers are values here, and copies of what
  they point to have no counterpart; \<open>State_Alias\<close> shows why this is enough.
\<close>

section \<open>Data\<close>

definition MaxRecentRuns :: nat where "MaxRecentRuns = 1000"
definition RecentRunTTL :: duration where "RecentRunTTL = 7 * 24 * hour"
definition state_file_mode :: int where "state_file_mode = 384"

record active_run =
  av_run_id :: string
  av_pid :: int
  av_pgid :: int
  av_started_at :: time

record recent_run =
  rr_run_id :: string
  rr_status :: run_status
  rr_exit_code :: "int option"
  rr_started_at :: "time option"
  rr_finished_at :: time
  rr_reason :: "finish_reason option"

record outcome =
  oc_status :: run_status
  oc_exit_code :: "int option"
  oc_started_at :: "time option"
  oc_reason :: "finish_reason option"

record contents =
  cn_machine_id :: string
  cn_active :: "active_run list"
  cn_recent :: "recent_run list"

definition empty_contents :: contents where
  "empty_contents = \<lparr>cn_machine_id = '''', cn_active = [], cn_recent = []\<rparr>"

record store =
  so_path :: string
  so_contents :: contents

record store_env =
  se_encode :: "contents \<Rightarrow> string option"
  se_decode :: "string \<Rightarrow> contents option"
  se_stamp :: "time \<Rightarrow> string"
  se_now :: time
  se_now2 :: time
  se_tmp :: string
  se_faults :: faults
  se_mkdir_fails :: bool
  se_read_fails :: bool
  se_rename_fails :: bool

datatype state_error = ReadState | EncodeState | CreateDirectory | SaveState "io_error list"

type_synonym disk_store = "store \<times> file_system"
type_synonym store_result = "disk_store \<times> state_error option"

section \<open>Operations\<close>

definition prune :: "time \<Rightarrow> contents \<Rightarrow> contents" where
  "prune now c =
     (let cutoff = now - RecentRunTTL;
          recent = filter (\<lambda>r. \<not> rr_finished_at r < cutoff) (cn_recent c)
      in c\<lparr>cn_recent := (if length recent > MaxRecentRuns
                          then drop (length recent - MaxRecentRuns) recent else recent)\<rparr>)"

text \<open>\<open>Store.save\<close>; \<open>t\<close> is the reading of the clock in \<open>prune\<close>.\<close>

definition save :: "store_env \<Rightarrow> time \<Rightarrow> disk_store \<Rightarrow> store_result" where
  "save e t sd =
     (let s = (fst sd)\<lparr>so_contents := prune t (so_contents (fst sd))\<rparr>
      in case se_encode e (so_contents s) of
           None \<Rightarrow> ((s, snd sd), Some EncodeState)
         | Some data \<Rightarrow>
             if se_mkdir_fails e then ((s, snd sd), Some CreateDirectory)
             else (case atomic_write (se_faults e) (se_tmp e) (so_path s) (data @ ''\<newline>'')
                     state_file_mode (snd sd) of
                     (states, errs) \<Rightarrow>
                       ((s, last states), if errs = [] then None else Some (SaveState errs))))"

definition change :: "(contents \<Rightarrow> contents) \<Rightarrow> disk_store \<Rightarrow> disk_store" where
  "change f sd = ((fst sd)\<lparr>so_contents := f (so_contents (fst sd))\<rparr>, snd sd)"

definition keepAside :: "store_env \<Rightarrow> string \<Rightarrow> disk_store \<Rightarrow> disk_store" where
  "keepAside e label sd =
     (let path = so_path (fst sd); moved = path @ ''.'' @ label @ ''-'' @ se_stamp e (se_now e)
      in case snd sd path of
           None \<Rightarrow> sd
         | Some f \<Rightarrow> if se_rename_fails e then sd
                     else (fst sd, (snd sd)(path := None, moved \<mapsto> f)))"

text \<open>\<open>Loader.Load\<close>. A file that is not JSON of the right shape is set aside and the store is empty.\<close>

definition Load :: "store_env \<Rightarrow> string \<Rightarrow> file_system \<Rightarrow> state_error + disk_store" where
  "Load e path fs =
     (let s = \<lparr>so_path = path, so_contents = empty_contents\<rparr>
      in if se_read_fails e then Inl ReadState
         else case fs path of
           None \<Rightarrow> Inr (s, fs)
         | Some (data, mode) \<Rightarrow>
             (case se_decode e data of
                None \<Rightarrow> Inr (keepAside e ''corrupt'' (s, fs))
              | Some c \<Rightarrow> Inr (s\<lparr>so_contents := c\<rparr>, fs)))"

definition Reset :: "store_env \<Rightarrow> string \<Rightarrow> disk_store \<Rightarrow> store_result" where
  "Reset e machineID sd =
     save e (se_now2 e)
       (change (\<lambda>_. empty_contents\<lparr>cn_machine_id := machineID\<rparr>) (keepAside e ''replaced'' sd))"

definition MachineID :: "store \<Rightarrow> string" where
  "MachineID s = cn_machine_id (so_contents s)"

definition SetMachineID :: "store_env \<Rightarrow> string \<Rightarrow> disk_store \<Rightarrow> store_result" where
  "SetMachineID e machineID sd = save e (se_now e) (change (\<lambda>c. c\<lparr>cn_machine_id := machineID\<rparr>) sd)"

definition MarkActive :: "store_env \<Rightarrow> active_run \<Rightarrow> disk_store \<Rightarrow> store_result" where
  "MarkActive e run sd =
     save e (se_now e)
       (change (\<lambda>c. c\<lparr>cn_active := upsert (\<lambda>r. av_run_id r = av_run_id run) run (cn_active c)\<rparr>) sd)"

definition recent_of :: "string \<Rightarrow> outcome \<Rightarrow> time \<Rightarrow> recent_run" where
  "recent_of runID out now =
     \<lparr>rr_run_id = runID, rr_status = oc_status out, rr_exit_code = oc_exit_code out,
      rr_started_at = oc_started_at out, rr_finished_at = now, rr_reason = oc_reason out\<rparr>"

text \<open>\<open>s.now()\<close> is read twice: for \<open>FinishedAt\<close> (\<open>se_now\<close>) and in \<open>prune\<close> (\<open>se_now2\<close>).\<close>

definition MarkFinished :: "store_env \<Rightarrow> string \<Rightarrow> outcome \<Rightarrow> disk_store \<Rightarrow> store_result" where
  "MarkFinished e runID out sd =
     save e (se_now2 e)
       (change (\<lambda>c. c\<lparr>cn_active := filter (\<lambda>r. av_run_id r \<noteq> runID) (cn_active c),
                      cn_recent := upsert (\<lambda>r. rr_run_id r = runID) (recent_of runID out (se_now e))
                                     (cn_recent c)\<rparr>) sd)"

definition IsActive :: "string \<Rightarrow> store \<Rightarrow> bool" where
  "IsActive runID s \<longleftrightarrow> (\<exists>r\<in>set (cn_active (so_contents s)). av_run_id r = runID)"

definition RecentOutcome :: "string \<Rightarrow> store \<Rightarrow> recent_run option" where
  "RecentOutcome runID s = find (\<lambda>r. rr_run_id r = runID) (cn_recent (so_contents s))"

definition Active :: "store \<Rightarrow> active_run list" where
  "Active s = cn_active (so_contents s)"

definition Save :: "store_env \<Rightarrow> disk_store \<Rightarrow> store_result" where
  "Save e sd = save e (se_now e) sd"

section \<open>Pruning and saving\<close>

lemma prune_active [simp]: "cn_active (prune t c) = cn_active c"
  and prune_machine [simp]: "cn_machine_id (prune t c) = cn_machine_id c"
  by (simp_all add: prune_def Let_def)

lemma prune_bounds:
  "length (cn_recent (prune t c)) \<le> MaxRecentRuns \<and>
   (\<forall>r\<in>set (cn_recent (prune t c)). t - RecentRunTTL \<le> rr_finished_at r)"
  by (auto simp: prune_def Let_def dest: in_set_dropD)

lemma prune_suffix:
  "suffix (cn_recent (prune t c)) (filter (\<lambda>r. \<not> rr_finished_at r < t - RecentRunTTL) (cn_recent c))"
  by (simp add: prune_def Let_def suffix_drop)

lemma set_prune_subset: "set (cn_recent (prune t c)) \<subseteq> set (cn_recent c)"
  using set_mono_suffix [OF prune_suffix, of t c] by auto

lemma save_memory [simp]:
  "fst (fst (save e t sd)) = (fst sd)\<lparr>so_contents := prune t (so_contents (fst sd))\<rparr>"
  by (simp add: save_def Let_def split: option.split prod.split)

lemma change_facts [simp]:
  "fst (change f sd) = (fst sd)\<lparr>so_contents := f (so_contents (fst sd))\<rparr>" "snd (change f sd) = snd sd"
  by (simp_all add: change_def)

lemma save_disk:
  assumes tmp: "se_tmp e \<noteq> so_path (fst sd)" "snd sd (se_tmp e) = None"
    and sv: "save e t sd = ((s, fs), err)"
  shows "(err = None \<longrightarrow> (\<exists>data. se_encode e (so_contents s) = Some data \<and>
            fs = (snd sd)(so_path (fst sd) \<mapsto> (data @ ''\<newline>'', state_file_mode)))) \<and>
         (err \<noteq> None \<longrightarrow> fs (so_path (fst sd)) = snd sd (so_path (fst sd)))"
proof (cases "se_encode e (prune t (so_contents (fst sd)))")
  case None
  with sv show ?thesis by (auto simp: save_def Let_def)
next
  case (Some data)
  obtain states errs where w: "atomic_write (se_faults e) (se_tmp e) (so_path (fst sd))
      (data @ ''\<newline>'') state_file_mode (snd sd) = (states, errs)" by (rule prod.exhaust)
  have "errs = [] \<longrightarrow> last states = (snd sd)(so_path (fst sd) \<mapsto> (data @ ''\<newline>'', state_file_mode))"
    and "errs \<noteq> [] \<longrightarrow> last states (so_path (fst sd)) = snd sd (so_path (fst sd))"
    using atomic_write_result [OF w tmp] by blast+
  with sv w Some show ?thesis by (auto simp: save_def Let_def split: if_splits)
qed

section \<open>The invariant\<close>

definition store_ok :: "contents \<Rightarrow> bool" where
  "store_ok c \<longleftrightarrow> distinct (map av_run_id (cn_active c)) \<and> distinct (map rr_run_id (cn_recent c)) \<and>
     length (cn_recent c) \<le> MaxRecentRuns"

lemma distinct_prune: "distinct (map rr_run_id (cn_recent c)) \<Longrightarrow>
    distinct (map rr_run_id (cn_recent (prune t c)))"
  by (simp add: prune_def Let_def distinct_map_filter flip: drop_map)

lemma store_ok_prune:
  "distinct (map av_run_id (cn_active c)) \<Longrightarrow> distinct (map rr_run_id (cn_recent c)) \<Longrightarrow>
   store_ok (prune t c)"
  using prune_bounds [of t c] by (simp add: store_ok_def distinct_prune)

lemma prune_find:
  assumes "distinct (map rr_run_id (cn_recent c))"
  shows "find (\<lambda>r. rr_run_id r = i) (cn_recent (prune t c)) = None \<or>
    find (\<lambda>r. rr_run_id r = i) (cn_recent (prune t c)) = find (\<lambda>r. rr_run_id r = i) (cn_recent c)"
  by (rule find_subset [OF assms distinct_prune [OF assms] set_prune_subset])

text \<open>A new outcome survives the pruning of the very save that records it.\<close>

lemma prune_keeps_new:
  assumes ok: "store_ok c" and "t - RecentRunTTL \<le> rr_finished_at r" and "rr_run_id r = i"
  shows "r \<in> set (cn_recent (prune t (c\<lparr>cn_recent := upsert (\<lambda>q. rr_run_id q = i) r (cn_recent c)\<rparr>)))"
proof -
  let ?fresh = "\<lambda>q. \<not> rr_finished_at q < t - RecentRunTTL"
  let ?up = "upsert (\<lambda>q. rr_run_id q = i) r (cn_recent c)"
  have r: "r \<in> set (filter ?fresh ?up)" using assms(2) by simp
  show ?thesis
  proof (cases "length (filter ?fresh ?up) > MaxRecentRuns")
    case False
    with r show ?thesis by (simp add: prune_def Let_def)
  next
    case True
    then have long: "length ?up > MaxRecentRuns"
      using length_filter_le [of ?fresh ?up] by linarith
    have new: "\<not> (\<exists>q\<in>set (cn_recent c). rr_run_id q = i)"
      using long ok by (auto simp: store_ok_def length_upsert split: if_splits)
    then have "?up = cn_recent c @ [r]" by (intro upsert_fresh) auto
    then have "filter ?fresh ?up = filter ?fresh (cn_recent c) @ [r]" using assms(2) by simp
    moreover have "length (filter ?fresh (cn_recent c)) \<le> MaxRecentRuns"
      using ok length_filter_le order_trans unfolding store_ok_def by blast
    moreover have "Suc 0 - MaxRecentRuns = 0" by (simp add: MaxRecentRuns_def)
    ultimately show ?thesis by (simp add: prune_def Let_def)
  qed
qed

section \<open>The store as the ledger\<close>

definition prompt_env :: "store_env \<Rightarrow> bool" where
  "prompt_env e \<longleftrightarrow> se_now2 e - RecentRunTTL \<le> se_now e"

definition disk_store_ok :: "disk_store \<Rightarrow> bool" where
  "disk_store_ok sd \<longleftrightarrow> store_ok (so_contents (fst sd))"

interpretation run_ledger: ledger
  "\<lambda>e r sd. fst (MarkActive e r sd)" "\<lambda>e j out sd. fst (MarkFinished e j out sd)"
  "\<lambda>i sd. IsActive i (fst sd)" "\<lambda>i sd. RecentOutcome i (fst sd)"
  av_run_id "\<lambda>e j out. recent_of j out (se_now e)" prompt_env disk_store_ok
proof unfold_locales
  fix sd :: disk_store and e r j out i
  let ?c = "so_contents (fst sd)"
  show "disk_store_ok sd \<Longrightarrow> disk_store_ok (fst (MarkActive e r sd))"
    by (simp add: disk_store_ok_def MarkActive_def store_ok_prune store_ok_def distinct_upsert_key
        distinct_prune prune_bounds)
  have up: "distinct (map rr_run_id (upsert (\<lambda>q. rr_run_id q = j) (recent_of j out n) (cn_recent ?c)))"
    if "disk_store_ok sd" for n
    using that distinct_upsert_key [of rr_run_id "cn_recent ?c" "recent_of j out n"]
    by (simp add: disk_store_ok_def store_ok_def recent_of_def)
  show "disk_store_ok sd \<Longrightarrow> disk_store_ok (fst (MarkFinished e j out sd))"
  proof -
    assume g: "disk_store_ok sd"
    have "distinct (map av_run_id (filter (\<lambda>r. av_run_id r \<noteq> j) (cn_active ?c)))"
      using g by (simp add: disk_store_ok_def store_ok_def distinct_map_filter)
    then show ?thesis
      unfolding disk_store_ok_def MarkFinished_def using up [OF g]
      by (simp add: store_ok_prune)
  qed
  show "IsActive i (fst (fst (MarkActive e r sd))) \<longleftrightarrow> i = av_run_id r \<or> IsActive i (fst sd)"
    by (simp add: IsActive_def MarkActive_def ex_upsert_key)
  show "IsActive i (fst (fst (MarkFinished e j out sd))) \<longleftrightarrow> i \<noteq> j \<and> IsActive i (fst sd)"
    by (auto simp: IsActive_def MarkFinished_def)
  show "disk_store_ok sd \<Longrightarrow> RecentOutcome i (fst (fst (MarkActive e r sd))) = None \<or>
      RecentOutcome i (fst (fst (MarkActive e r sd))) = RecentOutcome i (fst sd)"
    using prune_find [of "?c\<lparr>cn_active := upsert (\<lambda>q. av_run_id q = av_run_id r) r (cn_active ?c)\<rparr>" i "se_now e"]
    by (simp add: RecentOutcome_def MarkActive_def disk_store_ok_def store_ok_def)
  show "disk_store_ok sd \<Longrightarrow> i \<noteq> j \<Longrightarrow> RecentOutcome i (fst (fst (MarkFinished e j out sd))) = None \<or>
      RecentOutcome i (fst (fst (MarkFinished e j out sd))) = RecentOutcome i (fst sd)"
  proof -
    assume g: "disk_store_ok sd" and "i \<noteq> j"
    let ?c1 = "?c\<lparr>cn_active := filter (\<lambda>r. av_run_id r \<noteq> j) (cn_active ?c),
      cn_recent := upsert (\<lambda>q. rr_run_id q = j) (recent_of j out (se_now e)) (cn_recent ?c)\<rparr>"
    have "find (\<lambda>r. rr_run_id r = i) (cn_recent ?c1) = find (\<lambda>r. rr_run_id r = i) (cn_recent ?c)"
      using \<open>i \<noteq> j\<close> by (simp add: find_upsert_other recent_of_def)
    then show ?thesis
      using prune_find [of ?c1 i "se_now2 e"] up [OF g]
      by (simp add: RecentOutcome_def MarkFinished_def)
  qed
  show "disk_store_ok sd \<Longrightarrow> prompt_env e \<Longrightarrow>
      RecentOutcome j (fst (fst (MarkFinished e j out sd))) = Some (recent_of j out (se_now e))"
  proof -
    assume g: "disk_store_ok sd" and p: "prompt_env e"
    let ?r = "recent_of j out (se_now e)"
    let ?c1 = "?c\<lparr>cn_active := filter (\<lambda>r. av_run_id r \<noteq> j) (cn_active ?c)\<rparr>"
    have "store_ok ?c1" using g by (simp add: disk_store_ok_def store_ok_def distinct_map_filter)
    then have "?r \<in> set (cn_recent (prune (se_now2 e)
        (?c1\<lparr>cn_recent := upsert (\<lambda>q. rr_run_id q = j) ?r (cn_recent ?c1)\<rparr>)))"
      by (rule prune_keeps_new) (use p in \<open>simp_all add: recent_of_def prompt_env_def\<close>)
    moreover have "distinct (map rr_run_id (cn_recent (prune (se_now2 e)
        (?c1\<lparr>cn_recent := upsert (\<lambda>q. rr_run_id q = j) ?r (cn_recent ?c1)\<rparr>))))"
      using up [OF g] by (intro distinct_prune) simp
    ultimately show ?thesis
      by (simp add: RecentOutcome_def MarkFinished_def find_key_iff recent_of_def)
  qed
qed

section \<open>Properties\<close>

text \<open>C8: Marking a Run finished takes it off the active list and puts exactly this outcome, stamped
  with the time, on record, whatever is already there; every other Run keeps its place on the active
  list, and its outcome is at most forgotten, never altered.\<close>

theorem MarkFinished_records:
  assumes "disk_store_ok sd" and "prompt_env e"
  shows "\<exists>s fs err. MarkFinished e runID out sd = ((s, fs), err) \<and> disk_store_ok (s, fs) \<and>
    \<not> IsActive runID s \<and> RecentOutcome runID s = Some (recent_of runID out (se_now e)) \<and>
    (\<forall>i. i \<noteq> runID \<longrightarrow> IsActive i s = IsActive i (fst sd) \<and>
       (RecentOutcome i s = None \<or> RecentOutcome i s = RecentOutcome i (fst sd)))"
proof -
  obtain s fs err where r: "MarkFinished e runID out sd = ((s, fs), err)" by (metis prod.exhaust)
  have "disk_store_ok (s, fs)"
    using run_ledger.good_finish [OF assms(1), of e runID out] r by simp
  moreover have "IsActive i s \<longleftrightarrow> i \<noteq> runID \<and> IsActive i (fst sd)" for i
    using run_ledger.active_finish [of i e runID out sd] r by simp
  moreover have "RecentOutcome runID s = Some (recent_of runID out (se_now e))"
    using run_ledger.recorded_finish [OF assms, of runID out] r by simp
  moreover have "RecentOutcome i s = None \<or> RecentOutcome i s = RecentOutcome i (fst sd)"
    if "i \<noteq> runID" for i
    using run_ledger.recorded_other [OF assms(1) that, of e out] r by simp
  ultimately show ?thesis using r by blast
qed

text \<open>The record is bounded: after any save it lists at most 1000 outcomes, none older than seven
  days, and what it drops are expired outcomes and then the oldest entries, so what is left is an
  end piece of the unexpired ones.\<close>

lemma save_prunes:
  "\<exists>s fs err. save e t sd = ((s, fs), err) \<and> length (cn_recent (so_contents s)) \<le> MaxRecentRuns \<and>
    list_all (\<lambda>r. t - RecentRunTTL \<le> rr_finished_at r) (cn_recent (so_contents s)) \<and>
    suffix (cn_recent (so_contents s))
      (filter (\<lambda>r. t - RecentRunTTL \<le> rr_finished_at r) (cn_recent (so_contents (fst sd)))) \<and>
    cn_active (so_contents s) = cn_active (so_contents (fst sd))"
proof -
  obtain s fs err where r: "save e t sd = ((s, fs), err)" by (metis prod.exhaust)
  then have "s = (fst sd)\<lparr>so_contents := prune t (so_contents (fst sd))\<rparr>"
    using save_memory [of e t sd] by simp
  with r prune_bounds [of t "so_contents (fst sd)"] prune_suffix [of t "so_contents (fst sd)"]
  show ?thesis by (simp add: list_all_iff not_less)
qed

text \<open>C12: An outcome survives a restart: when the save in \<open>MarkFinished\<close> reports no error, loading the
  state file afterwards finds the Run not active and with this outcome; when the save reports an
  error, the file still holds what it held before. JSON is assumed to read back what it wrote.\<close>

theorem MarkFinished_durable:
  assumes "disk_store_ok sd" and "prompt_env e"
    and "se_tmp e \<noteq> so_path (fst sd)" and "snd sd (se_tmp e) = None"
    and "MarkFinished e runID out sd = ((s, fs), err)"
    and "\<And>data. se_encode e (so_contents s) = Some data \<Longrightarrow>
      se_decode e' (data @ ''\<newline>'') = Some (so_contents s)"
    and "\<not> se_read_fails e'"
  shows "(err = None \<longrightarrow> (\<exists>s'. Load e' (so_path (fst sd)) fs = Inr (s', fs) \<and> \<not> IsActive runID s' \<and>
            RecentOutcome runID s' = Some (recent_of runID out (se_now e)))) \<and>
         (err \<noteq> None \<longrightarrow> fs (so_path (fst sd)) = snd sd (so_path (fst sd)))"
proof -
  have mem: "\<not> IsActive runID s" "RecentOutcome runID s = Some (recent_of runID out (se_now e))"
    using run_ledger.active_finish [of runID e runID out sd]
      run_ledger.recorded_finish [OF assms(1,2), of runID out] assms(5) by simp_all
  note d = save_disk [of e "change f sd" for f, simplified, OF assms(3,4)
      assms(5) [unfolded MarkFinished_def]]
  show ?thesis
  proof (cases err)
    case None
    then obtain data where "se_encode e (so_contents s) = Some data"
      and "fs (so_path (fst sd)) = Some (data @ ''\<newline>'', state_file_mode)"
      using d by auto
    then have "Load e' (so_path (fst sd)) fs =
        Inr (\<lparr>so_path = so_path (fst sd), so_contents = so_contents s\<rparr>, fs)"
      using assms(6,7) by (simp add: Load_def)
    with mem None show ?thesis by (simp add: IsActive_def RecentOutcome_def)
  next
    case (Some x)
    with d show ?thesis by auto
  qed
qed

section \<open>Witnesses\<close>

definition sample_env :: store_env where
  "sample_env = \<lparr>se_encode = (\<lambda>c. Some (cn_machine_id c)),
     se_decode = (\<lambda>d. Some \<lparr>cn_machine_id = ''m'', cn_active = [],
       cn_recent = [\<lparr>rr_run_id = ''r'', rr_status = ''success'', rr_exit_code = Some 0,
         rr_started_at = Some 1, rr_finished_at = 5, rr_reason = None\<rparr>]\<rparr>),
     se_stamp = (\<lambda>_. ''t''), se_now = 5, se_now2 = 6, se_tmp = ''d/.state.tmp'',
     se_faults = no_faults, se_mkdir_fails = False, se_read_fails = False, se_rename_fails = False\<rparr>"

definition sample_store :: disk_store where
  "sample_store =
     (\<lparr>so_path = ''d/state'', so_contents = \<lparr>cn_machine_id = ''m'',
         cn_active = [\<lparr>av_run_id = ''r'', av_pid = 7, av_pgid = 7, av_started_at = 1\<rparr>],
         cn_recent = []\<rparr>\<rparr>, Map.empty)"

definition sample_outcome :: outcome where
  "sample_outcome =
     \<lparr>oc_status = ''success'', oc_exit_code = Some 0, oc_started_at = Some 1, oc_reason = None\<rparr>"

lemma sample_ok: "disk_store_ok sample_store" "prompt_env sample_env"
  by (simp_all add: disk_store_ok_def store_ok_def sample_store_def MaxRecentRuns_def prompt_env_def
      sample_env_def RecentRunTTL_def duration_defs)

theorem MarkFinished_records_witness:
  "\<exists>s fs err. MarkFinished sample_env ''r'' sample_outcome sample_store = ((s, fs), err) \<and>
     \<not> IsActive ''r'' s \<and> RecentOutcome ''r'' s = Some (recent_of ''r'' sample_outcome 5)"
  using MarkFinished_records [OF sample_ok, of "''r''" sample_outcome]
  by (auto simp: sample_env_def)

theorem MarkFinished_durable_witness:
  "\<exists>fs s'. Load sample_env ''d/state'' fs = Inr (s', fs) \<and> \<not> IsActive ''r'' s' \<and>
     RecentOutcome ''r'' s' = Some (recent_of ''r'' sample_outcome 5)"
proof -
  obtain s fs err where r: "MarkFinished sample_env ''r'' sample_outcome sample_store = ((s, fs), err)"
    by (metis prod.exhaust)
  have s: "so_contents s = the (se_decode sample_env [])" and e: "err = None"
    using r by (auto simp: MarkFinished_def save_def sample_env_def sample_store_def sample_outcome_def
        Let_def prune_def recent_of_def RecentRunTTL_def duration_defs MaxRecentRuns_def
        atomic_write_def no_faults_def)
  show ?thesis
    using MarkFinished_durable [OF sample_ok _ _ r, of sample_env] e s
    by (auto simp: sample_env_def sample_store_def)
qed

end
