(* ===== verification/Go_Strings.thy ===== *)
theory Go_Strings
  imports Prelude
begin

text \<open>
  What the program uses of Go's \<open>strings\<close>, \<open>strconv\<close>, \<open>bufio\<close> and \<open>net/url\<close>. A Go string is a list of
  bytes. A space is one of the byte sequences that encode a code point of \<open>unicode.IsSpace\<close>; lead
  bytes never occur inside another encoding, so stripping and splitting may look at bytes.
\<close>

section \<open>White space\<close>

definition space_encodings :: "string list" where
  "space_encodings =
     [[CHR 0x09], [CHR 0x0A], [CHR 0x0B], [CHR 0x0C], [CHR 0x0D], [CHR 0x20],
      [CHR 0xC2, CHR 0x85], [CHR 0xC2, CHR 0xA0], [CHR 0xE1, CHR 0x9A, CHR 0x80],
      [CHR 0xE2, CHR 0x80, CHR 0x80], [CHR 0xE2, CHR 0x80, CHR 0x81],
      [CHR 0xE2, CHR 0x80, CHR 0x82], [CHR 0xE2, CHR 0x80, CHR 0x83],
      [CHR 0xE2, CHR 0x80, CHR 0x84], [CHR 0xE2, CHR 0x80, CHR 0x85],
      [CHR 0xE2, CHR 0x80, CHR 0x86], [CHR 0xE2, CHR 0x80, CHR 0x87],
      [CHR 0xE2, CHR 0x80, CHR 0x88], [CHR 0xE2, CHR 0x80, CHR 0x89],
      [CHR 0xE2, CHR 0x80, CHR 0x8A], [CHR 0xE2, CHR 0x80, CHR 0xA8],
      [CHR 0xE2, CHR 0x80, CHR 0xA9], [CHR 0xE2, CHR 0x80, CHR 0xAF],
      [CHR 0xE2, CHR 0x81, CHR 0x9F], [CHR 0xE3, CHR 0x80, CHR 0x80]]"

text \<open>The bytes a front space takes, if the string starts with one.\<close>

definition front_of :: "string list \<Rightarrow> string \<Rightarrow> string option" where
  "front_of encs s = find (\<lambda>e. e \<noteq> [] \<and> take (length e) s = e) encs"

lemma front_of_SomeD:
  "front_of encs s = Some e \<Longrightarrow> e \<noteq> [] \<and> e \<in> set encs \<and> s = e @ drop (length e) s"
  by (auto simp: front_of_def find_Some_iff) (metis append_take_drop_id)+

function strip :: "string list \<Rightarrow> string \<Rightarrow> string" where
  "strip encs s = (case front_of encs s of None \<Rightarrow> s | Some e \<Rightarrow> strip encs (drop (length e) s))"
  by pat_completeness auto
termination
proof (relation "measure (length \<circ> snd)")
  fix encs s e assume "front_of encs s = Some e"
  then have "e \<noteq> []" and "s = e @ drop (length e) s" using front_of_SomeD by blast+
  then have "s \<noteq> []" by auto
  with \<open>e \<noteq> []\<close> show "((encs, drop (length e) s), (encs, s)) \<in> measure (length \<circ> snd)"
    by simp
qed simp

declare strip.simps [simp del]

definition TrimSpace :: "string \<Rightarrow> string" where
  "TrimSpace s = rev (strip (map rev space_encodings) (rev (strip space_encodings s)))"

lemma front_of_strip: "front_of encs (strip encs s) = None"
proof (induction encs s rule: strip.induct)
  case (1 encs s)
  then show ?case by (subst strip.simps) (simp split: option.split)
qed

lemma strip_none: "front_of encs s = None \<Longrightarrow> strip encs s = s"
  by (subst strip.simps) simp

lemma strip_idem [simp]: "strip encs (strip encs s) = strip encs s"
  by (rule strip_none [OF front_of_strip])

lemma strip_suffix: "\<exists>p. s = p @ strip encs s"
proof (induction encs s rule: strip.induct)
  case (1 encs s)
  show ?case
  proof (cases "front_of encs s")
    case None
    then show ?thesis by (simp add: strip_none)
  next
    case (Some e)
    with 1 obtain p where p: "drop (length e) s = p @ strip encs (drop (length e) s)" by blast
    have "s = e @ drop (length e) s" using front_of_SomeD [OF Some] by blast
    with p have "s = (e @ p) @ strip encs (drop (length e) s)" by simp
    moreover have "strip encs s = strip encs (drop (length e) s)"
      using Some by (subst strip.simps) simp
    ultimately show ?thesis by metis
  qed
qed

text \<open>A string that begins and ends with an ordinary printable byte is left alone.\<close>

definition graphic :: "char \<Rightarrow> bool" where
  "graphic c \<longleftrightarrow> of_char c \<in> {33..126::nat}"

lemma front_of_None: "s \<noteq> [] \<Longrightarrow> hd s \<notin> hd ` set encs \<Longrightarrow> front_of encs s = None"
proof (cases "front_of encs s")
  case (Some e)
  assume "s \<noteq> []" and "hd s \<notin> hd ` set encs"
  moreover have "e \<noteq> []" "e \<in> set encs" "s = e @ drop (length e) s"
    using front_of_SomeD [OF Some] by blast+
  ultimately show ?thesis by (metis hd_append2 imageI)
qed

lemma space_heads:
  "hd ` set space_encodings = {CHR 0x09, CHR 0x0A, CHR 0x0B, CHR 0x0C, CHR 0x0D, CHR 0x20,
     CHR 0xC2, CHR 0xE1, CHR 0xE2, CHR 0xE3}"
  "hd ` set (map rev space_encodings) = {CHR 0x09, CHR 0x0A, CHR 0x0B, CHR 0x0C, CHR 0x0D,
     CHR 0x20, CHR 0x80, CHR 0x81, CHR 0x82, CHR 0x83, CHR 0x84, CHR 0x85, CHR 0x86, CHR 0x87,
     CHR 0x88, CHR 0x89, CHR 0x8A, CHR 0x9F, CHR 0xA0, CHR 0xA8, CHR 0xA9, CHR 0xAF}"
  unfolding space_encodings_def by (simp_all add: insert_commute)

lemma front_of_graphic: "graphic c \<Longrightarrow> front_of space_encodings (c # s) = None"
  by (rule front_of_None) (auto simp: space_heads graphic_def simp del: set_map)

lemma front_of_rev_graphic: "graphic c \<Longrightarrow> front_of (map rev space_encodings) (c # s) = None"
  by (rule front_of_None) (auto simp: space_heads graphic_def simp del: set_map)

lemma front_of_Nil [simp]: "front_of encs [] = None"
  by (induction encs) (auto simp: front_of_def)

lemma strip_Nil [simp]: "strip encs [] = []"
  by (simp add: strip_none)

lemma TrimSpace_Nil [simp]: "TrimSpace [] = []"
  by (simp add: TrimSpace_def)

lemma TrimSpace_graphic:
  assumes "s \<noteq> []" and "graphic (hd s)" and "graphic (last s)"
  shows "TrimSpace s = s"
proof -
  have "strip space_encodings s = s"
    using assms(1,2) by (cases s) (auto intro: strip_none front_of_graphic)
  moreover have "strip (map rev space_encodings) (rev s) = rev s"
    using assms(1,3) by (cases s rule: rev_cases) (auto intro: strip_none front_of_rev_graphic)
  ultimately show ?thesis by (simp add: TrimSpace_def)
qed

lemma front_of_blank: "front_of space_encodings (CHR '' '' # s) = Some [CHR '' '']"
  "front_of (map rev space_encodings) (CHR '' '' # s) = Some [CHR '' '']"
  by (simp_all add: front_of_def space_encodings_def)

lemma strip_blank [simp]: "strip space_encodings (CHR '' '' # s) = strip space_encodings s"
  "strip (map rev space_encodings) (CHR '' '' # s) = strip (map rev space_encodings) s"
  by (subst strip.simps, simp add: front_of_blank)+

text \<open>\<open>TrimSpace s = s\<close>, in the form the component proofs use.\<close>

definition trimmed :: "string \<Rightarrow> bool" where
  "trimmed s \<longleftrightarrow> TrimSpace s = s"

lemma trimmed_fronts:
  assumes "trimmed s"
  shows "strip space_encodings s = s" and "strip (map rev space_encodings) (rev s) = rev s"
proof -
  let ?a = "strip space_encodings s"
  let ?b = "strip (map rev space_encodings) (rev ?a)"
  have t: "rev ?b = s" using assms by (simp add: trimmed_def TrimSpace_def)
  obtain p where p: "s = p @ ?a" using strip_suffix by blast
  obtain q where q: "rev ?a = q @ ?b" using strip_suffix by blast
  have "length s = length p + length ?a" using p by (metis length_append)
  moreover have "length ?a = length q + length ?b" using q by (metis length_append length_rev)
  moreover have "length ?b = length s" using t by (metis length_rev)
  ultimately have "p = []" by simp
  with p show a: "?a = s" by simp
  with t show "strip (map rev space_encodings) (rev s) = rev s" by (metis rev_rev_ident)
qed

lemma TrimSpace_trimmed [simp]: "trimmed s \<Longrightarrow> TrimSpace s = s"
  by (simp add: trimmed_def)

text \<open>Stripping never looks past a byte that occurs in an encoding only at its front.\<close>

lemma front_of_before:
  assumes none: "front_of encs r = None" and "r \<noteq> []"
    and clean: "list_all (\<lambda>e. b \<notin> set (tl e)) encs"
  shows "front_of encs (r @ b # s) = None"
proof (cases "front_of encs (r @ b # s)")
  case (Some e)
  let ?t = "r @ b # s"
  have e: "e \<noteq> []" "e \<in> set encs" "?t = e @ drop (length e) ?t"
    using front_of_SomeD [OF Some] by blast+
  have "length e \<le> length r"
  proof (rule ccontr)
    assume "\<not> length e \<le> length r"
    then have "e ! length r = b" and "0 < length r" "length r < length e"
      using e(3) \<open>r \<noteq> []\<close> by (metis nth_append not_le nth_append_length, simp, simp)
    then have "tl e ! (length r - 1) = b" and "length r - 1 < length (tl e)"
      by (cases r; cases e; simp)+
    then have "b \<in> set (tl e)" by (metis nth_mem)
    with clean e(2) show False by (auto simp: list_all_iff)
  qed
  then have "take (length e) r = e" using e(3)
    by (metis append_eq_conv_conj take_append diff_is_0_eq take0 append_Nil2)
  then have "front_of encs r \<noteq> None"
    using e(1,2) by (auto simp: front_of_def find_None_iff)
  with none show ?thesis by simp
qed simp

lemma front_of_before_blank:
  "front_of (map rev space_encodings) r = None \<Longrightarrow> r \<noteq> [] \<Longrightarrow>
   front_of (map rev space_encodings) (r @ CHR '' '' # s) = None"
  by (erule front_of_before) (simp_all add: space_encodings_def)

lemma front_of_before_newline:
  "front_of space_encodings r = None \<Longrightarrow> r \<noteq> [] \<Longrightarrow>
   front_of space_encodings (r @ CHR 0x0A # s) = None"
  by (erule front_of_before) (simp_all add: space_encodings_def)

lemma trimmed_before:
  assumes "trimmed v" and "v \<noteq> []" and "k \<noteq> []" and "graphic (hd k)"
  shows "trimmed (k @ CHR '' '' # v)"
proof -
  have "front_of (map rev space_encodings) (rev v) = None"
    using trimmed_fronts(2) [OF assms(1)] front_of_strip by metis
  then have "front_of (map rev space_encodings) (rev v @ CHR '' '' # rev k) = None"
    by (rule front_of_before_blank) (simp add: assms(2))
  then have "strip (map rev space_encodings) (rev v @ CHR '' '' # rev k) = rev v @ CHR '' '' # rev k"
    by (rule strip_none)
  moreover have "strip space_encodings (k @ CHR '' '' # v) = k @ CHR '' '' # v"
    using assms(3,4) by (cases k) (auto intro: strip_none front_of_graphic)
  ultimately show ?thesis by (simp add: trimmed_def TrimSpace_def)
qed

lemma TrimSpace_blank_end:
  assumes "k \<noteq> []" and "graphic (hd k)" and "graphic (last k)"
  shows "TrimSpace (k @ [CHR '' '']) = k"
proof -
  have "strip space_encodings (k @ [CHR '' '']) = k @ [CHR '' '']"
    using assms(1,2) by (cases k) (auto intro: strip_none front_of_graphic)
  moreover have "strip (map rev space_encodings) (rev k) = rev k"
    using assms(1,3) by (cases k rule: rev_cases) (auto intro: strip_none front_of_rev_graphic)
  ultimately show ?thesis by (simp add: TrimSpace_def)
qed

lemma TrimSpace_blank_front: "TrimSpace (CHR '' '' # s) = TrimSpace s"
  by (simp add: TrimSpace_def)

lemma front_of_newline: "front_of (map rev space_encodings) (CHR 0x0A # s) = Some [CHR 0x0A]"
  by (simp add: front_of_def space_encodings_def)

text \<open>What trimming leaves is trimmed, and a newline after it goes.\<close>

lemma front_of_append_None: "front_of encs (s @ t) = None \<Longrightarrow> front_of encs s = None"
proof (cases "front_of encs s")
  case (Some e)
  assume none: "front_of encs (s @ t) = None"
  have "e \<noteq> []" "e \<in> set encs" "s = e @ drop (length e) s"
    using front_of_SomeD [OF Some] by blast+
  then have "take (length e) (s @ t) = e" by (metis append.assoc append_eq_conv_conj)
  with none \<open>e \<noteq> []\<close> \<open>e \<in> set encs\<close> show ?thesis by (auto simp: front_of_def find_None_iff)
qed simp

lemma trimmed_TrimSpace: "trimmed (TrimSpace s)"
proof -
  let ?a = "strip space_encodings s"
  let ?b = "strip (map rev space_encodings) (rev ?a)"
  obtain q where "rev ?a = q @ ?b" using strip_suffix by blast
  then have "?a = rev ?b @ rev q" by (metis rev_append rev_rev_ident)
  then have "front_of space_encodings (rev ?b) = None"
    using front_of_append_None front_of_strip by metis
  then have "strip space_encodings (rev ?b) = rev ?b" by (rule strip_none)
  then show ?thesis by (simp add: trimmed_def TrimSpace_def)
qed

lemma TrimSpace_newline:
  assumes "trimmed s"
  shows "TrimSpace (s @ [CHR 0x0A]) = s"
proof (cases "s = []")
  case True
  have "front_of space_encodings [CHR 0x0A] = Some [CHR 0x0A]"
    by (simp add: front_of_def space_encodings_def)
  then have "strip space_encodings [CHR 0x0A] = []" by (subst strip.simps) simp
  then show ?thesis by (simp add: True TrimSpace_def)
next
  case False
  have none: "front_of space_encodings s = None"
    using trimmed_fronts(1) [OF assms] front_of_strip by metis
  have "front_of space_encodings (s @ [CHR 0x0A]) = None"
    by (rule front_of_before_newline [OF none False])
  then have "strip space_encodings (s @ [CHR 0x0A]) = s @ [CHR 0x0A]" by (rule strip_none)
  moreover have "strip (map rev space_encodings) (CHR 0x0A # rev s) = rev s"
    using trimmed_fronts(2) [OF assms] by (subst strip.simps) (simp add: front_of_newline)
  ultimately show ?thesis by (simp add: TrimSpace_def)
qed

section \<open>Numbers\<close>

definition is_digit :: "char \<Rightarrow> bool" where
  "is_digit c \<longleftrightarrow> of_char c \<in> {48..57::nat}"

definition digit_value :: "char \<Rightarrow> nat" where
  "digit_value c = of_char c - 48"

definition digits_value :: "string \<Rightarrow> nat" where
  "digits_value s = foldl (\<lambda>n c. 10 * n + digit_value c) 0 s"

definition parse_digits :: "string \<Rightarrow> nat option" where
  "parse_digits s = (if s \<noteq> [] \<and> list_all is_digit s then Some (digits_value s) else None)"

text \<open>\<open>strconv.ParseInt(s, 10, 64)\<close>, which on a 64-bit platform is also \<open>strconv.Atoi\<close>.\<close>

definition ParseInt :: "string \<Rightarrow> int option" where
  "ParseInt s =
     (let (neg, ds) = (case s of [] \<Rightarrow> (False, [])
                       | c # cs \<Rightarrow> if c = CHR ''-'' then (True, cs)
                                  else if c = CHR ''+'' then (False, cs) else (False, s))
      in case parse_digits ds of None \<Rightarrow> None
         | Some n \<Rightarrow> (let v = (if neg then - int n else int n) in if in64 v then Some v else None))"

abbreviation Atoi :: "string \<Rightarrow> int option" where "Atoi \<equiv> ParseInt"

text \<open>\<open>strconv.ParseUint(s, 10, 32)\<close>.\<close>

definition ParseUint32 :: "string \<Rightarrow> nat option" where
  "ParseUint32 s =
     (case parse_digits s of None \<Rightarrow> None | Some n \<Rightarrow> if n < 2 ^ 32 then Some n else None)"

definition digit_char :: "nat \<Rightarrow> char" where
  "digit_char n = char_of (48 + n)"

fun show_nat :: "nat \<Rightarrow> string" where
  "show_nat n = (if n < 10 then [digit_char n] else show_nat (n div 10) @ [digit_char (n mod 10)])"

declare show_nat.simps [simp del]

text \<open>\<open>strconv.Itoa\<close> and the verb \<open>%d\<close>.\<close>

definition Itoa :: "int \<Rightarrow> string" where
  "Itoa n = (if n < 0 then CHR ''-'' # show_nat (nat (- n)) else show_nat (nat n))"

lemma digit_char_facts [simp]:
  "n < 10 \<Longrightarrow> is_digit (digit_char n)" "n < 10 \<Longrightarrow> digit_value (digit_char n) = n"
  by (simp_all add: is_digit_def digit_char_def digit_value_def)

lemma digits_value_snoc [simp]: "digits_value (s @ [c]) = 10 * digits_value s + digit_value c"
  by (simp add: digits_value_def)

lemma show_nat_facts: "show_nat n \<noteq> [] \<and> list_all is_digit (show_nat n) \<and> digits_value (show_nat n) = n"
proof (induction n rule: show_nat.induct)
  case (1 n)
  show ?case
  proof (cases "n < 10")
    case True
    then show ?thesis by (subst (1 2 3) show_nat.simps) (simp add: digits_value_def)
  next
    case False
    with 1 show ?thesis by (subst (1 2 3) show_nat.simps) simp
  qed
qed

lemma show_nat_nonempty [simp]: "show_nat n \<noteq> []"
  and show_nat_digits [simp]: "list_all is_digit (show_nat n)"
  and parse_show_nat [simp]: "parse_digits (show_nat n) = Some n"
  using show_nat_facts [of n] by (simp_all add: parse_digits_def)

lemma is_digit_graphic: "is_digit c \<Longrightarrow> graphic c"
  by (simp add: is_digit_def graphic_def)

lemma show_nat_hd_last: "is_digit (hd (show_nat n))" "is_digit (last (show_nat n))"
  using show_nat_digits [of n] show_nat_nonempty [of n]
  by (metis list.set_sel(1) list_all_iff) (metis last_in_set list_all_iff show_nat_digits show_nat_nonempty)

lemma Atoi_Itoa [simp]: "in64 n \<Longrightarrow> Atoi (Itoa n) = Some n"
proof -
  assume "in64 n"
  obtain c cs where c: "show_nat (nat n) = c # cs" by (metis list.exhaust show_nat_nonempty)
  have "is_digit c" using show_nat_hd_last(1) [of "nat n"] c by simp
  then have "c \<noteq> CHR ''-''" and "c \<noteq> CHR ''+''" by (auto simp: is_digit_def)
  then have "ParseInt (show_nat (nat n)) =
      (case parse_digits (show_nat (nat n)) of None \<Rightarrow> None
       | Some m \<Rightarrow> if in64 (int m) then Some (int m) else None)"
    by (simp add: ParseInt_def c Let_def split: option.split)
  with \<open>in64 n\<close> show ?thesis
    by (cases "n < 0") (simp_all add: Itoa_def ParseInt_def)
qed

lemma Itoa_nonempty [simp]: "Itoa n \<noteq> []"
  by (simp add: Itoa_def)

lemma Itoa_chars: "c \<in> set (Itoa n) \<Longrightarrow> is_digit c \<or> c = CHR ''-''"
  using show_nat_digits by (auto simp: Itoa_def list_all_iff split: if_splits)

lemma Itoa_graphic: "list_all graphic (Itoa n)"
proof -
  have "graphic (CHR ''-'')" by (simp add: graphic_def)
  then show ?thesis using Itoa_chars [of _ n] is_digit_graphic by (fastforce simp: list_all_iff)
qed

lemma length_show_nat: "n < 10 ^ Suc k \<Longrightarrow> length (show_nat n) \<le> Suc k"
proof (induction k arbitrary: n)
  case 0
  then show ?case by (subst show_nat.simps) simp
next
  case (Suc k)
  then have "n div 10 < 10 ^ Suc k" by (simp add: less_mult_imp_div_less mult.commute)
  then show ?case using Suc.IH [of "n div 10"] by (subst show_nat.simps) simp
qed

lemma length_Itoa: "in64 n \<Longrightarrow> length (Itoa n) \<le> 20"
proof -
  assume n: "in64 n"
  have "length (show_nat (nat m)) \<le> 19" if "m \<le> 2 ^ 63" for m :: int
    using that length_show_nat [of "nat m" 18] by (simp add: nat_less_iff)
  from this [of n] this [of "- n"] n show ?thesis by (simp add: in64_def Itoa_def)
qed

text \<open>\<open>strconv.ParseBool\<close> and \<open>strconv.FormatBool\<close>.\<close>

definition ParseBool :: "string \<Rightarrow> bool option" where
  "ParseBool s =
     (if s \<in> {''1'', ''t'', ''T'', ''true'', ''TRUE'', ''True''} then Some True
      else if s \<in> {''0'', ''f'', ''F'', ''false'', ''FALSE'', ''False''} then Some False
      else None)"

definition FormatBool :: "bool \<Rightarrow> string" where
  "FormatBool b = (if b then ''true'' else ''false'')"

lemma ParseBool_FormatBool [simp]: "ParseBool (FormatBool b) = Some b"
  by (cases b) (simp_all add: ParseBool_def FormatBool_def)

lemma FormatBool_graphic: "FormatBool b \<noteq> [] \<and> list_all graphic (FormatBool b)"
  by (simp add: FormatBool_def graphic_def)

lemma trimmed_graphic: "s \<noteq> [] \<Longrightarrow> list_all graphic s \<Longrightarrow> trimmed s"
  by (simp add: trimmed_def TrimSpace_graphic list_all_iff)

section \<open>Cutting, splitting and joining\<close>

text \<open>\<open>strings.Cut\<close> at a one-byte separator; \<open>None\<close> when it does not occur.\<close>

definition Cut :: "char \<Rightarrow> string \<Rightarrow> (string \<times> string) option" where
  "Cut c s = (if c \<in> set s then Some (takeWhile (\<lambda>x. x \<noteq> c) s, tl (dropWhile (\<lambda>x. x \<noteq> c) s))
              else None)"

lemma Cut_append [simp]: "c \<notin> set a \<Longrightarrow> Cut c (a @ c # b) = Some (a, b)"
  by (induction a) (auto simp: Cut_def split: if_splits)

lemma Cut_SomeD: "Cut c s = Some (a, b) \<Longrightarrow> s = a @ c # b \<and> c \<notin> set a"
proof -
  assume k: "Cut c s = Some (a, b)"
  then have "c \<in> set s" and ab: "a = takeWhile (\<lambda>x. x \<noteq> c) s" "b = tl (dropWhile (\<lambda>x. x \<noteq> c) s)"
    by (auto simp: Cut_def split: if_splits)
  then obtain u v where "s = u @ c # v" "c \<notin> set u" by (meson split_list_first)
  then have "Cut c s = Some (u, v)" by simp
  with k \<open>s = u @ c # v\<close> \<open>c \<notin> set u\<close> show ?thesis by simp
qed

text \<open>\<open>strings.Split\<close> at a one-byte separator: always at least one part.\<close>

fun Split :: "char \<Rightarrow> string \<Rightarrow> string list" where
  "Split c [] = [[]]"
| "Split c (x # xs) = (if x = c then [] # Split c xs
                       else case Split c xs of [] \<Rightarrow> [[x]] | p # ps \<Rightarrow> (x # p) # ps)"

lemma Split_nonempty [simp]: "Split c s \<noteq> []"
  by (induction c s rule: Split.induct) (auto split: list.split)

lemma Split_none: "c \<notin> set s \<Longrightarrow> Split c s = [s]"
  by (induction c s rule: Split.induct) auto

lemma Split_append: "c \<notin> set a \<Longrightarrow> Split c (a @ c # b) = a # Split c b"
  by (induction a) auto

text \<open>\<open>strings.Join\<close>.\<close>

fun Join :: "string \<Rightarrow> string list \<Rightarrow> string" where
  "Join sep [] = []"
| "Join sep [x] = x"
| "Join sep (x # y # ys) = x @ sep @ Join sep (y # ys)"

definition HasPrefix :: "string \<Rightarrow> string \<Rightarrow> bool" where
  "HasPrefix s p \<longleftrightarrow> take (length p) s = p"

definition HasSuffix :: "string \<Rightarrow> string \<Rightarrow> bool" where
  "HasSuffix s p \<longleftrightarrow> length p \<le> length s \<and> drop (length s - length p) s = p"

lemma HasPrefix_iff: "HasPrefix s p \<longleftrightarrow> (\<exists>r. s = p @ r)"
  by (metis HasPrefix_def append_eq_conv_conj append_take_drop_id)

text \<open>
  \<open>bufio.Scanner\<close> over lines: a line ends at a newline or at the end of the input and loses one
  trailing carriage return; a line of 64 KiB or more stops the scan (\<open>None\<close> in the list).
\<close>

definition MaxScanTokenSize :: nat where "MaxScanTokenSize = 65536"

definition drop_cr :: "string \<Rightarrow> string" where
  "drop_cr s = (if s \<noteq> [] \<and> last s = CHR 0x0D then butlast s else s)"

definition raw_lines :: "string \<Rightarrow> string list" where
  "raw_lines s = (let ps = Split (CHR 0x0A) s in if last ps = [] then butlast ps else ps)"

definition scan_line :: "string \<Rightarrow> string option" where
  "scan_line l = (if length l < MaxScanTokenSize then Some (drop_cr l) else None)"

definition scan_lines :: "string \<Rightarrow> string option list" where
  "scan_lines s = map scan_line (raw_lines s)"

text \<open>\<open>strings.Lines\<close>: each line with its newline.\<close>

fun Lines :: "string \<Rightarrow> string list" where
  "Lines [] = []"
| "Lines (c # cs) = (if c = CHR 0x0A then [c] # Lines cs
                     else case Lines cs of [] \<Rightarrow> [[c]] | l # ls \<Rightarrow> (c # l) # ls)"

lemma raw_lines_Nil [simp]: "raw_lines [] = []"
  by (simp add: raw_lines_def)

lemma raw_lines_append:
  "CHR 0x0A \<notin> set a \<Longrightarrow> raw_lines (a @ CHR 0x0A # b) = a # raw_lines b"
  by (simp add: raw_lines_def Split_append Let_def)

end
