(* ===== verification/Config.thy ===== *)
theory Config
  imports Prelude Go_Strings Atomic_File
begin

text \<open>
  \<open>internal/config\<close>: the configuration file (\<open>parse.go\<close>, \<open>config.go\<close>), the credential file
  (\<open>credential.go\<close>) and the execution-user allowlist (\<open>runas.go\<close>). \<open>url.Parse\<close> is a parameter that
  yields scheme and host. An error is a constructor carrying what its message quotes.
\<close>

section \<open>Data\<close>

record config =
  cf_server_url :: string
  cf_machine_id :: string
  cf_insecure_http :: bool
  cf_log_level :: string
  cf_max_concurrent_runs :: int
  cf_max_timeout_seconds :: int
  cf_max_output_bytes :: int
  cf_run_as_allowed :: "string list"

definition minConcurrentRuns :: int where "minConcurrentRuns = 1"
definition maxConcurrentRuns :: int where "maxConcurrentRuns = 64"
definition configFileMode :: int where "configFileMode = 416"

definition logLevels :: "string list" where
  "logLevels = [''debug'', ''info'', ''warn'', ''error'']"

definition Default :: config where
  "Default = \<lparr>cf_server_url = '''', cf_machine_id = '''', cf_insecure_http = False,
     cf_log_level = ''info'', cf_max_concurrent_runs = 4, cf_max_timeout_seconds = 259200,
     cf_max_output_bytes = 104857600, cf_run_as_allowed = []\<rparr>"

datatype set_error = UnknownKey string | InvalidValue string string

datatype parse_error = ExpectedKeyValue nat | DuplicateKey nat string | BadSetting nat set_error | LineTooLong

section \<open>Parsing\<close>

definition unquote :: "string \<Rightarrow> string" where
  "unquote value = (if 2 \<le> length value \<and> HasPrefix value [CHR 0x22] \<and> HasSuffix value [CHR 0x22]
                    then butlast (tl value) else value)"

definition splitList :: "string \<Rightarrow> string list" where
  "splitList value = (if TrimSpace value = [] then [] else map TrimSpace (Split (CHR '','') value))"

definition as_value :: "string \<Rightarrow> string \<Rightarrow> ('a \<Rightarrow> config) \<Rightarrow> 'a option \<Rightarrow> set_error + config" where
  "as_value key value f r = (case r of None \<Rightarrow> Inl (InvalidValue key value) | Some x \<Rightarrow> Inr (f x))"

text \<open>\<open>Config.set\<close>.\<close>

definition set_key :: "config \<Rightarrow> string \<Rightarrow> string \<Rightarrow> set_error + config" where
  "set_key c key value =
     (if key = ''server_url'' then Inr (c\<lparr>cf_server_url := value\<rparr>)
      else if key = ''machine_id'' then Inr (c\<lparr>cf_machine_id := value\<rparr>)
      else if key = ''insecure_http'' then
        as_value key value (\<lambda>b. c\<lparr>cf_insecure_http := b\<rparr>) (ParseBool value)
      else if key = ''log_level'' then Inr (c\<lparr>cf_log_level := value\<rparr>)
      else if key = ''max_concurrent_runs'' then
        as_value key value (\<lambda>n. c\<lparr>cf_max_concurrent_runs := n\<rparr>) (Atoi value)
      else if key = ''max_timeout_seconds'' then
        as_value key value (\<lambda>n. c\<lparr>cf_max_timeout_seconds := n\<rparr>) (Atoi value)
      else if key = ''max_output_bytes'' then
        as_value key value (\<lambda>n. c\<lparr>cf_max_output_bytes := n\<rparr>) (ParseInt value)
      else if key = ''run_as_allowed'' then Inr (c\<lparr>cf_run_as_allowed := splitList value\<rparr>)
      else Inl (UnknownKey key))"

text \<open>What one line says: nothing (\<open>Inr None\<close>), a setting, or no setting at all (\<open>Inl\<close>).\<close>

definition line_entry :: "string \<Rightarrow> unit + (string \<times> string) option" where
  "line_entry l =
     (let text = TrimSpace l
      in if text = [] \<or> HasPrefix text ''#'' then Inr None
         else (case Cut (CHR ''='') text of
                 None \<Rightarrow> Inl ()
               | Some (key, value) \<Rightarrow> Inr (Some (TrimSpace key, unquote (TrimSpace value)))))"

fun parse_loop :: "nat \<Rightarrow> string list \<Rightarrow> config \<Rightarrow> string option list \<Rightarrow> parse_error + config" where
  "parse_loop n seen cfg [] = Inr cfg"
| "parse_loop n seen cfg (None # ls) = Inl LineTooLong"
| "parse_loop n seen cfg (Some l # ls) =
     (case line_entry l of
        Inl _ \<Rightarrow> Inl (ExpectedKeyValue n)
      | Inr None \<Rightarrow> parse_loop (Suc n) seen cfg ls
      | Inr (Some (key, value)) \<Rightarrow>
          if key \<in> set seen then Inl (DuplicateKey n key)
          else (case set_key cfg key value of
                  Inl e \<Rightarrow> Inl (BadSetting n e)
                | Inr cfg' \<Rightarrow> parse_loop (Suc n) (key # seen) cfg' ls))"

definition Parse :: "string \<Rightarrow> parse_error + config" where
  "Parse data = parse_loop 1 [] Default (scan_lines data)"

section \<open>Printing\<close>

definition setting :: "string \<Rightarrow> string \<Rightarrow> string" where
  "setting key value = key @ '' = '' @ value @ [CHR 0x0A]"

text \<open>\<open>Config.String\<close>.\<close>

definition Config_String :: "config \<Rightarrow> string" where
  "Config_String c =
     setting ''server_url'' (cf_server_url c)
     @ setting ''machine_id'' (cf_machine_id c)
     @ setting ''insecure_http'' (FormatBool (cf_insecure_http c))
     @ setting ''log_level'' (cf_log_level c)
     @ setting ''max_concurrent_runs'' (Itoa (cf_max_concurrent_runs c))
     @ setting ''max_timeout_seconds'' (Itoa (cf_max_timeout_seconds c))
     @ setting ''max_output_bytes'' (Itoa (cf_max_output_bytes c))
     @ (if cf_run_as_allowed c \<noteq> [] then setting ''run_as_allowed'' (Join '', '' (cf_run_as_allowed c))
        else [])"

section \<open>Validation\<close>

datatype config_error =
    ServerURLRequired | InvalidURL string | PlainHTTP string | BadScheme string
  | BadLogLevel string | BadMaxConcurrentRuns int | BadMaxTimeoutSeconds int | BadMaxOutputBytes int
  | EmptyRunAs | DuplicateRunAs string

type_synonym url_parser = "string \<Rightarrow> (string \<times> string) option"

definition validateServerURL :: "url_parser \<Rightarrow> config \<Rightarrow> config_error option" where
  "validateServerURL url_parse c =
     (if cf_server_url c = [] then Some ServerURLRequired
      else case url_parse (cf_server_url c) of
        None \<Rightarrow> Some (InvalidURL (cf_server_url c))
      | Some (scheme, host) \<Rightarrow>
          if host = [] then Some (InvalidURL (cf_server_url c))
          else if scheme = ''https'' then None
          else if scheme = ''http'' then
            (if cf_insecure_http c then None else Some (PlainHTTP (cf_server_url c)))
          else Some (BadScheme (cf_server_url c)))"

fun run_as_loop :: "string list \<Rightarrow> string list \<Rightarrow> config_error option" where
  "run_as_loop seen [] = None"
| "run_as_loop seen (name # names) =
     (if name = [] then Some EmptyRunAs
      else if name \<in> set seen then Some (DuplicateRunAs name)
      else run_as_loop (name # seen) names)"

definition validateRunAsAllowed :: "config \<Rightarrow> config_error option" where
  "validateRunAsAllowed c = run_as_loop [] (cf_run_as_allowed c)"

definition Validate :: "url_parser \<Rightarrow> config \<Rightarrow> config_error option" where
  "Validate url_parse c =
     (case validateServerURL url_parse c of
        Some e \<Rightarrow> Some e
      | None \<Rightarrow>
          if cf_log_level c \<notin> set logLevels then Some (BadLogLevel (cf_log_level c))
          else if cf_max_concurrent_runs c < minConcurrentRuns
               \<or> cf_max_concurrent_runs c > maxConcurrentRuns
          then Some (BadMaxConcurrentRuns (cf_max_concurrent_runs c))
          else if cf_max_timeout_seconds c < 1
          then Some (BadMaxTimeoutSeconds (cf_max_timeout_seconds c))
          else if cf_max_output_bytes c < 1 then Some (BadMaxOutputBytes (cf_max_output_bytes c))
          else validateRunAsAllowed c)"

section \<open>Files\<close>

datatype load_error =
    ReadConfig | ParseConfig parse_error | InvalidConfig config_error
  | CreateConfigDir | SaveConfig "io_error list"

text \<open>The outside of a save: the fresh temporary name, the calls that fail.\<close>

record save_env =
  sv_tmp :: string
  sv_faults :: faults
  sv_mkdir_fails :: bool

definition Load_config :: "url_parser \<Rightarrow> string \<Rightarrow> file_system \<Rightarrow> load_error + config" where
  "Load_config url_parse path fs =
     (case fs path of
        None \<Rightarrow> Inl ReadConfig
      | Some (data, mode) \<Rightarrow>
          (case Parse data of
             Inl e \<Rightarrow> Inl (ParseConfig e)
           | Inr cfg \<Rightarrow>
               (case Validate url_parse cfg of
                  Some e \<Rightarrow> Inl (InvalidConfig e)
                | None \<Rightarrow> Inr cfg)))"

definition Save_config :: "url_parser \<Rightarrow> save_env \<Rightarrow> string \<Rightarrow> config \<Rightarrow> file_system \<Rightarrow>
    file_system \<times> load_error option" where
  "Save_config url_parse e path cfg fs =
     (case Validate url_parse cfg of
        Some err \<Rightarrow> (fs, Some (InvalidConfig err))
      | None \<Rightarrow>
          if sv_mkdir_fails e then (fs, Some CreateConfigDir)
          else (case atomic_write (sv_faults e) (sv_tmp e) path (Config_String cfg) configFileMode fs of
                  (states, errs) \<Rightarrow> (last states, if errs = [] then None else Some (SaveConfig errs))))"

section \<open>What a file means\<close>

text \<open>
  The abstract reading of a configuration file: a finite map from keys to values, each field read
  from its own key and from no other, with the default where the key is absent.
\<close>

definition known_keys :: "string list" where
  "known_keys = [''server_url'', ''machine_id'', ''insecure_http'', ''log_level'',
     ''max_concurrent_runs'', ''max_timeout_seconds'', ''max_output_bytes'', ''run_as_allowed'']"

definition good_entry :: "string \<times> string \<Rightarrow> bool" where
  "good_entry kv \<longleftrightarrow> fst kv \<in> set known_keys \<and>
     (fst kv = ''insecure_http'' \<longrightarrow> ParseBool (snd kv) \<noteq> None) \<and>
     (fst kv \<in> {''max_concurrent_runs'', ''max_timeout_seconds'', ''max_output_bytes''} \<longrightarrow>
        ParseInt (snd kv) \<noteq> None)"

definition field :: "(string \<rightharpoonup> string) \<Rightarrow> string \<Rightarrow> (string \<Rightarrow> 'a) \<Rightarrow> 'a \<Rightarrow> 'a" where
  "field m key r d = (case m key of None \<Rightarrow> d | Some v \<Rightarrow> r v)"

definition config_of :: "(string \<rightharpoonup> string) \<Rightarrow> config" where
  "config_of m =
     \<lparr>cf_server_url = field m ''server_url'' id (cf_server_url Default),
      cf_machine_id = field m ''machine_id'' id (cf_machine_id Default),
      cf_insecure_http = field m ''insecure_http'' (the \<circ> ParseBool) (cf_insecure_http Default),
      cf_log_level = field m ''log_level'' id (cf_log_level Default),
      cf_max_concurrent_runs =
        field m ''max_concurrent_runs'' (the \<circ> Atoi) (cf_max_concurrent_runs Default),
      cf_max_timeout_seconds =
        field m ''max_timeout_seconds'' (the \<circ> Atoi) (cf_max_timeout_seconds Default),
      cf_max_output_bytes =
        field m ''max_output_bytes'' (the \<circ> ParseInt) (cf_max_output_bytes Default),
      cf_run_as_allowed = field m ''run_as_allowed'' splitList (cf_run_as_allowed Default)\<rparr>"

fun entries :: "string option list \<Rightarrow> (string \<times> string) list option" where
  "entries [] = Some []"
| "entries (None # ls) = None"
| "entries (Some l # ls) =
     (case line_entry l of
        Inl _ \<Rightarrow> None
      | Inr None \<Rightarrow> entries ls
      | Inr (Some kv) \<Rightarrow> map_option ((#) kv) (entries ls))"

lemma field_upd [simp]: "field (m(k \<mapsto> v)) key r d = (if key = k then r v else field m key r d)"
  by (simp add: field_def)

lemma field_empty [simp]: "field Map.empty key r d = d"
  by (simp add: field_def)

lemma config_of_empty: "config_of Map.empty = Default"
  by (simp add: config_of_def)

lemma known_key_cases:
  assumes "k \<in> set known_keys"
  obtains "k = ''server_url''" | "k = ''machine_id''" | "k = ''insecure_http''"
    | "k = ''log_level''" | "k = ''max_concurrent_runs''" | "k = ''max_timeout_seconds''"
    | "k = ''max_output_bytes''" | "k = ''run_as_allowed''"
  using assms unfolding known_keys_def list.set by (elim insertE emptyE)

lemma as_value_Some [simp]: "as_value k v f (Some x) = Inr (f x)"
  by (simp add: as_value_def)

lemma set_key_config_of:
  assumes good: "good_entry (k, v)"
  shows "set_key (config_of m) k v = Inr (config_of (m(k \<mapsto> v)))"
proof -
  have "k \<in> set known_keys" using good by (simp add: good_entry_def)
  then show ?thesis
  proof (cases rule: known_key_cases)
    case 3
    then obtain x where "ParseBool v = Some x" using good by (auto simp: good_entry_def)
    with 3 show ?thesis by (simp add: set_key_def config_of_def)
  next
    case 5
    then obtain x where "ParseInt v = Some x" using good by (auto simp: good_entry_def)
    with 5 show ?thesis by (simp add: set_key_def config_of_def)
  next
    case 6
    then obtain x where "ParseInt v = Some x" using good by (auto simp: good_entry_def)
    with 6 show ?thesis by (simp add: set_key_def config_of_def)
  next
    case 7
    then obtain x where "ParseInt v = Some x" using good by (auto simp: good_entry_def)
    with 7 show ?thesis by (simp add: set_key_def config_of_def)
  qed (simp_all add: set_key_def config_of_def)
qed

lemma set_key_bad:
  assumes bad: "\<not> good_entry (k, v)"
  shows "\<exists>e. set_key c k v = Inl e"
proof (cases "k \<in> set known_keys")
  case False
  then show ?thesis by (simp add: known_keys_def set_key_def)
next
  case True
  then show ?thesis
    by (cases rule: known_key_cases)
      (use bad True in \<open>simp_all add: good_entry_def set_key_def as_value_def\<close>)
qed

lemma config_of_insert:
  "k \<notin> set (map fst kvs) \<Longrightarrow>
   config_of ((m(k \<mapsto> v)) ++ map_of kvs) = config_of (m ++ map_of ((k, v) # kvs))"
  by (simp add: map_add_upd_left dom_map_of_conv_image_fst)

lemma parse_loop_iff:
  "parse_loop n seen (config_of m) ls = Inr c \<longleftrightarrow>
     (\<exists>kvs. entries ls = Some kvs \<and> distinct (map fst kvs) \<and> set (map fst kvs) \<inter> set seen = {} \<and>
        list_all good_entry kvs \<and> c = config_of (m ++ map_of kvs))"
proof (induction ls arbitrary: n seen m)
  case Nil
  then show ?case by auto
next
  case (Cons ol ls)
  show ?case
  proof (cases ol)
    case None
    then show ?thesis by simp
  next
    case (Some l)
    show ?thesis
    proof (cases "line_entry l")
      case (Inl u)
      with Some show ?thesis by simp
    next
      case (Inr ent)
      show ?thesis
      proof (cases ent)
        case None
        with Some Inr Cons.IH show ?thesis by simp
      next
        case (Some kv)
        obtain k v where kv: "kv = (k, v)" by (cases kv)
        note step = \<open>ol = Some l\<close> Inr Some kv
        show ?thesis
        proof (cases "k \<in> set seen \<or> \<not> good_entry (k, v)")
          case True
          then show ?thesis using step set_key_bad [of k v "config_of m"] by auto
        next
          case False
          then have "parse_loop n seen (config_of m) (ol # ls) =
              parse_loop (Suc n) (k # seen) (config_of (m(k \<mapsto> v))) ls"
            using step by (simp add: set_key_config_of)
          also have "\<dots> = Inr c \<longleftrightarrow> (\<exists>kvs. entries ls = Some kvs \<and> distinct (map fst kvs) \<and>
              set (map fst kvs) \<inter> set (k # seen) = {} \<and> list_all good_entry kvs \<and>
              c = config_of (m(k \<mapsto> v) ++ map_of kvs))"
            by (rule Cons.IH)
          also have "\<dots> \<longleftrightarrow> (\<exists>kvs. entries ls = Some kvs \<and> distinct (k # map fst kvs) \<and>
              set (k # map fst kvs) \<inter> set seen = {} \<and> list_all good_entry ((k, v) # kvs) \<and>
              c = config_of (m ++ map_of ((k, v) # kvs)))" (is "?A = ?B")
          proof -
            have "(P \<and> distinct ks \<and> set ks \<inter> set (k # seen) = {} \<and> L \<and> x) =
                (P \<and> distinct (k # ks) \<and> set (k # ks) \<inter> set seen = {} \<and> L \<and> x)" for P L x ks
              using False by auto
            then have "?A \<longleftrightarrow> (\<exists>kvs. entries ls = Some kvs \<and> distinct (k # map fst kvs) \<and>
              set (k # map fst kvs) \<inter> set seen = {} \<and> list_all good_entry kvs \<and>
              c = config_of (m(k \<mapsto> v) ++ map_of kvs))"
              by metis
            also have "\<dots> \<longleftrightarrow> ?B"
              using False config_of_insert [of k _ m v] by (simp del: map_of.simps cong: conj_cong)
            finally show ?thesis .
          qed
          finally show ?thesis using step by (cases "entries ls") (simp_all del: map_of.simps)
        qed
      qed
    qed
  qed
qed

section \<open>Reading back what was written\<close>

text \<open>A value the file format can carry, and a configuration all of whose values are such.\<close>

definition plain_value :: "string \<Rightarrow> bool" where
  "plain_value v \<longleftrightarrow> trimmed v \<and> CHR 0x0A \<notin> set v \<and> unquote v = v \<and> length v < 65000"

definition plain_names :: "string list \<Rightarrow> bool" where
  "plain_names names \<longleftrightarrow> list_all (\<lambda>n. n \<noteq> [] \<and> trimmed n \<and> CHR '','' \<notin> set n) names \<and>
     plain_value (Join '', '' names)"

definition printable :: "config \<Rightarrow> bool" where
  "printable c \<longleftrightarrow> plain_value (cf_server_url c) \<and> plain_value (cf_machine_id c) \<and>
     plain_value (cf_log_level c) \<and> plain_names (cf_run_as_allowed c) \<and>
     in64 (cf_max_concurrent_runs c) \<and> in64 (cf_max_timeout_seconds c) \<and>
     in64 (cf_max_output_bytes c)"

definition key_like :: "string \<Rightarrow> bool" where
  "key_like k \<longleftrightarrow> k \<noteq> [] \<and> list_all graphic k \<and> CHR ''='' \<notin> set k \<and> hd k \<noteq> CHR ''#'' \<and> length k < 100"

lemma known_key_like: "k \<in> set known_keys \<Longrightarrow> key_like k"
  by (erule known_key_cases) (simp_all add: key_like_def graphic_def)

lemma unquote_unquoted: "v = [] \<or> hd v \<noteq> CHR 0x22 \<Longrightarrow> unquote v = v"
  by (cases v) (auto simp: unquote_def HasPrefix_def)

lemma line_entry_setting:
  assumes k: "key_like k" and v: "trimmed v"
  shows "line_entry (k @ '' = '' @ v) = Inr (Some (k, unquote v))"
proof -
  let ?k = "k @ '' =''"
  have k': "k \<noteq> []" "graphic (hd k)" "graphic (last k)" "CHR ''='' \<notin> set k" "hd k \<noteq> CHR ''#''"
    using k by (auto simp: key_like_def list_all_iff)
  have trim: "TrimSpace (?k @ CHR '' '' # v) = (if v = [] then ?k else ?k @ CHR '' '' # v)"
    using TrimSpace_blank_end [of ?k] trimmed_before [OF v, of ?k] k'
    by (simp add: graphic_def)
  have key: "TrimSpace (k @ '' '') = k"
    using TrimSpace_blank_end [of k] k' by simp
  have hash: "\<not> HasPrefix (k @ s) ''#''" for s
    using k' by (cases k) (auto simp: HasPrefix_def)
  have cut: "Cut (CHR ''='') (k @ '' ='' @ w) = Some (k @ '' '', w)" for w
    using Cut_append [of "CHR ''=''" "k @ '' ''" w] k' by simp
  show ?thesis
    using trim key hash cut k' v
    by (simp add: line_entry_def Let_def TrimSpace_blank_front)
qed

lemma entries_setting:
  assumes k: "key_like k" and v: "trimmed v" "CHR 0x0A \<notin> set v" "length v < 65000"
  shows "entries (scan_lines (setting k v @ rest)) =
    map_option ((#) (k, unquote v)) (entries (scan_lines rest))"
proof -
  let ?l = "k @ '' = '' @ v"
  have "CHR 0x0A \<notin> set ?l" using k v by (auto simp: key_like_def list_all_iff graphic_def)
  then have "raw_lines (?l @ CHR 0x0A # rest) = ?l # raw_lines rest"
    by (rule raw_lines_append)
  moreover have "drop_cr ?l = ?l"
  proof (cases "v = []")
    case False
    have "last v \<noteq> CHR 0x0D"
    proof
      assume "last v = CHR 0x0D"
      then have "front_of (map rev space_encodings) (rev v) \<noteq> None"
        using False by (cases v rule: rev_cases) (simp_all add: front_of_def space_encodings_def)
      then show False using trimmed_fronts(2) [OF v(1)] front_of_strip by metis
    qed
    with False show ?thesis by (simp add: drop_cr_def)
  qed (simp add: drop_cr_def)
  moreover have "length ?l < MaxScanTokenSize"
    using k v by (simp add: key_like_def MaxScanTokenSize_def)
  ultimately show ?thesis
    using line_entry_setting [OF k v(1)] by (simp add: scan_lines_def setting_def scan_line_def)
qed

lemma plain_facts: "plain_value v \<Longrightarrow>
    trimmed v \<and> CHR 0x0A \<notin> set v \<and> unquote v = v \<and> length v < 65000"
  by (simp add: plain_value_def)

lemma graphic_plain: "v \<noteq> [] \<Longrightarrow> list_all graphic v \<Longrightarrow> hd v \<noteq> CHR 0x22 \<Longrightarrow> length v < 65000 \<Longrightarrow> plain_value v"
  by (auto simp: plain_value_def trimmed_graphic unquote_unquoted list_all_iff graphic_def)

lemma entries_plain:
  "k \<in> set known_keys \<Longrightarrow> plain_value v \<Longrightarrow>
   entries (scan_lines (setting k v @ rest)) = map_option ((#) (k, v)) (entries (scan_lines rest))"
  using entries_setting [of k v rest] plain_facts [of v] known_key_like [of k] by simp

lemma map_TrimSpace_Split_blank:
  "map TrimSpace (Split (CHR '','') (CHR '' '' # s)) = map TrimSpace (Split (CHR '','') s)"
  using Split_nonempty [of "CHR '',''" s]
  by (auto simp: TrimSpace_blank_front split: list.split simp del: Split_nonempty)

lemma Split_Join:
  "names \<noteq> [] \<Longrightarrow> list_all (\<lambda>n. n \<noteq> [] \<and> trimmed n \<and> CHR '','' \<notin> set n) names \<Longrightarrow>
   map TrimSpace (Split (CHR '','') (Join '', '' names)) = names"
proof (induction "'', ''" names rule: Join.induct)
  case (3 x y ys)
  then show ?case
    using Split_append [of "CHR '',''" x "CHR '' '' # Join '', '' (y # ys)"]
    by (simp add: map_TrimSpace_Split_blank del: Split.simps)
qed (simp_all add: Split_none)

lemma splitList_Join:
  assumes "names \<noteq> []" and "plain_names names"
  shows "splitList (Join '', '' names) = names"
proof -
  have ne: "Join '', '' names \<noteq> []"
    using assms by (cases names rule: remdups_adj.cases) (auto simp: plain_names_def)
  moreover have "trimmed (Join '', '' names)" using assms by (simp add: plain_names_def plain_value_def)
  ultimately show ?thesis
    using Split_Join [of names] assms by (simp add: splitList_def plain_names_def)
qed

lemma plain_Itoa: "in64 n \<Longrightarrow> plain_value (Itoa n)"
proof (rule graphic_plain)
  assume "in64 n"
  then show "length (Itoa n) < 65000" using length_Itoa [of n] by simp
  have "hd (Itoa n) \<in> set (Itoa n)" by simp
  from Itoa_chars [OF this] show "hd (Itoa n) \<noteq> CHR 0x22" by (auto simp: is_digit_def)
qed (simp_all add: Itoa_graphic)

lemma plain_FormatBool: "plain_value (FormatBool b)"
  using FormatBool_graphic [of b] by (intro graphic_plain) (auto simp: FormatBool_def)

definition config_entries :: "config \<Rightarrow> (string \<times> string) list" where
  "config_entries c =
     [(''server_url'', cf_server_url c), (''machine_id'', cf_machine_id c),
      (''insecure_http'', FormatBool (cf_insecure_http c)), (''log_level'', cf_log_level c),
      (''max_concurrent_runs'', Itoa (cf_max_concurrent_runs c)),
      (''max_timeout_seconds'', Itoa (cf_max_timeout_seconds c)),
      (''max_output_bytes'', Itoa (cf_max_output_bytes c))]
     @ (if cf_run_as_allowed c \<noteq> [] then [(''run_as_allowed'', Join '', '' (cf_run_as_allowed c))] else [])"

lemma Config_String_settings:
  "Config_String c = concat (map (\<lambda>(k, v). setting k v) (config_entries c))"
  by (simp add: Config_String_def config_entries_def)

lemma entries_settings:
  "list_all (\<lambda>(k, v). k \<in> set known_keys \<and> plain_value v) kvs \<Longrightarrow>
   entries (scan_lines (concat (map (\<lambda>(k, v). setting k v) kvs))) = Some kvs"
proof (induction kvs)
  case Nil
  then show ?case by (simp add: scan_lines_def)
next
  case (Cons kv kvs)
  then show ?case by (cases kv) (simp add: entries_plain)
qed

lemma config_of_entries:
  "in64 (cf_max_concurrent_runs c) \<Longrightarrow> in64 (cf_max_timeout_seconds c) \<Longrightarrow>
   in64 (cf_max_output_bytes c) \<Longrightarrow> plain_names (cf_run_as_allowed c) \<Longrightarrow>
   config_of (map_of (config_entries c)) = c"
  by (cases "cf_run_as_allowed c = []")
    (simp_all add: config_of_def config_entries_def field_def splitList_Join Default_def)

lemma config_entries_good:
  "in64 (cf_max_concurrent_runs c) \<Longrightarrow> in64 (cf_max_timeout_seconds c) \<Longrightarrow>
   in64 (cf_max_output_bytes c) \<Longrightarrow>
   distinct (map fst (config_entries c)) \<and> list_all good_entry (config_entries c)"
  by (simp add: config_entries_def good_entry_def known_keys_def)

lemma plain_entries:
  "printable c \<Longrightarrow> list_all (\<lambda>(k, v). k \<in> set known_keys \<and> plain_value v) (config_entries c)"
  by (simp add: config_entries_def printable_def known_keys_def plain_Itoa plain_FormatBool
      plain_names_def)

lemma Parse_iff:
  "Parse data = Inr c \<longleftrightarrow>
     (\<exists>kvs. entries (scan_lines data) = Some kvs \<and> distinct (map fst kvs) \<and> list_all good_entry kvs \<and>
        c = config_of (map_of kvs))"
  using parse_loop_iff [of 1 "[]" Map.empty "scan_lines data" c]
  by (simp add: Parse_def config_of_empty)

lemma Parse_settings:
  assumes "list_all (\<lambda>(k, v). k \<in> set known_keys \<and> plain_value v) kvs"
    and "distinct (map fst kvs)" and "list_all good_entry kvs"
  shows "Parse (concat (map (\<lambda>(k, v). setting k v) kvs)) = Inr (config_of (map_of kvs))"
  using entries_settings [OF assms(1)] assms(2,3) Parse_iff by blast

lemma Parse_String: "printable c \<Longrightarrow> Parse (Config_String c) = Inr c"
  using Parse_settings [OF plain_entries] config_entries_good [of c] config_of_entries [of c]
  by (simp add: Config_String_settings printable_def)

section \<open>Validation\<close>

lemma run_as_loop_iff:
  "run_as_loop seen names = None \<longleftrightarrow>
     [] \<notin> set names \<and> distinct names \<and> set names \<inter> set seen = {}"
  by (induction seen names rule: run_as_loop.induct) auto

definition url_allowed :: "url_parser \<Rightarrow> config \<Rightarrow> bool" where
  "url_allowed url_parse c \<longleftrightarrow> cf_server_url c \<noteq> [] \<and>
     (\<exists>scheme host. url_parse (cf_server_url c) = Some (scheme, host) \<and> host \<noteq> [] \<and>
        (scheme = ''https'' \<or> scheme = ''http'' \<and> cf_insecure_http c))"

lemma validateServerURL_iff: "validateServerURL url_parse c = None \<longleftrightarrow> url_allowed url_parse c"
  by (auto simp: validateServerURL_def url_allowed_def split: option.split)

lemma Validate_iff:
  "Validate url_parse c = None \<longleftrightarrow>
     url_allowed url_parse c \<and> cf_log_level c \<in> set logLevels \<and>
     1 \<le> cf_max_concurrent_runs c \<and> cf_max_concurrent_runs c \<le> 64 \<and>
     1 \<le> cf_max_timeout_seconds c \<and> 1 \<le> cf_max_output_bytes c \<and>
     [] \<notin> set (cf_run_as_allowed c) \<and> distinct (cf_run_as_allowed c)"
  unfolding validateServerURL_iff [symmetric]
  by (simp add: Validate_def validateRunAsAllowed_def run_as_loop_iff minConcurrentRuns_def
      maxConcurrentRuns_def not_less split: option.split)

section \<open>Execution users\<close>

text \<open>\<open>runas.go\<close>. The user database is a parameter, \<open>rh_lookup\<close> (\<open>None\<close>: no such user).\<close>

definition rootUID :: int where "rootUID = 0"

record run_as_host =
  rh_uid :: int
  rh_username :: string
  rh_lookup :: "string \<Rightarrow> int option"

datatype run_as_error = NoSuchUser string | RootNeedsRoot string | OnlyItself string

record run_as_user =
  ru_name :: string
  ru_uid :: int
  ru_err :: "run_as_error option"

definition check_user :: "run_as_host \<Rightarrow> string \<Rightarrow> run_as_user" where
  "check_user h name =
     (case rh_lookup h name of
        None \<Rightarrow> \<lparr>ru_name = name, ru_uid = 0, ru_err = Some (NoSuchUser name)\<rparr>
      | Some uid \<Rightarrow>
          \<lparr>ru_name = name, ru_uid = uid,
           ru_err = (if rh_uid h = rootUID then None
                     else if uid = rootUID then Some (RootNeedsRoot name)
                     else Some (OnlyItself name))\<rparr>)"

definition ResolveRunAs :: "config \<Rightarrow> run_as_host \<Rightarrow> run_as_user list" where
  "ResolveRunAs cfg host =
     (if rh_username host \<noteq> [] then [\<lparr>ru_name = rh_username host, ru_uid = rh_uid host, ru_err = None\<rparr>]
      else [])
     @ map (check_user host) (filter (\<lambda>name. name \<noteq> rh_username host) (cf_run_as_allowed cfg))"

fun RunAs_Err :: "run_as_user list \<Rightarrow> run_as_error option" where
  "RunAs_Err [] = None"
| "RunAs_Err (u # us) = (if ru_err u \<noteq> None then ru_err u else RunAs_Err us)"

definition Names :: "run_as_user list \<Rightarrow> string list" where
  "Names us = map ru_name (filter (\<lambda>u. ru_err u = None) us)"

text \<open>\<open>runas_unix.go\<close>: the numeric uid, from what the user database lists as a string.\<close>

definition LookupUser :: "(string \<Rightarrow> string option) \<Rightarrow> string \<Rightarrow> int option" where
  "LookupUser users name = (case users name of None \<Rightarrow> None | Some uid \<Rightarrow> Atoi uid)"

lemma check_user_facts:
  "ru_name (check_user h n) = n"
  "ru_err (check_user h n) = None \<longleftrightarrow> rh_lookup h n \<noteq> None \<and> rh_uid h = rootUID"
  by (auto simp: check_user_def split: option.split)

lemma RunAs_Err_iff: "RunAs_Err us = None \<longleftrightarrow> list_all (\<lambda>u. ru_err u = None) us"
  by (induction us) auto

lemma checked_ok:
  "list_all (\<lambda>u. ru_err u = None) (map (check_user h) ns) \<longleftrightarrow>
     list_all (\<lambda>n. rh_lookup h n \<noteq> None \<and> rh_uid h = rootUID) ns"
  by (induction ns) (simp_all add: check_user_facts(2))

lemma Names_append: "Names (us @ vs) = Names us @ Names vs"
  by (simp add: Names_def)

lemma Names_checked:
  "n \<in> set (Names (map (check_user h) ns)) \<longleftrightarrow> n \<in> set ns \<and> ru_err (check_user h n) = None"
  by (auto simp: Names_def check_user_facts(1) image_iff)

lemma Names_own: "Names [\<lparr>ru_name = n, ru_uid = i, ru_err = None\<rparr>] = [n]"
  by (simp add: Names_def)

lemma Names_Nil: "Names [] = []"
  by (simp add: Names_def)

lemma in_Names: "n \<in> set (Names (ResolveRunAs cfg h)) \<longleftrightarrow>
    n = rh_username h \<and> n \<noteq> [] \<or>
    n \<in> set (cf_run_as_allowed cfg) \<and> n \<noteq> rh_username h \<and> rh_uid h = rootUID \<and> rh_lookup h n \<noteq> None"
  by (auto simp: ResolveRunAs_def Names_append Names_checked Names_own Names_Nil check_user_facts(2))

section \<open>The credential\<close>

text \<open>
  \<open>credential.go\<close>. \<open>os.Stat\<close> yields the mode (the file system keeps permission bits) and the owner
  where the platform tells it.
\<close>

definition CredentialPrefix :: string where "CredentialPrefix = ''omj_agent_''"
definition credentialFileMode :: int where "credentialFileMode = 384"

type_synonym credential = string

definition credential_is_zero :: "credential \<Rightarrow> bool" where
  "credential_is_zero c \<longleftrightarrow> c = []"

definition NewCredential :: "string \<Rightarrow> credential option" where
  "NewCredential v =
     (let value = TrimSpace v
      in if \<not> HasPrefix value CredentialPrefix \<or> length value = length CredentialPrefix then None
         else Some value)"

text \<open>Formatting or logging a credential gives the prefix and an ellipsis (three bytes of UTF-8).\<close>

definition redactedCredential :: string where
  "redactedCredential = CredentialPrefix @ [CHR 0xE2, CHR 0x80, CHR 0xA6]"

definition Credential_String :: "credential \<Rightarrow> string" where
  "Credential_String c = redactedCredential"

definition Credential_GoString :: "credential \<Rightarrow> string" where
  "Credential_GoString c = ''config.Credential{'' @ redactedCredential @ ''}''"

definition Credential_LogValue :: "credential \<Rightarrow> string" where
  "Credential_LogValue c = redactedCredential"

datatype credential_error =
    ReadCredential | WrongMode int | WrongOwner int | BadCredential
  | EmptyCredential | CredentialDir | SaveCredentialFailed "io_error list"

definition loadCredential :: "(string \<Rightarrow> int option) \<Rightarrow> bool \<Rightarrow> int \<Rightarrow> string \<Rightarrow> file_system \<Rightarrow>
    credential_error + credential" where
  "loadCredential fileOwner read_fails currentUID path fs =
     (case fs path of
        None \<Rightarrow> Inl ReadCredential
      | Some (data, mode) \<Rightarrow>
          if mode \<noteq> credentialFileMode then Inl (WrongMode mode)
          else case (case fileOwner path of None \<Rightarrow> None
                     | Some owner \<Rightarrow> if owner \<noteq> currentUID then Some owner else None) of
            Some owner \<Rightarrow> Inl (WrongOwner owner)
          | None \<Rightarrow>
              if read_fails then Inl ReadCredential
              else (case NewCredential data of None \<Rightarrow> Inl BadCredential | Some c \<Rightarrow> Inr c))"

definition SaveCredential :: "save_env \<Rightarrow> string \<Rightarrow> credential \<Rightarrow> file_system \<Rightarrow>
    file_system \<times> credential_error option" where
  "SaveCredential e path c fs =
     (if credential_is_zero c then (fs, Some EmptyCredential)
      else if sv_mkdir_fails e then (fs, Some CredentialDir)
      else (case atomic_write (sv_faults e) (sv_tmp e) path (c @ ''\<newline>'') credentialFileMode fs of
              (states, errs) \<Rightarrow>
                (last states, if errs = [] then None else Some (SaveCredentialFailed errs))))"

lemma NewCredential_saved:
  assumes "NewCredential v = Some c"
  shows "NewCredential (c @ ''\<newline>'') = Some c"
proof -
  have c: "c = TrimSpace v" "HasPrefix c CredentialPrefix" "length c \<noteq> length CredentialPrefix"
    using assms by (auto simp: NewCredential_def Let_def split: if_splits)
  have "TrimSpace (c @ ''\<newline>'') = c"
    unfolding c(1) by (rule TrimSpace_newline [OF trimmed_TrimSpace])
  with c show ?thesis by (simp add: NewCredential_def)
qed

section \<open>Properties\<close>

text \<open>C14: The parser implements the abstract reading of a file: it accepts a file exactly when every
  line is blank, a comment or a setting, no key is given twice, every key is known and every value
  parses; and the configuration it returns takes each field from the setting of its own key and
  from nothing else, with the default where there is none.\<close>

theorem Parse_refines:
  "Parse data = Inr c \<longleftrightarrow>
     (\<exists>kvs. entries (scan_lines data) = Some kvs \<and> distinct (map fst kvs) \<and> list_all good_entry kvs \<and>
        c = config_of (map_of kvs))"
  by (rule Parse_iff)


text \<open>C29: The execution users the agent offers are its own user and, only when it runs as root, the
  users of the operator's list that exist on the machine; so an agent that is not root offers
  nobody but itself. Startup is refused exactly when some listed user other than its own could not
  be offered.\<close>

theorem ResolveRunAs_safe:
  "set (Names (ResolveRunAs cfg h)) =
     {n. n = rh_username h \<and> n \<noteq> []} \<union>
     (if rh_uid h = rootUID then {n \<in> set (cf_run_as_allowed cfg). rh_lookup h n \<noteq> None \<and> n \<noteq> rh_username h} else {}) \<and>
   (RunAs_Err (ResolveRunAs cfg h) = None \<longleftrightarrow>
     list_all (\<lambda>n. n = rh_username h \<or> rh_uid h = rootUID \<and> rh_lookup h n \<noteq> None) (cf_run_as_allowed cfg))"
proof
  show "set (Names (ResolveRunAs cfg h)) = {n. n = rh_username h \<and> n \<noteq> []} \<union>
     (if rh_uid h = rootUID then {n \<in> set (cf_run_as_allowed cfg). rh_lookup h n \<noteq> None \<and> n \<noteq> rh_username h} else {})"
    by (rule set_eqI) (simp add: in_Names, blast)
  show "RunAs_Err (ResolveRunAs cfg h) = None \<longleftrightarrow>
     list_all (\<lambda>n. n = rh_username h \<or> rh_uid h = rootUID \<and> rh_lookup h n \<noteq> None) (cf_run_as_allowed cfg)"
    unfolding RunAs_Err_iff ResolveRunAs_def list_all_append checked_ok by (auto simp: list_all_iff)
qed

text \<open>A credential that was accepted and saved is loaded again unchanged by an agent of the file's
  owner, and only from a file nobody else can read: one whose mode is not 0600, or that belongs to
  another user, is refused.\<close>

lemma SaveCredential_load:
  assumes "NewCredential v = Some c" and "sv_tmp e \<noteq> path" and "fs (sv_tmp e) = None"
    and "SaveCredential e path c fs = (fs', None)"
  shows "loadCredential fileOwner False uid path fs' =
           (case fileOwner path of None \<Rightarrow> Inr c
            | Some owner \<Rightarrow> if owner = uid then Inr c else Inl (WrongOwner owner)) \<and>
         (\<exists>data. fs' = fs(path \<mapsto> (data, credentialFileMode)))"
proof -
  obtain states errs where w: "atomic_write (sv_faults e) (sv_tmp e) path (c @ ''\<newline>'')
      credentialFileMode fs = (states, errs)" by (rule prod.exhaust)
  have "errs = []" and "fs' = last states"
    using assms(4) w by (auto simp: SaveCredential_def split: if_splits)
  with atomic_write_result [OF w assms(2,3)]
  have fs': "fs' = fs(path \<mapsto> (c @ ''\<newline>'', credentialFileMode))" by simp
  have "NewCredential (c @ ''\<newline>'') = Some c" by (rule NewCredential_saved [OF assms(1)])
  with fs' show ?thesis by (auto simp: loadCredential_def split: option.split)
qed

text \<open>
  A machine id is written as it is. One that contains a newline therefore ends its own line and
  starts another: whatever configuration it is part of, an id ending in a line that sets the
  allowlist makes the file read back with that allowlist. (The id comes from the Server's answer
  to the enrolment, and \<open>Validate\<close> does not look at it.)
\<close>

lemma machine_id_injects:
  assumes "printable c" and "cf_run_as_allowed c = []" and "plain_value names"
  shows "Parse (Config_String (c\<lparr>cf_machine_id :=
             cf_machine_id c @ [CHR 0x0A] @ ''run_as_allowed = '' @ names\<rparr>)) =
           Inr (c\<lparr>cf_run_as_allowed := splitList names\<rparr>)"
proof -
  let ?kvs = "[(''server_url'', cf_server_url c), (''machine_id'', cf_machine_id c),
      (''run_as_allowed'', names),
      (''insecure_http'', FormatBool (cf_insecure_http c)), (''log_level'', cf_log_level c),
      (''max_concurrent_runs'', Itoa (cf_max_concurrent_runs c)),
      (''max_timeout_seconds'', Itoa (cf_max_timeout_seconds c)),
      (''max_output_bytes'', Itoa (cf_max_output_bytes c))]"
  have str: "Config_String (c\<lparr>cf_machine_id :=
      cf_machine_id c @ [CHR 0x0A] @ ''run_as_allowed = '' @ names\<rparr>) =
      concat (map (\<lambda>(k, v). setting k v) ?kvs)"
    using assms(2) by (simp add: Config_String_def setting_def)
  have parsed: "Parse (concat (map (\<lambda>(k, v). setting k v) ?kvs)) = Inr (config_of (map_of ?kvs))"
  proof (rule Parse_settings)
    show "list_all (\<lambda>(k, v). k \<in> set known_keys \<and> plain_value v) ?kvs"
      using assms by (simp add: printable_def known_keys_def plain_Itoa plain_FormatBool)
    show "list_all good_entry ?kvs"
      using assms by (simp add: good_entry_def known_keys_def printable_def)
  qed simp
  have "config_of (map_of ?kvs) = c\<lparr>cf_run_as_allowed := splitList names\<rparr>"
    using assms by (simp add: config_of_def field_def printable_def)
  then show ?thesis unfolding str parsed by (rule arg_cong)
qed

section \<open>Witnesses\<close>

definition sample_config :: config where
  "sample_config = Default\<lparr>cf_server_url := ''https://omj.example'', cf_machine_id := ''m1'',
     cf_run_as_allowed := [''deploy'', ''www-data'']\<rparr>"

definition sample_save :: save_env where
  "sample_save = \<lparr>sv_tmp = ''/etc/.tmp'', sv_faults = no_faults, sv_mkdir_fails = False\<rparr>"

definition sample_url :: url_parser where
  "sample_url u = (if u = ''https://omj.example'' then Some (''https'', ''omj.example'') else None)"


lemma SaveCredential_load_example:
  "\<exists>fs'. loadCredential (\<lambda>_. Some 7) False 7 ''/etc/c'' fs' = Inr ''omj_agent_x'' \<and>
     loadCredential (\<lambda>_. Some 7) False 8 ''/etc/c'' fs' = Inl (WrongOwner 7)"
proof -
  have new: "NewCredential ''omj_agent_x'' = Some ''omj_agent_x''"
    by (simp add: NewCredential_def TrimSpace_graphic graphic_def HasPrefix_def CredentialPrefix_def)
  obtain fs' where save: "SaveCredential sample_save ''/etc/c'' ''omj_agent_x'' Map.empty = (fs', None)"
    by (simp add: SaveCredential_def credential_is_zero_def sample_save_def atomic_write_def
        no_faults_def Let_def)
  have "sv_tmp sample_save \<noteq> ''/etc/c''" "Map.empty (sv_tmp sample_save) = None"
    by (simp_all add: sample_save_def)
  note use = SaveCredential_load [OF new this save, of "\<lambda>_. Some 7"]
  from use [of 7] use [of 8] show ?thesis by auto
qed

end
