(* ===== verification/Client_Errors.thy ===== *)
theory Client_Errors
  imports Complex_Main Protocol
begin

text \<open>
  \<open>internal/client/errors.go\<close> and \<open>backoff.go\<close>: what an error of the protocol client means, and how
  long to wait before the next attempt. A Go error is a tree: \<open>errors.As\<close> and \<open>errors.Is\<close> search it
  in pre-order. \<open>NetError\<close> is any error that implements \<open>net.Error\<close> (a \<open>*url.Error\<close>, a timeout, a
  failed dial), with the error it wraps, if any.
\<close>

section \<open>Errors\<close>

record api_error =
  ap_status :: int
  ap_code :: error_code
  ap_message :: string
  ap_retryable :: bool
  ap_retry_after :: duration
  ap_errors :: "(string \<times> string list) list"
  ap_supported :: "int list"
  ap_min_agent_version :: string

datatype gerror =
    APIError api_error
  | Canceled | DeadlineExceeded | ErrEOF | ErrUnexpectedEOF | ErrResponseTooLarge | ErrNoCredential
  | Message string
  | NetError "gerror option"
  | Wrap string gerror
  | JoinErrors "gerror list"

fun error_nodes :: "gerror \<Rightarrow> gerror list" where
  "error_nodes (NetError (Some e)) = NetError (Some e) # error_nodes e"
| "error_nodes (Wrap m e) = Wrap m e # error_nodes e"
| "error_nodes (JoinErrors es) = JoinErrors es # concat (map error_nodes es)"
| "error_nodes e = [e]"

definition errors_Is :: "gerror \<Rightarrow> gerror \<Rightarrow> bool" where
  "errors_Is e target \<longleftrightarrow> target \<in> set (error_nodes e)"

text \<open>\<open>context.DeadlineExceeded\<close> implements \<open>net.Error\<close>; \<open>context.Canceled\<close> does not.\<close>

fun is_net_error :: "gerror \<Rightarrow> bool" where
  "is_net_error (NetError _) = True"
| "is_net_error DeadlineExceeded = True"
| "is_net_error _ = False"

fun api_of :: "gerror \<Rightarrow> api_error option" where
  "api_of (APIError a) = Some a"
| "api_of _ = None"

definition newAPIError :: "int \<Rightarrow> error_response \<Rightarrow> duration \<Rightarrow> api_error" where
  "newAPIError status body retry_after =
     \<lparr>ap_status = status, ap_code = er_error body, ap_message = er_message body,
      ap_retryable = (status \<ge> 500 \<or> status = 429), ap_retry_after = retry_after,
      ap_errors = er_errors body, ap_supported = er_supported body,
      ap_min_agent_version = er_min_agent_version body\<rparr>"

text \<open>\<open>APIError.Error\<close>; \<open>status_text\<close> is \<open>http.StatusText\<close>, \<open>itoa\<close> prints a status.\<close>

definition APIError_Error :: "(int \<Rightarrow> string) \<Rightarrow> (int \<Rightarrow> string) \<Rightarrow> api_error \<Rightarrow> string" where
  "APIError_Error itoa status_text e =
     (if ap_code e = [] then ''server answered '' @ itoa (ap_status e) @ '' '' @ status_text (ap_status e)
      else ''server answered '' @ itoa (ap_status e) @ '' '' @ ap_code e @ '': '' @ ap_message e)"

definition asAPIError :: "gerror \<Rightarrow> api_error option" where
  "asAPIError e = (case List.map_filter api_of (error_nodes e) of [] \<Rightarrow> None | a # as \<Rightarrow> Some a)"

definition has_status :: "int \<Rightarrow> gerror \<Rightarrow> bool" where
  "has_status s e = (case asAPIError e of None \<Rightarrow> False | Some a \<Rightarrow> ap_status a = s)"

definition IsUnauthorized :: "gerror \<Rightarrow> bool" where "IsUnauthorized e = has_status 401 e"
definition IsUnsupportedProtocol :: "gerror \<Rightarrow> bool" where "IsUnsupportedProtocol e = has_status 426 e"
definition IsNotFound :: "gerror \<Rightarrow> bool" where "IsNotFound e = has_status 404 e"
definition IsPayloadTooLarge :: "gerror \<Rightarrow> bool" where "IsPayloadTooLarge e = has_status 413 e"
definition IsThrottled :: "gerror \<Rightarrow> bool" where "IsThrottled e = has_status 429 e"

definition IsConflict :: "gerror \<Rightarrow> error_code \<Rightarrow> bool" where
  "IsConflict e code =
     (case asAPIError e of None \<Rightarrow> False | Some a \<Rightarrow> ap_status a = 409 \<and> ap_code a = code)"

definition IsRetryable :: "gerror \<Rightarrow> bool" where
  "IsRetryable e =
     (case asAPIError e of
        Some a \<Rightarrow> ap_retryable a
      | None \<Rightarrow>
          if errors_Is e Canceled \<or> errors_Is e ErrResponseTooLarge \<or> errors_Is e ErrNoCredential
          then False
          else list_ex is_net_error (error_nodes e) \<or> errors_Is e ErrUnexpectedEOF \<or> errors_Is e ErrEOF)"

definition RetryAfter :: "gerror \<Rightarrow> duration" where
  "RetryAfter e = (case asAPIError e of None \<Rightarrow> 0 | Some a \<Rightarrow> ap_retry_after a)"

lemma asAPIError_simps [simp]:
  "asAPIError (APIError a) = Some a" "asAPIError (Wrap m e) = asAPIError e"
  "asAPIError (NetError (Some e)) = asAPIError e" "asAPIError (NetError None) = None"
  "asAPIError Canceled = None" "asAPIError DeadlineExceeded = None" "asAPIError ErrEOF = None"
  "asAPIError ErrUnexpectedEOF = None" "asAPIError ErrResponseTooLarge = None"
  "asAPIError ErrNoCredential = None" "asAPIError (Message m) = None"
  by (simp_all add: asAPIError_def List.map_filter_simps)

lemma map_filter_append: "List.map_filter f (xs @ ys) = List.map_filter f xs @ List.map_filter f ys"
  by (simp add: List.map_filter_def)

lemma asAPIError_Join [simp]:
  "asAPIError (JoinErrors []) = None"
  "asAPIError (JoinErrors (e # es)) =
     (case asAPIError e of None \<Rightarrow> asAPIError (JoinErrors es) | Some a \<Rightarrow> Some a)"
  by (simp_all add: asAPIError_def List.map_filter_simps map_filter_append split: list.split)

lemma errors_Is_Wrap [simp]: "\<not> (\<exists>m' e'. t = Wrap m' e') \<Longrightarrow> errors_Is (Wrap m e) t = errors_Is e t"
  by (auto simp: errors_Is_def)

lemma IsRetryable_Wrap [simp]: "IsRetryable (Wrap m e) = IsRetryable e"
  by (simp add: IsRetryable_def split: option.split)

lemma RetryAfter_Wrap [simp]: "RetryAfter (Wrap m e) = RetryAfter e"
  by (simp add: RetryAfter_def)

lemma has_status_Wrap [simp]: "has_status s (Wrap m e) = has_status s e"
  by (simp add: has_status_def)

section \<open>Backoff\<close>

definition BackoffMin :: duration where "BackoffMin = second"
definition BackoffMax :: duration where "BackoffMax = 60 * second"
definition BackoffFactor :: real where "BackoffFactor = 2"
definition BackoffJitter :: real where "BackoffJitter = 1 / 5"
definition AuthRetryInterval :: duration where "AuthRetryInterval = 5 * minute"

record backoff =
  bo_min :: duration
  bo_max :: duration
  bo_factor :: real
  bo_jitter :: real
  bo_attempt :: nat

definition new_backoff :: backoff where
  "new_backoff = \<lparr>bo_min = 0, bo_max = 0, bo_factor = 0, bo_jitter = 0, bo_attempt = 0\<rparr>"

definition settings :: "backoff \<Rightarrow> duration \<times> duration \<times> real \<times> real" where
  "settings b =
     (if bo_min b \<le> 0 then BackoffMin else bo_min b,
      if bo_max b \<le> 0 then BackoffMax else bo_max b,
      if bo_factor b \<le> 0 then BackoffFactor else bo_factor b,
      if bo_jitter b \<le> 0 then BackoffJitter else bo_jitter b)"

text \<open>
  \<open>Backoff.Next\<close>. The arithmetic is on \<open>float64\<close>: \<open>fl\<close> rounds the exact result of each operation.
  \<open>random\<close> is what \<open>Rand\<close> returned, and the conversion to a duration truncates.
\<close>

definition trunc :: "real \<Rightarrow> int" where
  "trunc x = (if 0 \<le> x then \<lfloor>x\<rfloor> else \<lceil>x\<rceil>)"

definition Next :: "(real \<Rightarrow> real) \<Rightarrow> real \<Rightarrow> backoff \<Rightarrow> duration \<times> backoff" where
  "Next fl random b =
     (case settings b of (minimum, maximum, factor, jitter) \<Rightarrow>
        let base = fl (fl (of_int minimum) * fl (factor ^ bo_attempt b));
            over = base > fl (of_int maximum);
            base' = (if over then fl (of_int maximum) else base);
            b' = (if over then b else b\<lparr>bo_attempt := bo_attempt b + 1\<rparr>)
        in (trunc (fl (base' * fl (1 + fl (fl jitter * fl (fl (2 * random) - 1))))), b'))"

definition Reset_backoff :: "backoff \<Rightarrow> backoff" where
  "Reset_backoff b = b\<lparr>bo_attempt := 0\<rparr>"

section \<open>Bounds on the delay\<close>

text \<open>Each \<open>float64\<close> operation is accurate to one unit in the last place.\<close>

definition accurate :: "(real \<Rightarrow> real) \<Rightarrow> bool" where
  "accurate fl \<longleftrightarrow> (\<forall>x. \<bar>fl x - x\<bar> \<le> \<bar>x\<bar> / 2 ^ 52)"

definition nominal :: "nat \<Rightarrow> duration" where
  "nominal k = min (2 ^ k * second) BackoffMax"

definition default_backoff :: "backoff \<Rightarrow> bool" where
  "default_backoff b \<longleftrightarrow> bo_min b \<le> 0 \<and> bo_max b \<le> 0 \<and> bo_factor b \<le> 0 \<and> bo_jitter b \<le> 0 \<and> bo_attempt b \<le> 6"

lemma accurateD: "accurate fl \<Longrightarrow> \<bar>fl x - x\<bar> \<le> \<bar>x\<bar> / 4503599627370496"
  unfolding accurate_def by simp

lemma accurate_between:
  assumes "accurate fl" and "0 \<le> a" and "a \<le> x" and "x \<le> b"
  shows "a - b / 4503599627370496 \<le> fl x" and "fl x \<le> b + b / 4503599627370496"
proof -
  have "\<bar>fl x - x\<bar> \<le> b / 4503599627370496"
    using accurateD [OF assms(1), of x] assms(2-4) by simp
  then show "a - b / 4503599627370496 \<le> fl x" and "fl x \<le> b + b / 4503599627370496"
    using assms(3,4) unfolding abs_le_iff by linarith+
qed

lemma accurate_abs:
  assumes "accurate fl" and "\<bar>x\<bar> \<le> c"
  shows "\<bar>fl x\<bar> \<le> c + c / 4503599627370496"
  using accurateD [OF assms(1), of x] assms(2) by linarith

lemma jitter_bounds:
  assumes fl: "accurate fl" and r: "0 \<le> r" "r < 1"
  shows "8/10 - 1 / 10 ^ 13 \<le> fl (1 + fl (fl (1/5) * fl (fl (2 * r) - 1)))"
    and "fl (1 + fl (fl (1/5) * fl (fl (2 * r) - 1))) \<le> 12/10 + 1 / 10 ^ 13"
proof -
  let ?s = "fl (2 * r)" and ?t = "fl (fl (2 * r) - 1)" and ?j = "fl (1/5)"
  have s: "- 1 / 10 ^ 15 \<le> ?s" "?s \<le> 2 + 1 / 10 ^ 15"
    using accurate_between [OF fl, of 0 "2 * r" 2] r by simp_all
  have "\<bar>?s - 1\<bar> \<le> 1 + 1 / 10 ^ 15" unfolding abs_le_iff using s by (auto simp: field_simps)
  then have t: "\<bar>?t\<bar> \<le> 1 + 2 / 10 ^ 15"
    using accurate_abs [OF fl, of "?s - 1" "1 + 1 / 10 ^ 15"] by simp
  have j: "\<bar>?j\<bar> \<le> 1/5 + 1 / 10 ^ 15"
    using accurate_between [OF fl, of "1/5" "1/5" "1/5"] by (simp add: abs_le_iff)
  have "\<bar>?j * ?t\<bar> \<le> (1/5 + 1 / 10 ^ 15) * (1 + 2 / 10 ^ 15)"
    unfolding abs_mult by (rule mult_mono [OF j t]) simp_all
  then have jt: "\<bar>?j * ?t\<bar> \<le> 1/5 + 2 / 10 ^ 15" by simp
  then have w: "\<bar>fl (?j * ?t)\<bar> \<le> 1/5 + 3 / 10 ^ 15"
    using accurate_abs [OF fl, of "?j * ?t" "1/5 + 2 / 10 ^ 15"] by simp
  then have "8/10 - 3 / 10 ^ 15 \<le> 1 + fl (?j * ?t)" "1 + fl (?j * ?t) \<le> 12/10 + 3 / 10 ^ 15"
    by (simp_all add: abs_le_iff)
  with accurate_between [OF fl, of "8/10 - 3 / 10 ^ 15" "1 + fl (?j * ?t)" "12/10 + 3 / 10 ^ 15"]
  show "8/10 - 1 / 10 ^ 13 \<le> fl (1 + fl (?j * ?t))"
    and "fl (1 + fl (?j * ?t)) \<le> 12/10 + 1 / 10 ^ 13"
    by simp_all
qed

lemma base_bounds:
  assumes fl: "accurate fl"
  shows "2 ^ k * 10 ^ 9 * (1 - 1 / 10 ^ 15) \<le> fl (fl (10 ^ 9) * fl (2 ^ k))"
    and "fl (fl (10 ^ 9) * fl (2 ^ k)) \<le> 2 ^ k * 10 ^ 9 * (1 + 1 / 10 ^ 15)"
proof -
  let ?e = "1 / 4503599627370496 :: real"
  have m: "10 ^ 9 * (1 - ?e) \<le> fl (10 ^ 9)" "fl (10 ^ 9) \<le> 10 ^ 9 * (1 + ?e)"
    using accurate_between [OF fl, of "10 ^ 9" "10 ^ 9" "10 ^ 9"] by simp_all
  have p: "2 ^ k * (1 - ?e) \<le> fl (2 ^ k)" "fl (2 ^ k) \<le> 2 ^ k * (1 + ?e)"
    using accurate_between [OF fl, of "2 ^ k" "2 ^ k" "2 ^ k"] by (simp_all add: algebra_simps)
  have lo: "(10 ^ 9 * (1 - ?e)) * (2 ^ k * (1 - ?e)) \<le> fl (10 ^ 9) * fl (2 ^ k)"
    by (rule mult_mono) (use m p in \<open>auto intro: order_trans [rotated]\<close>)
  have hi: "fl (10 ^ 9) * fl (2 ^ k) \<le> (10 ^ 9 * (1 + ?e)) * (2 ^ k * (1 + ?e))"
    by (rule mult_mono) (use m p in \<open>auto intro: order_trans [rotated]\<close>)
  show "2 ^ k * 10 ^ 9 * (1 - 1 / 10 ^ 15) \<le> fl (fl (10 ^ 9) * fl (2 ^ k))"
    and "fl (fl (10 ^ 9) * fl (2 ^ k)) \<le> 2 ^ k * 10 ^ 9 * (1 + 1 / 10 ^ 15)"
    using accurate_between [OF fl _ lo hi] by (simp_all add: algebra_simps)
qed

lemma settings_default:
  "default_backoff b \<Longrightarrow> settings b = (BackoffMin, BackoffMax, BackoffFactor, BackoffJitter)"
  by (simp add: settings_def default_backoff_def)

lemma trunc_bounds:
  assumes "4 * n / 5 - 1/2 \<le> x" and "x \<le> 6 * n / 5 + 1/2" and "0 \<le> x" and "n = real_of_int (5 * q)"
  shows "4 * q - 1 \<le> trunc x \<and> trunc x \<le> 6 * q"
proof -
  have "4 * q - 1 \<le> \<lfloor>x\<rfloor>" using assms by (simp add: le_floor_iff)
  moreover have "\<lfloor>x\<rfloor> \<le> 6 * q" using assms by (simp add: floor_le_iff)
  ultimately show ?thesis using assms(3) by (simp add: trunc_def)
qed

text \<open>The delay before jitter, and what jitter makes of it.\<close>

lemma product_bounds:
  assumes fl: "accurate fl" and n: "0 < n" "n \<le> 6 * 10 ^ 10"
    and base: "n * (1 - 1 / 10 ^ 14) \<le> base" "base \<le> n * (1 + 1 / 10 ^ 14)"
    and jitter: "8/10 - 1 / 10 ^ 13 \<le> j" "j \<le> 12/10 + 1 / 10 ^ 13"
  shows "4 * n / 5 - 1/2 \<le> fl (base * j)" and "fl (base * j) \<le> 6 * n / 5 + 1/2"
    and "0 \<le> fl (base * j)"
proof -
  have lo: "(n * (1 - 1 / 10 ^ 14)) * (8/10 - 1 / 10 ^ 13) \<le> base * j"
    by (rule mult_mono) (use n base jitter in \<open>auto intro: order_trans [rotated]\<close>)
  have hi: "base * j \<le> (n * (1 + 1 / 10 ^ 14)) * (12/10 + 1 / 10 ^ 13)"
    by (rule mult_mono) (use n base jitter in \<open>auto intro: order_trans [rotated]\<close>)
  have "0 \<le> (n * (1 - 1 / 10 ^ 14)) * (8/10 - 1 / 10 ^ 13)" using n by simp
  note b = accurate_between [OF fl this lo hi]
  show "4 * n / 5 - 1/2 \<le> fl (base * j)" and "fl (base * j) \<le> 6 * n / 5 + 1/2"
    and "0 \<le> fl (base * j)"
    using b n by (simp_all add: algebra_simps)
qed

lemma nominal_cases: "k \<le> 6 \<Longrightarrow>
   nominal k = (if k \<le> 5 then 2 ^ k * 1000000000 else 60000000000)"
  by (auto simp: nominal_def BackoffMax_def second_def min_def le_Suc_eq eval_nat_numeral)

lemma Next_default:
  assumes fl: "accurate fl" and r: "0 \<le> r" "r < 1" and b: "default_backoff b"
    and k: "bo_attempt b = k" and nx: "Next fl r b = (d, b')"
  shows "b' = b\<lparr>bo_attempt := min 6 (Suc k)\<rparr> \<and> 4 * nominal k div 5 - 1 \<le> d \<and> d \<le> 6 * nominal k div 5"
proof -
  have k6: "k \<le> 6" using b k by (simp add: default_backoff_def)
  let ?base = "fl (fl (10 ^ 9) * fl (2 ^ k))"
  let ?max = "fl (60 * 10 ^ 9)"
  let ?j = "fl (1 + fl (fl (1/5) * fl (fl (2 * r) - 1)))"
  have max: "60 * 10 ^ 9 * (1 - 1 / 10 ^ 15) \<le> ?max" "?max \<le> 60 * 10 ^ 9 * (1 + 1 / 10 ^ 15)"
    using accurate_between [OF fl, of "60 * 10 ^ 9" "60 * 10 ^ 9" "60 * 10 ^ 9"] by simp_all
  have over: "?base > ?max \<longleftrightarrow> k = 6"
  proof (cases "k = 6")
    case True
    with base_bounds [OF fl, of 6] max show ?thesis by simp
  next
    case False
    then have "(2::real) ^ k \<le> 2 ^ 5" using k6 by (intro power_increasing) simp_all
    then have "(2::real) ^ k * 10 ^ 9 * (1 + 1 / 10 ^ 15) \<le> 2 ^ 5 * 10 ^ 9 * (1 + 1 / 10 ^ 15)"
      by (intro mult_right_mono) simp_all
    with base_bounds(2) [OF fl, of k] have "?base \<le> 2 ^ 5 * 10 ^ 9 * (1 + 1 / 10 ^ 15)" by linarith
    with max(1) have "?base \<le> ?max" by simp
    with False show ?thesis by simp
  qed
  have next_eq: "d = trunc (fl ((if k = 6 then ?max else ?base) * ?j))"
    "b' = (if k = 6 then b else b\<lparr>bo_attempt := Suc k\<rparr>)"
    using nx over k
    by (auto simp: Next_def settings_default [OF b] BackoffMin_def BackoffMax_def second_def
        BackoffFactor_def BackoffJitter_def Let_def)
  define n where "n = real_of_int (nominal k)"
  have n: "0 < n" "n \<le> 6 * 10 ^ 10"
    using k6 by (auto simp: n_def nominal_def BackoffMax_def second_def min_def)
  have near: "n * (1 - 1 / 10 ^ 14) \<le> (if k = 6 then ?max else ?base)"
    "(if k = 6 then ?max else ?base) \<le> n * (1 + 1 / 10 ^ 14)"
    using base_bounds [OF fl, of k] max k6 by (auto simp: n_def nominal_cases)
  obtain q where q: "nominal k = 5 * q"
  proof (cases "k = 6")
    case True
    with that [of 12000000000] show thesis by (simp add: nominal_cases)
  next
    case False
    with that [of "2 ^ k * 200000000"] k6 show thesis by (simp add: nominal_cases)
  qed
  have "4 * q - 1 \<le> d \<and> d \<le> 6 * q"
    unfolding next_eq(1)
    by (rule trunc_bounds [OF product_bounds [OF fl n near jitter_bounds [OF fl r]]])
      (simp add: n_def q)
  moreover have "b' = b\<lparr>bo_attempt := min 6 (Suc k)\<rparr>"
    using next_eq(2) k6 k by (auto simp: min_def)
  ultimately show ?thesis using q by simp
qed

section \<open>Retrying\<close>

text \<open>
  \<open>Retry\<close>. The operation, the random source and the sleep act on a world of any type; a loop that
  never ends (the operation fails for ever) has the value \<open>None\<close>.
\<close>

partial_function (option) Retry ::
  "(real \<Rightarrow> real) \<Rightarrow> ('s \<Rightarrow> gerror option \<times> 's) \<Rightarrow> ('s \<Rightarrow> real \<times> 's) \<Rightarrow>
   (duration \<Rightarrow> 's \<Rightarrow> gerror option \<times> 's) \<Rightarrow> backoff \<Rightarrow> 's \<Rightarrow> (gerror option \<times> backoff \<times> 's) option" where
  "Retry fl op random sleep b w =
     (case op w of
        (None, w1) \<Rightarrow> Some (None, Reset_backoff b, w1)
      | (Some err, w1) \<Rightarrow>
          if \<not> IsRetryable err then Some (Some err, b, w1)
          else (case random w1 of (r, w2) \<Rightarrow>
                (case Next fl r b of (delay, b') \<Rightarrow>
                (case sleep (if RetryAfter err > delay then RetryAfter err else delay) w2 of
                   (Some sleepErr, w3) \<Rightarrow> Some (Some (JoinErrors [sleepErr, err]), b', w3)
                 | (None, w3) \<Rightarrow> Retry fl op random sleep b' w3))))"

text \<open>What the operation, the random source and the sleep keep, \<open>Retry\<close> keeps.\<close>

lemma Retry_keeps:
  assumes "Retry fl op random sleep b w = Some res" and "I w"
    and op: "\<And>w. I w \<Longrightarrow> I (snd (op w))" and rnd: "\<And>w. I w \<Longrightarrow> I (snd (random w))"
    and slp: "\<And>d w. I w \<Longrightarrow> I (snd (sleep d w))"
  shows "I (snd (snd res))"
  using assms
proof (induction rule: Retry.raw_induct [rotated 1, consumes 1])
  case (1 RR fl op random sleep b w res)
  obtain err w1 where op: "op w = (err, w1)" by (rule prod.exhaust)
  with 1 have w1: "I w1" by (metis snd_conv)
  show ?case
  proof (cases err)
    case None
    with 1(2) op w1 show ?thesis by auto
  next
    case (Some e1)
    obtain r w2 where rnd: "random w1 = (r, w2)" by (rule prod.exhaust)
    obtain d b1 where nx: "Next fl r b = (d, b1)" by (rule prod.exhaust)
    obtain x w3 where slp: "sleep (if RetryAfter e1 > d then RetryAfter e1 else d) w2 = (x, w3)" by (rule prod.exhaust)
    have w3: "I w3" using 1(4-6) w1 rnd slp by (metis snd_conv)
    show ?thesis
    proof (cases "IsRetryable e1 \<and> x = None")
      case False
      with 1(2) op Some rnd nx slp w1 w3 show ?thesis by (auto split: if_splits)
    next
      case True
      with 1(2) op Some rnd nx slp have "RR fl op random sleep b1 w3 = Some res" by simp
      from 1(1) [OF this w3] 1(4-6) show ?thesis by blast
    qed
  qed
qed

text \<open>An operation that fails for now only so often is retried only so often.\<close>

lemma Retry_returns:
  assumes op: "\<And>w e. fst (op w) = Some e \<Longrightarrow> IsRetryable e \<Longrightarrow> fuel (snd (op w)) < (fuel w :: nat)"
    and rnd: "\<And>w. fuel (snd (random w)) \<le> fuel w" and slp: "\<And>d w. fuel (snd (sleep d w)) \<le> fuel w"
  shows "\<exists>res. Retry fl op random sleep b w = Some res"
proof (induction "fuel w" arbitrary: b w rule: less_induct)
  case less
  obtain err w1 where o: "op w = (err, w1)" by (rule prod.exhaust)
  show ?case
  proof (cases err)
    case None
    with o show ?thesis by (subst Retry.simps) simp
  next
    case (Some e)
    obtain r w2 where r: "random w1 = (r, w2)" by (rule prod.exhaust)
    obtain d b1 where n: "Next fl r b = (d, b1)" by (rule prod.exhaust)
    obtain x w3 where s: "sleep (if RetryAfter e > d then RetryAfter e else d) w2 = (x, w3)" by (rule prod.exhaust)
    show ?thesis
    proof (cases "IsRetryable e \<and> x = None")
      case False
      with o Some r n s show ?thesis by (subst Retry.simps) (auto split: option.splits)
    next
      case True
      have "fuel w3 \<le> fuel w2" "fuel w2 \<le> fuel w1"
        using slp [of "if RetryAfter e > d then RetryAfter e else d" w2] rnd [of w1] r s by simp_all
      moreover have "fuel w1 < fuel w" using op [of w e] o Some True by simp
      ultimately have "fuel w3 < fuel w" by linarith
      from less [OF this, of b1] True o Some r n s show ?thesis by (subst Retry.simps) simp
    qed
  qed
qed

definition final_answer :: "gerror option \<Rightarrow> bool" where
  "final_answer y \<longleftrightarrow> (case y of None \<Rightarrow> True | Some e \<Rightarrow> \<not> IsRetryable e)"

text \<open>A world that answers from a script and writes the delays down.\<close>

type_synonym script = "gerror option list \<times> duration list"

definition script_op :: "script \<Rightarrow> gerror option \<times> script" where
  "script_op w = (hd (fst w), (tl (fst w), snd w))"

definition script_sleep :: "duration \<Rightarrow> script \<Rightarrow> gerror option \<times> script" where
  "script_sleep d w = (None, (fst w, snd w @ [d]))"

definition delay_ok :: "nat \<Rightarrow> gerror \<Rightarrow> duration \<Rightarrow> bool" where
  "delay_ok k e d \<longleftrightarrow> RetryAfter e \<le> d \<and> 4 * nominal (min 6 k) div 5 - 1 \<le> d \<and>
     (d \<le> 6 * nominal (min 6 k) div 5 \<or> d = RetryAfter e)"

lemma script_facts [simp]:
  "script_op (a # as, ds) = (a, (as, ds))" "script_sleep d (as, ds) = (None, (as, ds @ [d]))"
  by (simp_all add: script_op_def script_sleep_def)

lemma Retry_script:
  assumes fl: "accurate fl" and rnd: "\<And>w. 0 \<le> rnd w \<and> rnd w < 1"
    and "list_all IsRetryable es" and "final_answer y" and "default_backoff b"
  shows "\<exists>b' ds. Retry fl script_op (\<lambda>w. (rnd w, w)) script_sleep b (map Some es @ y # ys, trail) =
      Some (y, b', ys, trail @ ds) \<and> length ds = length es \<and>
      (\<forall>i < length es. delay_ok (bo_attempt b + i) (es ! i) (ds ! i)) \<and>
      (y = None \<longrightarrow> bo_attempt b' = 0)"
  using assms(3,5)
proof (induction es arbitrary: b trail)
  case Nil
  have "Retry fl script_op (\<lambda>w. (rnd w, w)) script_sleep b (y # ys, trail) =
      Some (y, (if y = None then Reset_backoff b else b), ys, trail)"
    using assms(4) by (subst Retry.simps) (cases y; simp add: final_answer_def)
  then show ?case by (simp add: Reset_backoff_def)
next
  case (Cons e es)
  let ?w = "(map Some es @ y # ys, trail)"
  obtain d b1 where nx: "Next fl (rnd ?w) b = (d, b1)" by (metis prod.exhaust)
  note bounds = Next_default [OF fl _ _ Cons.prems(2) refl nx]
  have r: "0 \<le> rnd ?w" "rnd ?w < 1" using rnd by blast+
  have b1: "b1 = b\<lparr>bo_attempt := min 6 (Suc (bo_attempt b))\<rparr>" using bounds [OF r] by blast
  then have d1: "default_backoff b1" using Cons.prems(2) by (simp add: default_backoff_def)
  let ?d = "max d (RetryAfter e)"
  obtain b' ds where IH: "Retry fl script_op (\<lambda>w. (rnd w, w)) script_sleep b1
      (map Some es @ y # ys, trail @ [?d]) = Some (y, b', ys, (trail @ [?d]) @ ds)"
    and len: "length ds = length es"
    and ok: "\<forall>i < length es. delay_ok (bo_attempt b1 + i) (es ! i) (ds ! i)"
    and fin: "y = None \<longrightarrow> bo_attempt b' = 0"
    using Cons.IH [OF _ d1, of "trail @ [?d]"] Cons.prems(1) by auto
  have "(if RetryAfter e > d then RetryAfter e else d) = ?d" by auto
  then have "Retry fl script_op (\<lambda>w. (rnd w, w)) script_sleep b (map Some (e # es) @ y # ys, trail) =
      Some (y, b', ys, trail @ (?d # ds))"
    using Cons.prems(1) nx IH by (subst Retry.simps) simp
  moreover have "delay_ok (bo_attempt b + i) ((e # es) ! i) ((?d # ds) ! i)" if "i < length (e # es)" for i
  proof (cases i)
    case 0
    have "min 6 (bo_attempt b) = bo_attempt b" using Cons.prems(2) by (simp add: default_backoff_def)
    with 0 bounds [OF r] show ?thesis by (auto simp: delay_ok_def)
  next
    case (Suc j)
    then have "delay_ok (bo_attempt b1 + j) (es ! j) (ds ! j)" using ok that by simp
    moreover have "min 6 (bo_attempt b1 + j) = min 6 (bo_attempt b + i)"
      using b1 Suc by simp
    ultimately show ?thesis using Suc by (simp add: delay_ok_def)
  qed
  ultimately show ?case using len fin by (intro exI [of _ b'] exI [of _ "?d # ds"]) simp
qed

section \<open>Properties\<close>

text \<open>The delay before attempt number k is one second doubled k times, at most 60 seconds, up to a
  fifth shorter or longer by chance; the counter stops growing at 6, so it never overflows. (Stated
  for the settings the agent uses; every float64 operation is only assumed accurate to one unit in
  the last place.)\<close>

lemma Next_bounds:
  assumes "accurate fl" and "0 \<le> random" and "random < 1" and "default_backoff b"
  shows "\<exists>d b'. Next fl random b = (d, b') \<and> default_backoff b' \<and>
    bo_attempt b' = min 6 (Suc (bo_attempt b)) \<and>
    4 * min (2 ^ bo_attempt b * second) (60 * second) div 5 - 1 \<le> d \<and>
    d \<le> 6 * min (2 ^ bo_attempt b * second) (60 * second) div 5"
proof -
  obtain d b' where nx: "Next fl random b = (d, b')" by (metis prod.exhaust)
  from Next_default [OF assms refl nx] assms(4) nx show ?thesis
    by (auto simp: nominal_def BackoffMax_def default_backoff_def)
qed

text \<open>C30: \<open>Retry\<close> returns as soon as the operation succeeds or fails for good: after any number of
  retryable failures it calls the operation once more for each, returns that last answer and asks
  for nothing further; each wait is at least the \<open>Retry-After\<close> of the failure and at least the
  backoff, and exceeds the backoff only for the \<open>Retry-After\<close>; and a success resets the backoff.\<close>

theorem Retry_spec:
  assumes "accurate fl" and "\<And>w. 0 \<le> rnd w \<and> rnd w < 1" and "default_backoff b"
    and "list_all IsRetryable es" and "final_answer y"
  shows "\<exists>b' ds. Retry fl script_op (\<lambda>w. (rnd w, w)) script_sleep b (map Some es @ y # ys, []) =
      Some (y, b', ys, ds) \<and> length ds = length es \<and>
      (\<forall>i < length es. delay_ok (bo_attempt b + i) (es ! i) (ds ! i)) \<and>
      (y = None \<longrightarrow> bo_attempt b' = 0)"
  using Retry_script [OF assms(1,2,4,5,3), where ys = ys and trail = "[]"] by simp

section \<open>Witnesses\<close>

lemma accurate_id: "accurate (\<lambda>x. x)"
  by (simp add: accurate_def)

lemma default_new: "default_backoff new_backoff"
  by (simp add: default_backoff_def new_backoff_def)

lemma Next_bounds_example:
  "\<exists>d b'. Next (\<lambda>x. x) (1/2) (new_backoff\<lparr>bo_attempt := 3\<rparr>) = (d, b') \<and> bo_attempt b' = 4 \<and>
     6399999999 \<le> d \<and> d \<le> 9600000000"
  using Next_bounds [OF accurate_id, of "1/2" "new_backoff\<lparr>bo_attempt := 3\<rparr>"]
  by (auto simp: second_def default_backoff_def new_backoff_def)

theorem Retry_spec_witness:
  "\<exists>b' d1 d2. Retry (\<lambda>x. x) script_op (\<lambda>w. (1/2, w)) script_sleep new_backoff
     ([Some ErrEOF, Some (NetError None), Some Canceled, None], []) = Some (Some Canceled, b', [None], [d1, d2])"
proof -
  have "list_all IsRetryable [ErrEOF, NetError None]" and "final_answer (Some Canceled)"
    by (simp_all add: IsRetryable_def final_answer_def errors_Is_def)
  from Retry_spec [OF accurate_id _ default_new this, where rnd = "\<lambda>_. 1/2" and ys = "[None]"]
  show ?thesis by (auto simp: length_Suc_conv eval_nat_numeral)
qed

end
