(* ===== verification/Client_Call.thy ===== *)
theory Client_Call
  imports Client_Errors Go_Strings Config
begin

text \<open>
  \<open>internal/client/client.go\<close>: one call of the Server's API. The HTTP exchange is a parameter: it
  yields an error or a response, whose body is the bytes of the stream and the error that ends it,
  if any. JSON is a pair of functions per message, as is \<open>http.ParseTime\<close> for dates.
\<close>

section \<open>Data\<close>

definition DefaultTimeout :: duration where "DefaultTimeout = 30 * second"
definition LongPollHeadroom :: duration where "LongPollHeadroom = 10 * second"
definition MaxResponseBytes :: nat where "MaxResponseBytes = 1048576"
definition BasePath :: string where "BasePath = ''/api/agent/v1''"
definition ProtocolVersion :: int where "ProtocolVersion = 1"

record client =
  cl_base_url :: string
  cl_credential :: credential
  cl_agent_version :: string
  cl_user_agent :: string
  cl_timeout :: duration
  cl_headroom :: duration
  cl_server_version :: string

record http_request =
  hq_method :: string
  hq_url :: string
  hq_headers :: "(string \<times> string) list"
  hq_body :: "string option"
  hq_timeout :: duration

record http_response =
  hp_status :: int
  hp_server_version :: string
  hp_retry_after :: string
  hp_body :: string
  hp_read_error :: "gerror option"

record web =
  wb_exchange :: "http_request \<Rightarrow> gerror + http_response"
  wb_bad_url :: "string \<Rightarrow> gerror option"
  wb_error_body :: "string \<Rightarrow> error_response option"
  wb_parse_time :: "string \<Rightarrow> time option"
  wb_now :: time

text \<open>\<open>url.PathEscape\<close>.\<close>

definition unreserved :: "char \<Rightarrow> bool" where
  "unreserved c \<longleftrightarrow> of_char c \<in> ({48..57} \<union> {65..90} \<union> {97..122} :: nat set) \<or> c \<in> set ''-_.~$&+=:@''"

definition hex_digit :: "nat \<Rightarrow> char" where
  "hex_digit n = (if n < 10 then char_of (48 + n) else char_of (55 + n))"

definition escape_char :: "char \<Rightarrow> string" where
  "escape_char c = (if unreserved c then [c]
     else [CHR ''%'', hex_digit (of_char c div 16), hex_digit (of_char c mod 16)])"

definition PathEscape :: "string \<Rightarrow> string" where
  "PathEscape s = concat (map escape_char s)"

definition runPath :: "string \<Rightarrow> string \<Rightarrow> string" where
  "runPath runID action = ''/runs/'' @ PathEscape runID @ ''/'' @ action"

section \<open>The client\<close>

text \<open>\<open>New\<close>; \<open>strings.TrimRight(url, "/")\<close> drops every slash at the end.\<close>

definition trim_slashes :: "string \<Rightarrow> string" where
  "trim_slashes s = rev (dropWhile (\<lambda>c. c = CHR ''/'') (rev s))"

text \<open>\<open>internal/version\<close>: the user agent, and the override of the protocol version that only builds for the
  end-to-end tests have; \<open>getenv\<close> gives the empty string for a variable that is not set.\<close>

definition UserAgent :: "string \<Rightarrow> string" where
  "UserAgent version = ''omj-agent/'' @ version"

declare UserAgent_def [simp]

definition e2e_ProtocolVersion :: "(string \<Rightarrow> string) \<Rightarrow> int" where
  "e2e_ProtocolVersion getenv =
     (case Atoi (getenv ''OMJ_TEST_PROTOCOL_VERSION'') of
        None \<Rightarrow> ProtocolVersion
      | Some v \<Rightarrow> if v \<le> 0 then ProtocolVersion else v)"

datatype client_error = BadServerURL | NotProtected string | NeedsHTTPS string

definition New_client :: "url_parser \<Rightarrow> string \<Rightarrow> string \<Rightarrow> credential \<Rightarrow> bool \<Rightarrow> duration \<Rightarrow> duration \<Rightarrow>
    client_error + client" where
  "New_client url_parse version server_url credential insecure timeout headroom =
     (case url_parse server_url of
        None \<Rightarrow> Inl BadServerURL
      | Some (scheme, host) \<Rightarrow>
          if scheme = ''https'' \<and> host \<noteq> [] \<or> scheme = ''http'' \<and> host \<noteq> [] \<and> insecure then
            Inr \<lparr>cl_base_url = trim_slashes server_url @ BasePath, cl_credential = credential,
                 cl_agent_version = version, cl_user_agent = UserAgent version,
                 cl_timeout = (if timeout \<le> 0 then DefaultTimeout else timeout),
                 cl_headroom = (if headroom \<le> 0 then LongPollHeadroom else headroom),
                 cl_server_version = []\<rparr>
          else if scheme = ''http'' \<and> host \<noteq> [] then Inl (NotProtected server_url)
          else Inl (NeedsHTTPS server_url))"

text \<open>\<open>readBody\<close>: at most one byte more than the limit is read, so a later error is not seen.\<close>

definition readBody :: "http_response \<Rightarrow> gerror + string" where
  "readBody r =
     (if length (hp_body r) > MaxResponseBytes then Inl ErrResponseTooLarge
      else case hp_read_error r of
        Some e \<Rightarrow> Inl (Wrap ''read response'' e)
      | None \<Rightarrow> Inr (hp_body r))"

text \<open>\<open>retryAfter\<close>: seconds, multiplied in \<open>int64\<close>, or an HTTP date.\<close>

definition saturate :: "int \<Rightarrow> duration" where
  "saturate d = max (- (2 ^ 63)) (min d (2 ^ 63 - 1))"

definition retryAfter :: "web \<Rightarrow> string \<Rightarrow> duration" where
  "retryAfter wb value =
     (if value = [] then 0
      else case Atoi value of
        Some n \<Rightarrow> seconds (max n 0)
      | None \<Rightarrow>
          (case wb_parse_time wb value of
             Some t \<Rightarrow> max (saturate (t - wb_now wb)) 0
           | None \<Rightarrow> 0))"

definition no_code :: "string \<Rightarrow> error_response" where
  "no_code message = \<lparr>er_error = [], er_message = message, er_errors = [], er_supported = [],
     er_min_agent_version = []\<rparr>"

definition decodeError :: "web \<Rightarrow> http_response \<Rightarrow> string \<Rightarrow> api_error" where
  "decodeError wb resp body =
     newAPIError (hp_status resp)
       (case wb_error_body wb body of
          Some parsed \<Rightarrow> if er_error parsed = [] then no_code (TrimSpace body) else parsed
        | None \<Rightarrow> no_code (TrimSpace body))
       (retryAfter wb (hp_retry_after resp))"

definition label :: "string \<Rightarrow> string \<Rightarrow> string" where
  "label verb path = verb @ '' '' @ path"

text \<open>
  \<open>newRequest\<close>. The body is absent (a nil \<open>in\<close>), or what encoding it gave (\<open>None\<close>: an error).
\<close>

definition newRequest :: "web \<Rightarrow> client \<Rightarrow> string \<Rightarrow> string \<Rightarrow> string option option \<Rightarrow> bool \<Rightarrow> duration \<Rightarrow>
    gerror + http_request" where
  "newRequest wb c verb path body authenticated timeout =
     (if body = Some None then Inl (Wrap (label verb path) (Message ''encode request''))
      else case wb_bad_url wb (cl_base_url c @ path) of
        Some e \<Rightarrow> Inl (Wrap (label verb path) e)
      | None \<Rightarrow> Inr
          \<lparr>hq_method = verb, hq_url = cl_base_url c @ path,
           hq_headers =
             [(''Accept'', ''application/json''), (''User-Agent'', cl_user_agent c),
              (''X-OMJ-Protocol-Version'', Itoa ProtocolVersion),
              (''X-OMJ-Agent-Version'', cl_agent_version c)]
             @ (if body \<noteq> None then [(''Content-Type'', ''application/json'')] else [])
             @ (if authenticated then [(''Authorization'', ''Bearer '' @ cl_credential c)] else []),
           hq_body = (case body of None \<Rightarrow> None | Some b \<Rightarrow> b), hq_timeout = timeout\<rparr>)"

definition ServerVersion :: "client \<Rightarrow> string" where
  "ServerVersion c = cl_server_version c"

definition rememberServerVersion :: "string \<Rightarrow> client \<Rightarrow> client" where
  "rememberServerVersion v c = (if v = [] then c else c\<lparr>cl_server_version := v\<rparr>)"

definition call :: "web \<Rightarrow> client \<Rightarrow> string \<Rightarrow> string \<Rightarrow> string option option \<Rightarrow> (string \<Rightarrow> 'b option) \<Rightarrow>
    duration \<Rightarrow> bool \<Rightarrow> client \<times> (gerror + 'b)" where
  "call wb c verb path body decode timeout authenticated =
     (if authenticated \<and> credential_is_zero (cl_credential c) then (c, Inl ErrNoCredential)
      else case newRequest wb c verb path body authenticated timeout of
        Inl e \<Rightarrow> (c, Inl e)
      | Inr req \<Rightarrow>
          (case wb_exchange wb req of
             Inl e \<Rightarrow> (c, Inl (Wrap (label verb path) e))
           | Inr resp \<Rightarrow>
               let c' = rememberServerVersion (hp_server_version resp) c
               in case readBody resp of
                    Inl e \<Rightarrow> (c', Inl (Wrap (label verb path) e))
                  | Inr data \<Rightarrow>
                      if hp_status resp < 200 \<or> hp_status resp \<ge> 300
                      then (c', Inl (Wrap (label verb path) (APIError (decodeError wb resp data))))
                      else (case decode data of
                              None \<Rightarrow> (c', Inl (Wrap (label verb path) (Message ''decode response'')))
                            | Some out \<Rightarrow> (c', Inr out))))"

section \<open>Endpoints\<close>

text \<open>Each takes the encoding of its request and the decoding of its response.\<close>

definition Enroll_call :: "web \<Rightarrow> (enroll_request \<Rightarrow> string option) \<Rightarrow> (string \<Rightarrow> enroll_response option) \<Rightarrow>
    enroll_request \<Rightarrow> client \<Rightarrow> client \<times> (gerror + enroll_response)" where
  "Enroll_call wb enc dec req c =
     call wb c ''POST'' ''/enroll'' (Some (enc req)) dec (cl_timeout c) False"

definition Ping_call :: "web \<Rightarrow> (string \<Rightarrow> ping_response option) \<Rightarrow> client \<Rightarrow> client \<times> (gerror + ping_response)" where
  "Ping_call wb dec c = call wb c ''GET'' ''/ping'' None dec (cl_timeout c) True"

definition Work_call :: "web \<Rightarrow> (work_request \<Rightarrow> string option) \<Rightarrow> (string \<Rightarrow> work_response option) \<Rightarrow>
    work_request \<Rightarrow> client \<Rightarrow> client \<times> (gerror + work_response)" where
  "Work_call wb enc dec req c =
     call wb c ''POST'' ''/work'' (Some (enc req)) dec
       (wrap64 (seconds (wq_wait_seconds req) + cl_headroom c)) True"

definition Discovery_call :: "web \<Rightarrow> (discovery_request \<Rightarrow> string option) \<Rightarrow>
    (string \<Rightarrow> discovery_response option) \<Rightarrow> discovery_request \<Rightarrow> client \<Rightarrow>
    client \<times> (gerror + discovery_response)" where
  "Discovery_call wb enc dec req c =
     call wb c ''POST'' ''/discovery'' (Some (enc req)) dec (cl_timeout c) True"

definition run_call :: "web \<Rightarrow> string \<Rightarrow> string \<Rightarrow> string option \<Rightarrow> (string \<Rightarrow> 'b option) \<Rightarrow> client \<Rightarrow>
    client \<times> (gerror + 'b)" where
  "run_call wb runID action body dec c =
     call wb c ''POST'' (runPath runID action) (Some body) dec (cl_timeout c) True"

definition StartRun :: "web \<Rightarrow> (start_request \<Rightarrow> string option) \<Rightarrow> (string \<Rightarrow> run_status option) \<Rightarrow>
    string \<Rightarrow> start_request \<Rightarrow> client \<Rightarrow> client \<times> (gerror + run_status)" where
  "StartRun wb enc dec runID req = run_call wb runID ''start'' (enc req) dec"

definition AppendOutput :: "web \<Rightarrow> ('chunks \<Rightarrow> string option) \<Rightarrow> (string \<Rightarrow> output_response option) \<Rightarrow>
    string \<Rightarrow> 'chunks \<Rightarrow> client \<Rightarrow> client \<times> (gerror + output_response)" where
  "AppendOutput wb enc dec runID req = run_call wb runID ''output'' (enc req) dec"

definition Heartbeat :: "web \<Rightarrow> (unit \<Rightarrow> string option) \<Rightarrow> (string \<Rightarrow> heartbeat_response option) \<Rightarrow>
    string \<Rightarrow> client \<Rightarrow> client \<times> (gerror + heartbeat_response)" where
  "Heartbeat wb enc dec runID = run_call wb runID ''heartbeat'' (enc ()) dec"

definition FinishRun :: "web \<Rightarrow> (finish_request \<Rightarrow> string option) \<Rightarrow> (string \<Rightarrow> run_status option) \<Rightarrow>
    string \<Rightarrow> finish_request \<Rightarrow> client \<Rightarrow> client \<times> (gerror + run_status)" where
  "FinishRun wb enc dec runID req = run_call wb runID ''finish'' (enc req) dec"

section \<open>Run paths\<close>

lemma hex_digit_inj: "m < 16 \<Longrightarrow> n < 16 \<Longrightarrow> hex_digit m = hex_digit n \<Longrightarrow> m = n"
  by (auto simp: hex_digit_def char_of_eq_iff take_bit_eq_mod split: if_splits)

lemma of_char_less: "(of_char c :: nat) < 256"
  using of_char_mod_256 [of c, where 'a = nat] by (metis mod_less_divisor zero_less_numeral)

lemma nibbles: "(of_char c :: nat) div 16 < 16" "(of_char c :: nat) mod 16 < 16"
  using of_char_less [of c] by (simp_all add: less_mult_imp_div_less)

lemma escape_char_inj:
  "escape_char c @ s = escape_char d @ t \<Longrightarrow> c = d \<and> s = t"
proof -
  assume eq: "escape_char c @ s = escape_char d @ t"
  have percent: "\<not> unreserved (CHR ''%'')" by (simp add: unreserved_def)
  show ?thesis
  proof (cases "unreserved c \<or> unreserved d")
    case True
    with eq percent show ?thesis by (auto simp: escape_char_def split: if_splits)
  next
    case False
    then have h: "hex_digit (of_char c div 16) = hex_digit (of_char d div 16)"
      "hex_digit (of_char c mod 16) = hex_digit (of_char d mod 16)" and "s = t"
      using eq by (simp_all add: escape_char_def)
    have "(of_char c :: nat) div 16 = of_char d div 16"
      by (rule hex_digit_inj [OF nibbles(1) nibbles(1) h(1)])
    moreover have "(of_char c :: nat) mod 16 = of_char d mod 16"
      by (rule hex_digit_inj [OF nibbles(2) nibbles(2) h(2)])
    ultimately have "(of_char c :: nat) = of_char d" by (metis div_mult_mod_eq)
    with \<open>s = t\<close> show ?thesis by simp
  qed
qed

lemma PathEscape_inj: "PathEscape s = PathEscape t \<Longrightarrow> s = t"
proof (induction s arbitrary: t)
  case Nil
  then show ?case by (cases t) (auto simp: PathEscape_def escape_char_def split: if_splits)
next
  case (Cons c s)
  then obtain d t' where t: "t = d # t'"
    by (cases t) (auto simp: PathEscape_def escape_char_def split: if_splits)
  with Cons.prems have "escape_char c @ PathEscape s = escape_char d @ PathEscape t'"
    by (simp add: PathEscape_def)
  from escape_char_inj [OF this] Cons.IH t show ?case by simp
qed

lemma escape_char_safe: "x \<in> set (escape_char c) \<Longrightarrow> unreserved x \<or> x = CHR ''%''"
proof -
  have "unreserved (hex_digit n)" if "n < 16" for n
    using that by (simp add: hex_digit_def unreserved_def)
  then show "x \<in> set (escape_char c) \<Longrightarrow> unreserved x \<or> x = CHR ''%''"
    using nibbles [of c] by (auto simp: escape_char_def split: if_splits)
qed

lemma PathEscape_safe: "x \<in> set (PathEscape s) \<Longrightarrow> unreserved x \<or> x = CHR ''%''"
  using escape_char_safe by (auto simp: PathEscape_def)

section \<open>Retry-After\<close>

lemma retryAfter_seconds:
  "value \<noteq> [] \<Longrightarrow> Atoi value = Some n \<Longrightarrow> 0 \<le> n \<Longrightarrow> n \<le> 9223372036 \<Longrightarrow>
   retryAfter wb value = n * second"
  by (simp add: retryAfter_def seconds_exact)

text \<open>A number of seconds past the range of a duration wraps around and can come out negative.\<close>

lemma retryAfter_wraps: "retryAfter wb ''9223372037'' < 0"
proof -
  have "Atoi ''9223372037'' = Some 9223372037"
    by (simp add: ParseInt_def parse_digits_def is_digit_def digits_value_def digit_value_def in64_def)
  then show ?thesis
    by (simp add: retryAfter_def seconds_def wrap64_def second_def)
qed

section \<open>Properties\<close>

text \<open>C31: Whether a failed call is worth repeating depends on how it failed, and on nothing else: a
  call without a credential, a request that cannot be encoded, a response over 1 MiB or one that
  does not parse is final; an answer outside 2xx is retryable exactly when its status is 429 or at
  least 500; and an error of the transport, or of reading the body, keeps its own nature.\<close>

theorem call_retryable:
  assumes "call wb c verb path body decode timeout authenticated = (c', Inl e)"
  shows "IsRetryable e \<longleftrightarrow>
    \<not> (authenticated \<and> cl_credential c = []) \<and> body \<noteq> Some None \<and>
    (case wb_bad_url wb (cl_base_url c @ path) of
       Some x \<Rightarrow> IsRetryable x
     | None \<Rightarrow> \<exists>req. newRequest wb c verb path body authenticated timeout = Inr req \<and>
         (case wb_exchange wb req of
            Inl x \<Rightarrow> IsRetryable x
          | Inr resp \<Rightarrow> length (hp_body resp) \<le> 1048576 \<and>
              (case hp_read_error resp of
                 Some x \<Rightarrow> IsRetryable x
               | None \<Rightarrow> hp_status resp = 429 \<or> hp_status resp \<ge> 500)))"
proof -
  have leaf: "\<not> IsRetryable (Message m)" "\<not> IsRetryable ErrNoCredential" "\<not> IsRetryable ErrResponseTooLarge" for m
    by (simp_all add: IsRetryable_def errors_Is_def)
  have api: "IsRetryable (APIError (decodeError wb r b)) \<longleftrightarrow> hp_status r = 429 \<or> hp_status r \<ge> 500" for r b
    by (auto simp: IsRetryable_def decodeError_def newAPIError_def)
  show ?thesis
  proof (cases "authenticated \<and> cl_credential c = []")
    case True
    with assms leaf show ?thesis by (auto simp: call_def credential_is_zero_def)
  next
    case cred: False
    show ?thesis
    proof (cases "body = Some None \<or> wb_bad_url wb (cl_base_url c @ path) \<noteq> None")
      case True
      with assms cred leaf show ?thesis
        by (auto simp: call_def credential_is_zero_def newRequest_def split: if_splits)
    next
      case False
      then obtain req where req: "newRequest wb c verb path body authenticated timeout = Inr req"
        by (simp add: newRequest_def)
      with assms cred False leaf api show ?thesis
        by (auto simp: call_def credential_is_zero_def readBody_def Let_def MaxResponseBytes_def
            not_less not_le split: sum.splits if_splits option.splits)
    qed
  qed
qed

text \<open>An answer outside 2xx reaches the caller as the API error with that status and the code of
  its body: the tests \<open>IsUnauthorized\<close>, \<open>IsUnsupportedProtocol\<close>, \<open>IsNotFound\<close> and \<open>IsConflict\<close>
  answer for the status and code the Server sent, and \<open>RetryAfter\<close> for its header.\<close>

lemma call_api_error:
  assumes "authenticated \<longrightarrow> cl_credential c \<noteq> []"
    and "newRequest wb c verb path body authenticated timeout = Inr req"
    and "wb_exchange wb req = Inr resp"
    and "length (hp_body resp) \<le> 1048576" and "hp_read_error resp = None"
    and "hp_status resp < 200 \<or> 300 \<le> hp_status resp"
    and "wb_error_body wb (hp_body resp) = Some parsed" and "er_error parsed \<noteq> []"
  shows "\<exists>e. snd (call wb c verb path body decode timeout authenticated) = Inl e \<and>
    (IsUnauthorized e \<longleftrightarrow> hp_status resp = 401) \<and> (IsUnsupportedProtocol e \<longleftrightarrow> hp_status resp = 426) \<and>
    (IsNotFound e \<longleftrightarrow> hp_status resp = 404) \<and>
    (IsConflict e code \<longleftrightarrow> hp_status resp = 409 \<and> er_error parsed = code) \<and>
    RetryAfter e = retryAfter wb (hp_retry_after resp)"
proof -
  have "snd (call wb c verb path body decode timeout authenticated) =
      Inl (Wrap (label verb path) (APIError (decodeError wb resp (hp_body resp))))"
    using assms by (auto simp: call_def credential_is_zero_def readBody_def MaxResponseBytes_def Let_def)
  then show ?thesis
    using assms(7,8)
    by (simp add: IsUnauthorized_def IsUnsupportedProtocol_def IsNotFound_def IsConflict_def
        has_status_def RetryAfter_def decodeError_def newAPIError_def)
qed

text \<open>C32: A Run id, whatever bytes the Server put in it, addresses its own endpoint and no other: the
  path is the same for two calls only if both the id and the action are, and the id adds no slash,
  question mark or hash sign to it.\<close>

theorem runPath_confined:
  "(runPath a x = runPath b y \<longrightarrow> CHR ''/'' \<notin> set x \<longrightarrow> CHR ''/'' \<notin> set y \<longrightarrow> a = b \<and> x = y) \<and>
   set (PathEscape a) \<inter> set ''/?#'' = {}"
proof
  have slash: "CHR ''/'' \<notin> set (PathEscape s)" for s
    using PathEscape_safe [of "CHR ''/''" s] by (auto simp: unreserved_def)
  show "runPath a x = runPath b y \<longrightarrow> CHR ''/'' \<notin> set x \<longrightarrow> CHR ''/'' \<notin> set y \<longrightarrow> a = b \<and> x = y"
  proof (intro impI)
    assume "runPath a x = runPath b y"
    then have eq: "PathEscape a @ CHR ''/'' # x = PathEscape b @ CHR ''/'' # y" by (simp add: runPath_def)
    have "Some (PathEscape a, x) = Some (PathEscape b, y)"
      unfolding Cut_append [OF slash, symmetric] eq ..
    then show "a = b \<and> x = y" using PathEscape_inj by simp
  qed
  show "set (PathEscape a) \<inter> set ''/?#'' = {}"
    using PathEscape_safe [of _ a] by (force simp: unreserved_def)
qed

section \<open>Witnesses\<close>

definition sample_client :: client where
  "sample_client = \<lparr>cl_base_url = ''https://h/api/agent/v1'', cl_credential = ''omj_agent_x'',
     cl_agent_version = ''dev'', cl_user_agent = ''omj-agent/dev'', cl_timeout = DefaultTimeout,
     cl_headroom = LongPollHeadroom, cl_server_version = []\<rparr>"

definition sample_response :: "int \<Rightarrow> http_response" where
  "sample_response status = \<lparr>hp_status = status, hp_server_version = ''2'', hp_retry_after = ''7'',
     hp_body = ''{}'', hp_read_error = None\<rparr>"

definition sample_parsed :: error_response where
  "sample_parsed = \<lparr>er_error = ''lease_expired'', er_message = [], er_errors = [],
     er_supported = [], er_min_agent_version = []\<rparr>"

definition sample_web :: "int \<Rightarrow> web" where
  "sample_web status =
     \<lparr>wb_exchange = (\<lambda>_. Inr (sample_response status)), wb_bad_url = (\<lambda>_. None),
      wb_error_body = (\<lambda>_. Some sample_parsed), wb_parse_time = (\<lambda>_. None), wb_now = 0\<rparr>"

lemma sample_request:
  obtains req where "newRequest (sample_web n) sample_client ''POST'' ''/x'' None True 1 = Inr req"
  by (simp add: newRequest_def sample_web_def)

lemma sample_call:
  "snd (call (sample_web 503) sample_client ''POST'' ''/x'' None Some 1 True) =
     Inl (Wrap ''POST /x'' (APIError (decodeError (sample_web 503) (sample_response 503) ''{}'')))"
  by (simp add: call_def sample_client_def sample_web_def sample_response_def credential_is_zero_def
      newRequest_def readBody_def MaxResponseBytes_def Let_def label_def)

theorem call_retryable_witness:
  "\<exists>c' e. call (sample_web 503) sample_client ''POST'' ''/x'' None Some 1 True = (c', Inl e) \<and> IsRetryable e"
proof -
  obtain c' e where ce: "call (sample_web 503) sample_client ''POST'' ''/x'' None Some 1 True = (c', Inl e)"
    using sample_call by (metis prod.collapse)
  from call_retryable [OF this] have "IsRetryable e"
    by (simp add: sample_client_def sample_web_def sample_response_def newRequest_def)
  with ce show ?thesis by blast
qed

lemma call_api_error_example:
  "\<exists>e. snd (call (sample_web 409) sample_client ''POST'' ''/x'' None Some 1 True) = Inl e \<and>
     IsConflict e ''lease_expired'' \<and> \<not> IsNotFound e \<and> RetryAfter e = 7 * second"
proof -
  have "Atoi ''7'' = Some 7"
    by (simp add: ParseInt_def parse_digits_def is_digit_def digits_value_def digit_value_def in64_def)
  then have "retryAfter (sample_web 409) ''7'' = 7 * second" by (simp add: retryAfter_seconds)
  moreover obtain req where
    req: "newRequest (sample_web 409) sample_client ''POST'' ''/x'' None True 1 = Inr req"
    by (rule sample_request)
  have ex: "wb_exchange (sample_web 409) req = Inr (sample_response 409)"
    "wb_error_body (sample_web 409) (hp_body (sample_response 409)) = Some sample_parsed"
    by (simp_all add: sample_web_def)
  have rest: "True \<longrightarrow> cl_credential sample_client \<noteq> []"
    "length (hp_body (sample_response 409)) \<le> 1048576"
    "hp_read_error (sample_response 409) = None"
    "hp_status (sample_response 409) < 200 \<or> 300 \<le> hp_status (sample_response 409)"
    "er_error sample_parsed \<noteq> []"
    by (simp_all add: sample_client_def sample_response_def sample_parsed_def)
  obtain e where "snd (call (sample_web 409) sample_client ''POST'' ''/x'' None Some 1 True) = Inl e"
    and "IsConflict e ''lease_expired''" and "\<not> IsNotFound e"
    and "RetryAfter e = retryAfter (sample_web 409) ''7''"
    using call_api_error [OF rest(1) req ex(1) rest(2-4) ex(2) rest(5), of Some "''lease_expired''"]
    by (auto simp: sample_response_def sample_parsed_def)
  ultimately show ?thesis by auto
qed

theorem runPath_confined_witness:
  "runPath ''a/../b'' ''start'' \<noteq> runPath ''b'' ''start'' \<and> CHR ''/'' \<notin> set (PathEscape ''a/../b'')"
  using runPath_confined [of "''a/../b''" "''start''" "''b''" "''start''"] by auto

end
