(* ===== verification/Runner.thy ===== *)
theory Runner
  imports Prelude Go_Strings "HOL-Library.List_Lexorder" "HOL-Library.Char_ord"
begin

unbundle bit_operations_syntax

text \<open>
  \<open>internal/runner\<close>: how a command is started (\<open>runner.go\<close>, \<open>env.go\<close>, \<open>credential_unix.go\<close>) and how
  its process group is terminated (\<open>runner.go\<close>, \<open>terminate_unix.go\<close>). What the operating system
  answers is a parameter. The three goroutines of a process (the timer, the one that waits, the one
  that terminates) are a step relation over the fields they share, one step per critical section.
\<close>

section \<open>Limits\<close>

definition DefaultMaxTimeout :: duration where "DefaultMaxTimeout = 72 * hour"
definition DefaultGrace :: duration where "DefaultGrace = 10 * second"
definition defaultShell :: string where "defaultShell = ''/bin/sh''"
definition waitDelay :: duration where "waitDelay = 2 * second"

record runner =
  rn_max_timeout :: duration
  rn_grace :: duration

definition timeout :: "runner \<Rightarrow> duration \<Rightarrow> duration" where
  "timeout r requested =
     (let limit = (if rn_max_timeout r \<le> 0 then DefaultMaxTimeout else rn_max_timeout r)
      in if requested \<le> 0 \<or> requested > limit then limit else requested)"

definition grace :: "runner \<Rightarrow> duration" where
  "grace r = (if rn_grace r \<le> 0 then DefaultGrace else rn_grace r)"

section \<open>The environment of a command\<close>

record spec =
  sp_run_id :: string
  sp_job_name :: string
  sp_machine_id :: string
  sp_command :: string
  sp_run_as :: string
  sp_shell :: string
  sp_working_dir :: string
  sp_env :: "(string \<times> string) list"
  sp_timeout :: duration
  sp_max_output :: int

text \<open>A user as \<open>os/user\<close> answers it, with the group ids (\<open>None\<close>: the lookup of the groups fails).\<close>

record os_user =
  us_username :: string
  us_uid :: string
  us_gid :: string
  us_home :: string
  us_groups :: "string list option"

definition defaultPath :: string where
  "defaultPath = ''/usr/local/sbin:/usr/local/bin:/usr/sbin:/usr/bin:/sbin:/bin''"

definition defaultLang :: string where "defaultLang = ''C.UTF-8''"

definition default_vars :: "spec \<Rightarrow> os_user \<Rightarrow> string \<Rightarrow> (string \<times> string) list" where
  "default_vars s u shell =
     [(''HOME'', us_home u), (''USER'', us_username u), (''LOGNAME'', us_username u),
      (''SHELL'', shell), (''PATH'', defaultPath), (''LANG'', defaultLang),
      (''OMJ_RUN_ID'', sp_run_id s), (''OMJ_JOB_NAME'', sp_job_name s),
      (''OMJ_MACHINE_ID'', sp_machine_id s)]"

text \<open>\<open>maps.Copy(vars, spec.Env)\<close>: an entry of the Job hides the default under its key.\<close>

definition environment :: "spec \<Rightarrow> os_user \<Rightarrow> string \<Rightarrow> string list" where
  "environment s u shell =
     (let vars = sp_env s @ default_vars s u shell
      in map (\<lambda>key. key @ ''='' @ the (map_of vars key)) (sort (remdups (map fst vars))))"

section \<open>The credential of a command\<close>

record os_credential =
  cr_uid :: nat
  cr_gid :: nat
  cr_groups :: "nat list"

record file_info =
  fi_owner :: nat
  fi_group :: nat
  fi_mode :: nat

datatype start_error =
    ContextEnded | CommandRequired | NoServiceUser | NoExecutionUser string
  | NoWorkingDir string | BadID string string | NoGroups string | CannotEnter string nat | StartFailed string

definition numericID :: "string \<Rightarrow> string \<Rightarrow> start_error + nat" where
  "numericID value kind = (case ParseUint32 value of None \<Rightarrow> Inl (BadID kind value) | Some n \<Rightarrow> Inr n)"

fun numeric_groups :: "string list \<Rightarrow> start_error + nat list" where
  "numeric_groups [] = Inr []"
| "numeric_groups (i # is) =
     (case numericID i ''group'' of
        Inl e \<Rightarrow> Inl e
      | Inr n \<Rightarrow> (case numeric_groups is of Inl e \<Rightarrow> Inl e | Inr ns \<Rightarrow> Inr (n # ns)))"

definition credentialOf :: "os_user \<Rightarrow> nat \<Rightarrow> start_error + os_credential" where
  "credentialOf u uid =
     (case numericID (us_gid u) ''gid'' of
        Inl e \<Rightarrow> Inl e
      | Inr gid \<Rightarrow>
          (case us_groups u of
             None \<Rightarrow> Inl (NoGroups (us_username u))
           | Some ids \<Rightarrow>
               (case numeric_groups ids of
                  Inl e \<Rightarrow> Inl e
                | Inr groups \<Rightarrow> Inr \<lparr>cr_uid = uid, cr_gid = gid, cr_groups = groups\<rparr>)))"

definition dropPrivileges :: "nat \<Rightarrow> os_user \<Rightarrow> start_error + os_credential option" where
  "dropPrivileges own_uid u =
     (case numericID (us_uid u) ''uid'' of
        Inl e \<Rightarrow> Inl e
      | Inr uid \<Rightarrow>
          if uid = own_uid then Inr None
          else (case credentialOf u uid of Inl e \<Rightarrow> Inl e | Inr c \<Rightarrow> Inr (Some c)))"

definition ownerExecute :: nat where "ownerExecute = 64"
definition groupExecute :: nat where "groupExecute = 8"
definition otherExecute :: nat where "otherExecute = 1"

text \<open>\<open>canEnter\<close>; on unix the file information always carries owner and group.\<close>

definition canEnter :: "file_info \<Rightarrow> os_credential \<Rightarrow> bool" where
  "canEnter i c =
     (if cr_uid c = 0 then True
      else if fi_owner i = cr_uid c then fi_mode i AND ownerExecute \<noteq> 0
      else if fi_group i \<in> set (cr_groups c) then fi_mode i AND groupExecute \<noteq> 0
      else fi_mode i AND otherExecute \<noteq> 0)"

definition checkWorkingDir :: "string \<Rightarrow> file_info \<Rightarrow> os_credential option \<Rightarrow> start_error option" where
  "checkWorkingDir dir i co =
     (case co of
        None \<Rightarrow> None
      | Some c \<Rightarrow> if canEnter i c then None else Some (CannotEnter dir (cr_uid c)))"

section \<open>Starting\<close>

text \<open>What the machine answers while a command is started.\<close>

record machine =
  mc_current :: "os_user option"
  mc_lookup :: "string \<Rightarrow> os_user option"
  mc_stat :: "string \<Rightarrow> file_info option"
  mc_own_uid :: nat
  mc_start_fails :: bool
  mc_pid :: int
  mc_pgid :: "int option"

text \<open>What is handed to \<open>exec\<close>.\<close>

record command =
  cm_argv :: "string list"
  cm_dir :: string
  cm_env :: "string list"
  cm_setpgid :: bool
  cm_credential :: "os_credential option"
  cm_pgid :: int
  cm_grace :: duration
  cm_timeout :: duration

definition lookupUser :: "machine \<Rightarrow> string \<Rightarrow> start_error + os_user" where
  "lookupUser mc name =
     (if name = [] then (case mc_current mc of None \<Rightarrow> Inl NoServiceUser | Some u \<Rightarrow> Inr u)
      else (case mc_lookup mc name of None \<Rightarrow> Inl (NoExecutionUser name) | Some u \<Rightarrow> Inr u))"

definition processGroupID :: "machine \<Rightarrow> int" where
  "processGroupID mc = (case mc_pgid mc of None \<Rightarrow> mc_pid mc | Some g \<Rightarrow> g)"

definition Start :: "machine \<Rightarrow> runner \<Rightarrow> bool \<Rightarrow> spec \<Rightarrow> start_error + command" where
  "Start mc r ctx_ended s =
     (if ctx_ended then Inl ContextEnded
      else if sp_command s = [] then Inl CommandRequired
      else case lookupUser mc (sp_run_as s) of
        Inl e \<Rightarrow> Inl e
      | Inr u \<Rightarrow>
          let dir = (if sp_working_dir s = [] then us_home u else sp_working_dir s)
          in case mc_stat mc dir of
               None \<Rightarrow> Inl (NoWorkingDir dir)
             | Some info \<Rightarrow>
                 let shell = (if sp_shell s = [] then defaultShell else sp_shell s)
                 in case dropPrivileges (mc_own_uid mc) u of
                      Inl e \<Rightarrow> Inl e
                    | Inr co \<Rightarrow>
                        (case checkWorkingDir dir info co of
                           Some e \<Rightarrow> Inl e
                         | None \<Rightarrow>
                             if mc_start_fails mc then Inl (StartFailed shell)
                             else Inr \<lparr>cm_argv = [shell, ''-c'', sp_command s], cm_dir = dir,
                                    cm_env = environment s u shell, cm_setpgid = True,
                                    cm_credential = co, cm_pgid = processGroupID mc,
                                    cm_grace = grace r, cm_timeout = timeout r (sp_timeout s)\<rparr>))"

section \<open>A running process\<close>

datatype signal = SIGTERM | SIGKILL

text \<open>
  Where the goroutine of \<open>terminateGroup\<close> and the one of \<open>wait\<close> are. \<open>ps_signals\<close> records what the
  group was sent, \<open>ps_fired\<close> that the timer has fired and \<open>timeOut\<close> has not taken the lock yet.
\<close>

datatype killer = NoKiller | BeforeTerm | InGrace | BeforeKill | AwaitsExit | KillerDone
datatype waiter = Waiting | Recorded | Closed

record run_result =
  rs_exit_code :: int
  rs_signal :: "nat option"
  rs_started_at :: time
  rs_finished_at :: time
  rs_timed_out :: bool
  rs_cancelled :: bool
  rs_reason :: string
  rs_err :: "string option"

record process =
  ps_pgid :: int
  ps_grace :: duration
  ps_timer :: bool
  ps_fired :: bool
  ps_exited :: bool
  ps_terminating :: bool
  ps_timed_out :: bool
  ps_cancelled :: bool
  ps_reason :: string
  ps_terminate_err :: "string option"
  ps_wait_err :: "string option"
  ps_result :: run_result
  ps_killer :: killer
  ps_waiter :: waiter
  ps_signals :: "signal list"

definition new_process :: "int \<Rightarrow> duration \<Rightarrow> time \<Rightarrow> process" where
  "new_process pgid g started =
     \<lparr>ps_pgid = pgid, ps_grace = g, ps_timer = True, ps_fired = False, ps_exited = False,
      ps_terminating = False, ps_timed_out = False, ps_cancelled = False, ps_reason = [],
      ps_terminate_err = None, ps_wait_err = None,
      ps_result = \<lparr>rs_exit_code = 0, rs_signal = None, rs_started_at = started,
        rs_finished_at = 0, rs_timed_out = False, rs_cancelled = False, rs_reason = [], rs_err = None\<rparr>,
      ps_killer = NoKiller, ps_waiter = Waiting, ps_signals = []\<rparr>"

text \<open>\<open>terminate\<close>: the critical section, and the goroutine it starts.\<close>

definition terminate :: "bool \<Rightarrow> string \<Rightarrow> process \<Rightarrow> process" where
  "terminate timedOut reason p =
     (if ps_exited p \<or> ps_terminating p then p
      else p\<lparr>ps_terminating := True, ps_timed_out := timedOut, ps_cancelled := \<not> timedOut,
             ps_reason := reason, ps_timer := False, ps_killer := BeforeTerm\<rparr>)"

definition Cancel :: "string \<Rightarrow> process \<Rightarrow> process" where
  "Cancel reason p = terminate False reason p"

definition timeOut :: "process \<Rightarrow> process" where
  "timeOut p = terminate True [] p"

text \<open>\<open>signalGroup\<close>; \<open>err\<close> is the error of \<open>kill(2)\<close> other than \<open>ESRCH\<close>, if any.\<close>

definition signalGroup :: "signal \<Rightarrow> string option \<Rightarrow> process \<Rightarrow> process" where
  "signalGroup sig err p =
     (let p' = p\<lparr>ps_signals := ps_signals p @ [sig]\<rparr>
      in case err of None \<Rightarrow> p'
         | Some e \<Rightarrow> if ps_terminate_err p = None then p'\<lparr>ps_terminate_err := Some e\<rparr> else p')"

text \<open>\<open>wait\<close>: the critical section after \<open>cmd.Wait\<close> returned, and what follows it.\<close>

datatype wait_error = ExitStatus | WaitDelayExceeded | OtherWaitError string

text \<open>\<open>exitStatus\<close>: no state, a signal, or an exit code.\<close>

datatype process_state = NoState | Signaled nat | ExitedWith int

definition exitStatus :: "process_state \<Rightarrow> int \<times> nat option" where
  "exitStatus st =
     (case st of NoState \<Rightarrow> (-1, None) | Signaled sig \<Rightarrow> (128 + int sig, Some sig)
      | ExitedWith n \<Rightarrow> (n, None))"

definition wait_record :: "process \<Rightarrow> process" where
  "wait_record p =
     p\<lparr>ps_timer := False, ps_exited := True, ps_wait_err := ps_terminate_err p,
       ps_result := (ps_result p)\<lparr>rs_timed_out := ps_timed_out p, rs_cancelled := ps_cancelled p,
         rs_reason := ps_reason p\<rparr>,
       ps_waiter := Recorded\<rparr>"

definition wait_finish :: "wait_error option \<Rightarrow> process_state \<Rightarrow> time \<Rightarrow> process \<Rightarrow> process" where
  "wait_finish err st now p =
     (let own = (case err of Some (OtherWaitError m) \<Rightarrow> Some m | _ \<Rightarrow> None)
      in p\<lparr>ps_result := (ps_result p)
             \<lparr>rs_exit_code := fst (exitStatus st), rs_signal := snd (exitStatus st),
              rs_finished_at := now,
              rs_err := (if own = None then ps_wait_err p else own)\<rparr>,
           ps_waiter := Closed\<rparr>)"

text \<open>\<open>Wait\<close> blocks until \<open>done\<close> is closed; while it blocks the value is \<open>None\<close>.\<close>

definition Wait :: "process \<Rightarrow> run_result option" where
  "Wait p = (if ps_waiter p = Closed then Some (ps_result p) else None)"

definition PGID :: "process \<Rightarrow> int" where
  "PGID p = ps_pgid p"

text \<open>\<open>streamWriter.Write\<close> hands the bytes to the sink and reports all of them as written.\<close>

definition streamWriter_Write :: "('st \<Rightarrow> 'b list \<Rightarrow> 's \<Rightarrow> 's option) \<Rightarrow> 'st \<Rightarrow> 'b list \<Rightarrow> 's \<Rightarrow> ('s \<times> nat) option" where
  "streamWriter_Write sink stream data s = map_option (\<lambda>s'. (s', length data)) (sink stream data s)"

text \<open>The interleavings: one rule per atomic step of a goroutine, or of a caller of \<open>Cancel\<close>.\<close>

inductive pstep :: "process \<Rightarrow> process \<Rightarrow> bool" where
  fires: "ps_timer p \<Longrightarrow> pstep p (p\<lparr>ps_timer := False, ps_fired := True\<rparr>)"
| times_out: "ps_fired p \<Longrightarrow> pstep p (timeOut (p\<lparr>ps_fired := False\<rparr>))"
| cancels: "pstep p (Cancel reason p)"
| sends_term: "ps_killer p = BeforeTerm \<Longrightarrow>
    pstep p ((signalGroup SIGTERM err p)\<lparr>ps_killer := InGrace\<rparr>)"
| exits_in_grace: "ps_killer p = InGrace \<Longrightarrow> ps_waiter p = Closed \<Longrightarrow>
    pstep p (p\<lparr>ps_killer := KillerDone\<rparr>)"
| grace_ends: "ps_killer p = InGrace \<Longrightarrow> pstep p (p\<lparr>ps_killer := BeforeKill\<rparr>)"
| sends_kill: "ps_killer p = BeforeKill \<Longrightarrow>
    pstep p ((signalGroup SIGKILL err p)\<lparr>ps_killer := AwaitsExit\<rparr>)"
| exits_after_kill: "ps_killer p = AwaitsExit \<Longrightarrow> ps_waiter p = Closed \<Longrightarrow>
    pstep p (p\<lparr>ps_killer := KillerDone\<rparr>)"
| records: "ps_waiter p = Waiting \<Longrightarrow> pstep p (wait_record p)"
| closes: "ps_waiter p = Recorded \<Longrightarrow> pstep p (wait_finish err st now p)"

inductive_cases pstepE: "pstep p q"

inductive preach :: "process \<Rightarrow> process \<Rightarrow> bool" for p where
  here: "preach p p"
| next_step: "preach p q \<Longrightarrow> pstep q r \<Longrightarrow> preach p r"

section \<open>Environment\<close>

lemma default_keys:
  "map fst (default_vars s u shell) = [''HOME'', ''USER'', ''LOGNAME'', ''SHELL'', ''PATH'', ''LANG'',
     ''OMJ_RUN_ID'', ''OMJ_JOB_NAME'', ''OMJ_MACHINE_ID'']"
  by (simp add: default_vars_def)

section \<open>Goroutines\<close>

definition signals_of :: "killer \<Rightarrow> signal list set" where
  "signals_of k = (case k of NoKiller \<Rightarrow> {[]} | BeforeTerm \<Rightarrow> {[]} | InGrace \<Rightarrow> {[SIGTERM]}
     | BeforeKill \<Rightarrow> {[SIGTERM]} | AwaitsExit \<Rightarrow> {[SIGTERM, SIGKILL]}
     | KillerDone \<Rightarrow> {[SIGTERM], [SIGTERM, SIGKILL]})"

definition pinv :: "process \<Rightarrow> bool" where
  "pinv p \<longleftrightarrow>
     (ps_killer p = NoKiller \<longleftrightarrow> \<not> ps_terminating p) \<and>
     (ps_terminating p \<longleftrightarrow> ps_timed_out p \<noteq> ps_cancelled p) \<and>
     \<not> (ps_timed_out p \<and> ps_cancelled p) \<and> (ps_timed_out p \<longrightarrow> ps_reason p = []) \<and>
     ps_signals p \<in> signals_of (ps_killer p) \<and>
     (ps_exited p \<longleftrightarrow> ps_waiter p \<noteq> Waiting) \<and>
     (ps_exited p \<or> ps_terminating p \<longrightarrow> \<not> ps_timer p) \<and>
     (ps_exited p \<longrightarrow> rs_timed_out (ps_result p) = ps_timed_out p \<and>
        rs_cancelled (ps_result p) = ps_cancelled p \<and> rs_reason (ps_result p) = ps_reason p)"

lemma pinv_new: "pinv (new_process pgid g started)"
  by (simp add: pinv_def new_process_def signals_of_def)

lemma pinv_terminate: "pinv p \<Longrightarrow> (timedOut \<longrightarrow> reason = []) \<Longrightarrow> pinv (terminate timedOut reason p)"
  by (auto simp: pinv_def terminate_def signals_of_def)

lemma signalGroup_frame [simp]:
  "ps_terminating (signalGroup sig err p) = ps_terminating p"
  "ps_timed_out (signalGroup sig err p) = ps_timed_out p"
  "ps_cancelled (signalGroup sig err p) = ps_cancelled p"
  "ps_reason (signalGroup sig err p) = ps_reason p"
  "ps_exited (signalGroup sig err p) = ps_exited p"
  "ps_timer (signalGroup sig err p) = ps_timer p"
  "ps_waiter (signalGroup sig err p) = ps_waiter p"
  "ps_result (signalGroup sig err p) = ps_result p"
  "ps_signals (signalGroup sig err p) = ps_signals p @ [sig]"
  by (simp_all add: signalGroup_def Let_def split: option.split)

lemma pinv_step: "pstep p q \<Longrightarrow> pinv p \<Longrightarrow> pinv q"
proof (induction rule: pstep.induct)
  case (times_out p)
  then have "pinv (p\<lparr>ps_fired := False\<rparr>)" by (auto simp: pinv_def)
  then show ?case unfolding timeOut_def by (rule pinv_terminate) simp
next
  case (cancels p reason)
  then show ?case unfolding Cancel_def by (intro pinv_terminate) simp_all
qed (auto simp: pinv_def signals_of_def wait_record_def wait_finish_def Let_def)

lemma pinv_reach: "preach p q \<Longrightarrow> pinv p \<Longrightarrow> pinv q"
  by (induction rule: preach.induct) (auto intro: pinv_step)

text \<open>Once the process is being terminated or has exited, why is settled.\<close>

definition settled :: "process \<Rightarrow> bool" where
  "settled p \<longleftrightarrow> ps_exited p \<or> ps_terminating p"

definition cause :: "process \<Rightarrow> bool \<times> bool \<times> bool \<times> string" where
  "cause p = (ps_terminating p, ps_timed_out p, ps_cancelled p, ps_reason p)"

lemma settled_step: "pstep p q \<Longrightarrow> settled p \<Longrightarrow> settled q \<and> cause q = cause p"
  by (induction rule: pstep.induct)
    (auto simp: settled_def cause_def timeOut_def Cancel_def terminate_def wait_record_def
      wait_finish_def Let_def)

lemma settled_reach: "preach p q \<Longrightarrow> settled p \<Longrightarrow> settled q \<and> cause q = cause p"
  by (induction rule: preach.induct) (auto dest: settled_step)

lemma timeout_bounds:
  "0 < timeout r requested \<and>
   timeout r requested \<le> (if rn_max_timeout r \<le> 0 then DefaultMaxTimeout else rn_max_timeout r)"
  by (simp add: timeout_def Let_def DefaultMaxTimeout_def duration_defs)

lemma grace_pos: "0 < grace r"
  by (simp add: grace_def DefaultGrace_def second_def)

lemma dropPrivileges_uid:
  "dropPrivileges own u = Inr co \<Longrightarrow>
   ParseUint32 (us_uid u) = Some (case co of None \<Rightarrow> own | Some c \<Rightarrow> cr_uid c)"
  by (auto simp: dropPrivileges_def credentialOf_def numericID_def split: option.splits sum.splits if_splits)

text \<open>The result \<open>Wait\<close> has returned never changes, and neither does the group.\<close>

lemma Wait_step: "pstep p q \<Longrightarrow> Wait p = Some r \<Longrightarrow> Wait q = Some r"
  by (induction rule: pstep.induct)
    (auto simp: Wait_def timeOut_def Cancel_def terminate_def signalGroup_def wait_record_def Let_def split: if_splits option.splits)

lemma Wait_stable: "preach p q \<Longrightarrow> Wait p = Some r \<Longrightarrow> Wait q = Some r"
  by (induction rule: preach.induct) (auto intro: Wait_step)

lemma PGID_step: "pstep p q \<Longrightarrow> PGID q = PGID p"
  by (induction rule: pstep.induct)
    (auto simp: PGID_def timeOut_def Cancel_def terminate_def signalGroup_def wait_record_def wait_finish_def Let_def
      split: if_splits option.splits)

section \<open>Properties\<close>

text \<open>C33: The environment of a command holds each variable once, in order of their names: the Job's
  own value where the Job sets it, the default where it does not, and nothing else; in particular
  nothing of the agent's own environment.\<close>

theorem environment_spec:
  "\<exists>keys. sorted keys \<and> distinct keys \<and>
     set keys = set (map fst (sp_env s)) \<union> {''HOME'', ''USER'', ''LOGNAME'', ''SHELL'', ''PATH'', ''LANG'',
       ''OMJ_RUN_ID'', ''OMJ_JOB_NAME'', ''OMJ_MACHINE_ID''} \<and>
     environment s u shell = map (\<lambda>k. k @ ''='' @ (case map_of (sp_env s) k of Some v \<Rightarrow> v
       | None \<Rightarrow> the (map_of (default_vars s u shell) k))) keys"
proof (intro exI conjI)
  let ?keys = "sort (remdups (map fst (sp_env s @ default_vars s u shell)))"
  show "sorted ?keys" and "distinct ?keys" by simp_all
  show "set ?keys = set (map fst (sp_env s)) \<union> {''HOME'', ''USER'', ''LOGNAME'', ''SHELL'', ''PATH'', ''LANG'',
       ''OMJ_RUN_ID'', ''OMJ_JOB_NAME'', ''OMJ_MACHINE_ID''}"
    using default_keys [of s u shell] by (simp only: set_sort set_remdups map_append set_append) simp
  show "environment s u shell = map (\<lambda>k. k @ ''='' @ (case map_of (sp_env s) k of Some v \<Rightarrow> v
       | None \<Rightarrow> the (map_of (default_vars s u shell) k))) ?keys"
    by (simp add: environment_def Let_def map_add_def split: option.split)
qed

text \<open>C11: A command that is started runs as the user the spec names (the agent's own user when it
  names none): without a credential of its own only if that user is the one the agent runs as, and
  otherwise with exactly the uid of that user; in a process group of its own, with the shell
  asked for, and with a timeout that is positive and at most the local limit, whatever was asked.\<close>

theorem Start_safe:
  assumes "Start mc r ctx_ended s = Inr c"
  shows "\<exists>u. (if sp_run_as s = [] then mc_current mc = Some u else mc_lookup mc (sp_run_as s) = Some u) \<and>
      (case cm_credential c of
         None \<Rightarrow> ParseUint32 (us_uid u) = Some (mc_own_uid mc)
       | Some cr \<Rightarrow> ParseUint32 (us_uid u) = Some (cr_uid cr) \<and> cr_uid cr \<noteq> mc_own_uid mc) \<and>
      cm_env c = environment s u (hd (cm_argv c)) \<and>
      cm_argv c = [if sp_shell s = [] then ''/bin/sh'' else sp_shell s, ''-c'', sp_command s] \<and>
      sp_command s \<noteq> [] \<and> cm_setpgid c \<and> 0 < cm_grace c \<and> 0 < cm_timeout c \<and>
      cm_timeout c \<le> (if rn_max_timeout r \<le> 0 then 72 * hour else rn_max_timeout r)"
proof -
  obtain u where u: "lookupUser mc (sp_run_as s) = Inr u"
    using assms by (auto simp: Start_def split: if_splits sum.splits)
  obtain co where co: "dropPrivileges (mc_own_uid mc) u = Inr co" and c: "cm_credential c = co"
    and cmd: "sp_command s \<noteq> []" "cm_setpgid c" "cm_grace c = grace r" "cm_timeout c = timeout r (sp_timeout s)"
      "cm_argv c = [if sp_shell s = [] then ''/bin/sh'' else sp_shell s, ''-c'', sp_command s]"
      "cm_env c = environment s u (hd (cm_argv c))"
    using assms u
    by (auto simp: Start_def Let_def defaultShell_def split: if_splits sum.splits option.splits)
  have "(case cm_credential c of None \<Rightarrow> True | Some cr \<Rightarrow> cr_uid cr \<noteq> mc_own_uid mc)"
    using co c by (auto simp: dropPrivileges_def credentialOf_def split: option.splits sum.splits if_splits)
  then show ?thesis
    using dropPrivileges_uid [OF co] u c cmd grace_pos [of r] timeout_bounds [of r "sp_timeout s"]
    by (intro exI [of _ u])
      (auto simp: lookupUser_def DefaultMaxTimeout_def split: option.splits if_splits)
qed

text \<open>C5: However the timer, a cancellation, the termination and the exit of the process interleave:
  the group is sent nothing, SIGTERM, or SIGTERM and then SIGKILL, and nothing at all unless it is
  being terminated; and when the process is over, its result says truly why: timed out or cancelled,
  never both, one of them exactly when the termination began before the exit was seen.\<close>

theorem process_lifecycle:
  assumes "preach (new_process pgid g started) q"
  shows "ps_signals q \<in> {[], [SIGTERM], [SIGTERM, SIGKILL]} \<and>
    (\<not> ps_terminating q \<longrightarrow> ps_signals q = []) \<and>
    (ps_waiter q = Closed \<longrightarrow>
       rs_timed_out (ps_result q) = ps_timed_out q \<and> rs_cancelled (ps_result q) = ps_cancelled q \<and>
       rs_reason (ps_result q) = ps_reason q \<and>
       \<not> (rs_timed_out (ps_result q) \<and> rs_cancelled (ps_result q)) \<and>
       (rs_timed_out (ps_result q) \<or> rs_cancelled (ps_result q) \<longleftrightarrow> ps_terminating q))"
  using pinv_reach [OF assms pinv_new]
  by (auto simp: pinv_def signals_of_def split: killer.splits)

section \<open>Witnesses\<close>

definition sample_user :: os_user where
  "sample_user = \<lparr>us_username = ''deploy'', us_uid = ''1000'', us_gid = ''1000'', us_home = ''/home/deploy'',
     us_groups = Some [''1000'', ''27'']\<rparr>"

definition sample_machine :: machine where
  "sample_machine = \<lparr>mc_current = None, mc_lookup = [''deploy'' \<mapsto> sample_user],
     mc_stat = (\<lambda>_. Some \<lparr>fi_owner = 1000, fi_group = 1000, fi_mode = 448\<rparr>), mc_own_uid = 0,
     mc_start_fails = False, mc_pid = 42, mc_pgid = Some 42\<rparr>"

definition sample_spec :: spec where
  "sample_spec = \<lparr>sp_run_id = ''r'', sp_job_name = ''j'', sp_machine_id = ''m'', sp_command = ''true'',
     sp_run_as = ''deploy'', sp_shell = [], sp_working_dir = [], sp_env = [], sp_timeout = 0,
     sp_max_output = 1\<rparr>"

definition sample_runner :: runner where
  "sample_runner = \<lparr>rn_max_timeout = hour, rn_grace = 0\<rparr>"

theorem Start_safe_witness:
  "\<exists>c cr. Start sample_machine sample_runner False sample_spec = Inr c \<and> cm_credential c = Some cr \<and>
     cr_uid cr = 1000 \<and> cm_timeout c \<le> hour"
proof -
  have ids: "ParseUint32 ''1000'' = Some 1000" "ParseUint32 ''27'' = Some 27"
    by (simp_all add: ParseUint32_def parse_digits_def is_digit_def digits_value_def digit_value_def)
  obtain c where c: "Start sample_machine sample_runner False sample_spec = Inr c"
    by (simp add: Start_def sample_machine_def sample_spec_def sample_user_def lookupUser_def Let_def
        dropPrivileges_def credentialOf_def numericID_def ids checkWorkingDir_def canEnter_def
        ownerExecute_def)
  from Start_safe [OF c] have "cm_timeout c \<le> hour" and
    "case cm_credential c of None \<Rightarrow> ParseUint32 ''1000'' = Some 0
       | Some cr \<Rightarrow> ParseUint32 ''1000'' = Some (cr_uid cr) \<and> cr_uid cr \<noteq> 0"
    by (cases "cm_credential c";
        auto simp: sample_machine_def sample_spec_def sample_user_def sample_runner_def duration_defs)+
  with c ids show ?thesis by (auto split: option.splits)
qed

text \<open>Timeout, SIGTERM, grace, SIGKILL, exit; a cancellation in between is too late.\<close>

definition sample_process :: process where
  "sample_process = new_process 42 DefaultGrace 0"

lemma sample_timed_out:
  obtains q where "preach sample_process q" and "ps_terminating q" and "ps_timed_out q"
    and "ps_waiter q = Waiting"
proof -
  let ?a = "sample_process\<lparr>ps_timer := False, ps_fired := True\<rparr>"
  let ?b = "timeOut (?a\<lparr>ps_fired := False\<rparr>)"
  have "preach sample_process ?a"
    by (rule next_step [OF here fires]) (simp add: sample_process_def new_process_def)
  then have "preach sample_process ?b" by (rule next_step [OF _ times_out]) simp
  moreover have "ps_terminating ?b" "ps_timed_out ?b" "ps_waiter ?b = Waiting"
    by (simp_all add: timeOut_def terminate_def sample_process_def new_process_def)
  ultimately show thesis using that by blast
qed

lemma preach_trans: "preach p q \<Longrightarrow> preach q r \<Longrightarrow> preach p r"
  by (rotate_tac, induction rule: preach.induct) (auto intro: next_step)

theorem process_lifecycle_witness:
  "\<exists>q. preach sample_process q \<and> ps_waiter q = Closed \<and> rs_timed_out (ps_result q) \<and>
     \<not> rs_cancelled (ps_result q)"
proof -
  obtain p where p: "preach sample_process p" "ps_terminating p" "ps_timed_out p" "ps_waiter p = Waiting"
    by (rule sample_timed_out)
  let ?r = "wait_record p"
  let ?q = "wait_finish None (Signaled 15) 9 ?r"
  have "preach sample_process ?r" by (rule next_step [OF p(1) records [OF p(4)]])
  then have q: "preach sample_process ?q"
    by (rule next_step [OF _ closes]) (simp add: wait_record_def)
  then have "preach (new_process 42 DefaultGrace 0) ?q" by (simp add: sample_process_def)
  from process_lifecycle [OF this] p(3) q show ?thesis
    by (intro exI [of _ ?q]) (auto simp: wait_finish_def wait_record_def Let_def)
qed

end
