(* ===== verification/Sysinfo.thy ===== *)
theory Sysinfo
  imports Protocol Go_Strings
begin

text \<open>
  \<open>internal/sysinfo\<close>: what the agent tells about its machine. The kernel's answers, the user
  database and the network interfaces are parameters; an address is its text with the two tests the
  code makes of it.
\<close>

definition MaxReportedIPs :: nat where "MaxReportedIPs = 16"
definition UnknownUID :: int where "UnknownUID = -1"

record sys_info =
  si_hostname :: string
  si_os :: string
  si_os_version :: string
  si_arch :: string
  si_kernel_version :: string
  si_reported_ips :: "string list"
  si_agent_user :: string
  si_agent_uid :: int

section \<open>os-release\<close>

text \<open>\<open>strings.NewReplacer\<close> over the four escapes of a double-quoted value.\<close>

fun unescape_quoted :: "string \<Rightarrow> string" where
  "unescape_quoted (b # c # cs) =
     (if b = CHR 0x5C \<and> c \<in> {CHR 0x22, CHR 0x5C, CHR ''$'', CHR 0x60} then c # unescape_quoted cs
      else b # unescape_quoted (c # cs))"
| "unescape_quoted s = s"

definition os_unquote :: "string \<Rightarrow> string" where
  "os_unquote value =
     (if length value < 2 then value
      else let q = hd value
      in if (q \<noteq> CHR 0x22 \<and> q \<noteq> CHR 0x27) \<or> last value \<noteq> q then value
         else let inner = butlast (tl value)
              in if q = CHR 0x27 then inner else unescape_quoted inner)"

definition os_release_line :: "string \<Rightarrow> (string \<rightharpoonup> string) \<Rightarrow> (string \<rightharpoonup> string)" where
  "os_release_line l values =
     (let line = TrimSpace l
      in if line = [] \<or> HasPrefix line ''#'' then values
         else case Cut (CHR ''='') line of
           None \<Rightarrow> values
         | Some (key, value) \<Rightarrow> values(TrimSpace key \<mapsto> os_unquote (TrimSpace value)))"

definition parseOSRelease :: "string \<Rightarrow> (string \<rightharpoonup> string)" where
  "parseOSRelease data = fold os_release_line (Lines data) Map.empty"

definition osVersion :: "string option \<Rightarrow> string \<Rightarrow> string \<Rightarrow> string" where
  "osVersion os_release sysname release =
     (let name = (case os_release of None \<Rightarrow> [] | Some data \<Rightarrow>
                    (case parseOSRelease data ''PRETTY_NAME'' of None \<Rightarrow> [] | Some v \<Rightarrow> v))
      in if name \<noteq> [] then name else TrimSpace (sysname @ '' '' @ release))"

section \<open>Addresses\<close>

record ip_addr =
  ia_text :: string
  ia_v4 :: bool
  ia_global :: bool

record net_interface =
  ni_up :: bool
  ni_loopback :: bool
  ni_addrs :: "ip_addr option list"

fun select_addrs :: "ip_addr option list \<Rightarrow> string list \<times> string list \<Rightarrow> string list \<times> string list" where
  "select_addrs [] acc = acc"
| "select_addrs (a # as) (v4, v6) =
     (case a of None \<Rightarrow> select_addrs as (v4, v6)
      | Some ip \<Rightarrow>
          if \<not> ia_global ip \<or> ia_text ip \<in> set (v4 @ v6) then select_addrs as (v4, v6)
          else if ia_v4 ip then select_addrs as (v4 @ [ia_text ip], v6)
          else select_addrs as (v4, v6 @ [ia_text ip]))"

fun select_ifaces :: "net_interface list \<Rightarrow> string list \<times> string list \<Rightarrow> string list \<times> string list" where
  "select_ifaces [] acc = acc"
| "select_ifaces (i # is) acc =
     (if \<not> ni_up i \<or> ni_loopback i then select_ifaces is acc
      else select_ifaces is (select_addrs (ni_addrs i) acc))"

definition selectIPs :: "net_interface list \<Rightarrow> string list" where
  "selectIPs ifaces = (case select_ifaces ifaces ([], []) of (v4, v6) \<Rightarrow> take MaxReportedIPs (v4 @ v6))"

text \<open>
  \<open>addrIP\<close> and \<open>hostInterfaces\<close>: of the kinds of \<open>net.Addr\<close> two carry an address, which may be nil. The kernel
  lists the interfaces with the flags for up and loopback, and their addresses unless asking for them
  failed; such an interface is left out. \<open>addrIP\<close> is applied here, where the list is made.
\<close>

datatype net_addr = IPNet "ip_addr option" | IPAddr "ip_addr option" | OtherAddr

fun addrIP :: "net_addr \<Rightarrow> ip_addr option" where
  "addrIP (IPNet ip) = ip"
| "addrIP (IPAddr ip) = ip"
| "addrIP OtherAddr = None"

definition host_interface :: "bool \<times> bool \<times> net_addr list option \<Rightarrow> net_interface option" where
  "host_interface i =
     (case i of (up, loopback, addrs) \<Rightarrow>
        map_option (\<lambda>as. \<lparr>ni_up = up, ni_loopback = loopback, ni_addrs = map addrIP as\<rparr>) addrs)"

definition hostInterfaces :: "(bool \<times> bool \<times> net_addr list option) list option \<Rightarrow> net_interface list" where
  "hostInterfaces ifaces = (case ifaces of None \<Rightarrow> [] | Some is \<Rightarrow> List.map_filter host_interface is)"

text \<open>\<open>currentUser\<close>: name and numeric uid, from what the user database answers.\<close>

definition currentUser :: "(string \<times> string) option \<Rightarrow> string \<times> int" where
  "currentUser u =
     (case u of None \<Rightarrow> ([], UnknownUID)
      | Some (name, uid) \<Rightarrow> (case Atoi uid of None \<Rightarrow> (name, UnknownUID) | Some n \<Rightarrow> (name, n)))"

text \<open>\<open>utsField\<close>: the bytes before the first zero.\<close>

definition utsField :: "string \<Rightarrow> string" where
  "utsField f = takeWhile (\<lambda>c. c \<noteq> CHR 0x00) f"

record host =
  ho_goos :: string
  ho_goarch :: string
  ho_uname :: "(string \<times> string) option"
  ho_hostname :: "string option"
  ho_user :: "(string \<times> string) option"
  ho_os_release :: "string option"
  ho_interfaces :: "(bool \<times> bool \<times> net_addr list option) list option"

definition Collect_info :: "host \<Rightarrow> sys_info" where
  "Collect_info h =
     (let (sysname, release) = (case ho_uname h of None \<Rightarrow> ([], [])
             | Some (s, r) \<Rightarrow> (utsField s, utsField r));
          (agentUser, agentUID) = currentUser (ho_user h)
      in \<lparr>si_hostname = (case ho_hostname h of None \<Rightarrow> [] | Some n \<Rightarrow> n), si_os = ho_goos h,
          si_os_version = osVersion (ho_os_release h) sysname release, si_arch = ho_goarch h,
          si_kernel_version = release, si_reported_ips = selectIPs (hostInterfaces (ho_interfaces h)),
          si_agent_user = agentUser, si_agent_uid = agentUID\<rparr>)"

section \<open>Messages\<close>

definition WorkMetadata :: "sys_info \<Rightarrow> bool \<Rightarrow> string list \<Rightarrow> machine_metadata" where
  "WorkMetadata i insecureHTTP runAsAllowed =
     \<lparr>mm_hostname = si_hostname i, mm_os = si_os i, mm_os_version = si_os_version i,
      mm_arch = si_arch i, mm_kernel_version = si_kernel_version i, mm_agent_user = si_agent_user i,
      mm_agent_uid = si_agent_uid i, mm_insecure_http = insecureHTTP,
      mm_reported_ips = si_reported_ips i, mm_run_as_allowed = runAsAllowed\<rparr>"

definition EnrollRequest :: "string \<Rightarrow> sys_info \<Rightarrow> string \<Rightarrow> string \<Rightarrow> bool \<Rightarrow> string list \<Rightarrow> enroll_request" where
  "EnrollRequest version i token nm insecureHTTP runAsAllowed =
     \<lparr>eq_token = token, eq_metadata = WorkMetadata i insecureHTTP runAsAllowed,
      eq_agent_version = version, eq_name = (if nm \<noteq> [] then Some nm else None)\<rparr>"

section \<open>Addresses reported\<close>

lemma select_addrs_inv:
  "distinct (fst acc @ snd acc) \<Longrightarrow> distinct (fst (select_addrs as acc) @ snd (select_addrs as acc))"
  by (induction as acc rule: select_addrs.induct) (auto split: option.split)

lemma select_ifaces_inv:
  "distinct (fst acc @ snd acc) \<Longrightarrow> distinct (fst (select_ifaces is acc) @ snd (select_ifaces is acc))"
  by (induction "is" acc rule: select_ifaces.induct)
    (simp_all add: select_addrs_inv del: distinct_append)

lemma selectIPs_bounded: "length (selectIPs ifaces) \<le> MaxReportedIPs \<and> distinct (selectIPs ifaces)"
  using select_ifaces_inv [of "([], [])" ifaces]
  by (cases "select_ifaces ifaces ([], [])") (simp add: selectIPs_def del: take_append distinct_append)

end
