(* ===== verification/Agent_Core.thy ===== *)
theory Agent_Core
  imports Client_Errors Output_Chunker State_Store Config Runner Sysinfo
begin

text \<open>
  The data the agent's parts share (\<open>internal/agent\<close>): a Run, the registry of Runs
  (\<open>registry.go\<close>), the settings, and the Server as its client sees it. A world \<open>'w\<close> stands for
  everything outside: each call of the API, a random number and a sleep take it and return it.
\<close>

section \<open>The world\<close>

record 'w server =
  wd_start :: "string \<Rightarrow> start_request \<Rightarrow> 'w \<Rightarrow> (gerror + run_status) \<times> 'w"
  wd_output :: "string \<Rightarrow> output_chunk list \<Rightarrow> 'w \<Rightarrow> (gerror + output_response) \<times> 'w"
  wd_heartbeat :: "string \<Rightarrow> 'w \<Rightarrow> (gerror + heartbeat_response) \<times> 'w"
  wd_finish :: "string \<Rightarrow> finish_request \<Rightarrow> 'w \<Rightarrow> (gerror + run_status) \<times> 'w"
  wd_random :: "'w \<Rightarrow> real \<times> 'w"
  wd_sleep :: "duration \<Rightarrow> 'w \<Rightarrow> gerror option \<times> 'w"
  wd_stopping :: "'w \<Rightarrow> bool"
  wd_float :: "real \<Rightarrow> real"

definition failure :: "(gerror + 'a) \<times> 'w \<Rightarrow> gerror option \<times> 'w" where
  "failure r = (case r of (Inl e, w) \<Rightarrow> (Some e, w) | (Inr _, w) \<Rightarrow> (None, w))"

lemma failure_simps [simp]: "failure (Inl e, w) = (Some e, w)" "failure (Inr x, w) = (None, w)"
  by (simp_all add: failure_def)

lemma snd_failure [simp]: "snd (failure r) = snd r"
  by (cases r; cases "fst r") (auto simp: failure_def)

section \<open>Settings\<close>

definition MaxSlots :: int where "MaxSlots = 16"
definition MaxPollWait :: duration where "MaxPollWait = 25 * second"
definition CancelRequested :: string where "CancelRequested = ''cancel_requested''"
definition AgentStopped :: string where "AgentStopped = ''agent_stopped''"
definition clockTolerance :: duration where "clockTolerance = 5 * second"
definition DefaultStopBudget :: duration where "DefaultStopBudget = 20 * second"

record agent_settings =
  st_heartbeat_interval :: duration
  st_flush_interval :: duration
  st_chunk_bytes :: int
  st_poll_wait :: duration

definition DefaultSettings :: agent_settings where
  "DefaultSettings = \<lparr>st_heartbeat_interval = 15 * second, st_flush_interval = DefaultFlushInterval,
     st_chunk_bytes = DefaultChunkBytes, st_poll_wait = MaxPollWait\<rparr>"

text \<open>\<open>apply\<close>: what the Server sets, with the multiplications in \<open>int64\<close>.\<close>

definition apply_settings :: "agent_config \<Rightarrow> agent_settings \<Rightarrow> agent_settings" where
  "apply_settings received s =
     (let s1 = (if ac_heartbeat_interval_seconds received > 0
                then s\<lparr>st_heartbeat_interval := seconds (ac_heartbeat_interval_seconds received)\<rparr> else s);
          s2 = (if ac_output_flush_interval_ms received > 0
                then s1\<lparr>st_flush_interval := milliseconds (ac_output_flush_interval_ms received)\<rparr> else s1);
          s3 = (if ac_output_chunk_bytes received > 0
                then s2\<lparr>st_chunk_bytes := ac_output_chunk_bytes received\<rparr> else s2)
      in if ac_poll_wait_seconds received > 0
         then s3\<lparr>st_poll_wait := min (seconds (ac_poll_wait_seconds received)) MaxPollWait\<rparr> else s3)"

section \<open>Runs\<close>

datatype spawn_error = NotPermitted string | NotStarted start_error

record run =
  ar_lease :: run_lease
  ar_timeout :: duration
  ar_max_output :: int
  ar_started_at :: time
  ar_start_accepted :: bool
  ar_process :: "process option"
  ar_chunker :: chunker
  ar_spawn_err :: "spawn_error option"
  ar_spawn_reason :: finish_reason
  ar_cancelled_before_start :: bool
  ar_cancel_once :: bool

abbreviation run_id :: "run \<Rightarrow> string" where
  "run_id r \<equiv> rl_run_id (ar_lease r)"

section \<open>The registry\<close>

definition reg_add :: "run \<Rightarrow> run list \<Rightarrow> run list" where
  "reg_add r rs = rs @ [r]"

fun reg_remove :: "string \<Rightarrow> run list \<Rightarrow> run list" where
  "reg_remove i [] = []"
| "reg_remove i (r # rs) = (if run_id r = i then rs else r # reg_remove i rs)"

definition reg_get :: "string \<Rightarrow> run list \<Rightarrow> run option" where
  "reg_get i rs = find (\<lambda>r. run_id r = i) rs"

definition reg_count :: "run list \<Rightarrow> int" where
  "reg_count rs = int (length rs)"

definition reg_active :: "run list \<Rightarrow> active_run_entry list" where
  "reg_active rs = map (\<lambda>r. \<lparr>ae_run_id = run_id r, ae_status = ActiveRunRunning\<rparr>) (filter ar_start_accepted rs)"

text \<open>A change of the Run that is behind the pointer the registry hands out.\<close>

definition reg_update :: "string \<Rightarrow> (run \<Rightarrow> run) \<Rightarrow> run list \<Rightarrow> run list" where
  "reg_update i f rs = map (\<lambda>r. if run_id r = i then f r else r) rs"

definition maxRejected :: nat where "maxRejected = 1024"

definition rejected_first :: "string \<Rightarrow> string list \<Rightarrow> bool \<times> string list" where
  "rejected_first i ids =
     (if i \<in> set ids then (False, ids)
      else (True, i # (if length ids \<ge> maxRejected then [] else ids)))"

lemma reg_get_None: "reg_get i rs = None \<longleftrightarrow> i \<notin> run_id ` set rs"
  by (auto simp: reg_get_def find_None_iff)

lemma set_reg_remove: "set (reg_remove i rs) \<subseteq> set rs"
  by (induction i rs rule: reg_remove.induct) auto

lemma ids_reg_remove: "distinct (map run_id rs) \<Longrightarrow> set (map run_id (reg_remove i rs)) = set (map run_id rs) - {i}"
  by (induction i rs rule: reg_remove.induct) (auto simp: image_iff)

lemma distinct_reg_remove: "distinct (map run_id rs) \<Longrightarrow> distinct (map run_id (reg_remove i rs))"
  by (induction i rs rule: reg_remove.induct) (auto dest: set_reg_remove [THEN subsetD])

lemma length_filter_reg_remove: "length (filter p (reg_remove i rs)) \<le> length (filter p rs)"
  by (induction i rs rule: reg_remove.induct) (auto intro: le_SucI)

lemma rejected_first_bounded: "length ids \<le> maxRejected \<Longrightarrow> length (snd (rejected_first i ids)) \<le> maxRejected"
  by (auto simp: rejected_first_def maxRejected_def)

section \<open>What a result means\<close>

definition OutcomeOf :: "run_result \<Rightarrow> run_status \<times> int option \<times> finish_reason option" where
  "OutcomeOf r =
     (if rs_timed_out r then (RunStatusTimedOut, Some (rs_exit_code r), None)
      else if rs_cancelled r then
        (if rs_reason r = ReasonAgentStopped
         then (RunStatusCancelled, Some (rs_exit_code r), Some ReasonAgentStopped)
         else (RunStatusCancelled, Some (rs_exit_code r), None))
      else if rs_exit_code r = 0 \<and> rs_err r = None then (RunStatusSuccess, Some (rs_exit_code r), None)
      else (RunStatusFailed, Some (rs_exit_code r), None))"

lemma OutcomeOf_reportable: "status_reportable (fst (OutcomeOf r))"
  by (simp add: OutcomeOf_def status_reportable_def)

section \<open>Output on the wire\<close>

definition chunk_protocol :: "chunk \<Rightarrow> output_chunk" where
  "chunk_protocol c = \<lparr>oc_seq = ch_seq c, oc_stream = ch_stream c, oc_at = ch_at c, oc_data = ch_data c\<rparr>"

definition outputRequest :: "chunk list \<Rightarrow> output_chunk list" where
  "outputRequest batch = map chunk_protocol batch"

text \<open>The chunks a chunker sent since \<open>old\<close>, added to the buffer one by one.\<close>

fun add_all :: "(run_table \<Rightarrow> run_table) \<Rightarrow> chunk list \<Rightarrow> buffer \<Rightarrow> buffer option" where
  "add_all iter [] b = Some b"
| "add_all iter (c # cs) b = (case Add iter c b of None \<Rightarrow> None | Some b' \<Rightarrow> add_all iter cs b')"

definition receive :: "(run_table \<Rightarrow> run_table) \<Rightarrow> chunker \<Rightarrow> chunker \<Rightarrow> buffer \<Rightarrow> buffer option" where
  "receive iter old new b = add_all iter (drop (length (ck_sent old)) (ck_sent new)) b"

section \<open>Bounds of the settings\<close>

lemma apply_settings_in_range:
  assumes "ac_heartbeat_interval_seconds c \<le> 9223372036"
    and "ac_output_flush_interval_ms c \<le> 9223372036854"
    and "ac_poll_wait_seconds c \<le> 9223372036"
    and "0 < st_heartbeat_interval s" "0 < st_flush_interval s" "0 < st_poll_wait s"
  shows "0 < st_heartbeat_interval (apply_settings c s) \<and> 0 < st_flush_interval (apply_settings c s) \<and>
    0 < st_poll_wait (apply_settings c s)"
  using assms by (simp add: apply_settings_def Let_def seconds_exact milliseconds_exact MaxPollWait_def
      second_def millisecond_def)

text \<open>
  The Server's numbers are not bounded before they are multiplied: 9223372037 seconds between
  heartbeats make a negative interval, and \<open>time.NewTicker\<close> panics on one.
\<close>

lemma apply_settings_wraps:
  "ac_heartbeat_interval_seconds c = 9223372037 \<Longrightarrow> st_heartbeat_interval (apply_settings c s) < 0"
  by (simp add: apply_settings_def Let_def seconds_def wrap64_def second_def)

end
