(* ===== verification/Agent_Lease.thy ===== *)
theory Agent_Lease
  imports Agent_Core
begin

text \<open>
  How the agent takes leases (\<open>lease.go\<close>, \<open>agent.go\<close>, \<open>startup.go\<close>): the checks before a Run is
  accepted, its start, and what a restart makes of the Runs the previous process left. The field
  \<open>ag_executed\<close> is not in the source: it lists the Runs whose process was started, for the theorems
  to speak about.
\<close>

section \<open>Data\<close>

record agent =
  ag_cfg :: config
  ag_run_as_allowed :: "string list"
  ag_info :: sys_info
  ag_runner :: runner
  ag_settings :: agent_settings
  ag_registry :: "run list"
  ag_rejected :: "string list"
  ag_backoff :: backoff
  ag_store :: disk_store
  ag_buffer :: buffer
  ag_executed :: "string list"

record verified_lease =
  vl_lease :: run_lease
  vl_timeout :: duration
  vl_max_output :: int

text \<open>
  What one lease meets outside: the readings of the clock, the machine, the state file, the order
  in which the buffer's map is visited, and the texts of errors.
\<close>

record lease_env =
  le_now :: time
  le_started_at :: time
  le_clock :: "nat \<Rightarrow> time"
  le_machine :: machine
  le_store :: store_env
  le_iter :: "run_table \<Rightarrow> run_table"
  le_text :: "spawn_error \<Rightarrow> string"
  le_ctx_ended :: bool

section \<open>Checks\<close>

datatype lease_error =
    NoRunID | OtherMachine string | StillActive | LeaseExpired | NoCommand | BadTimeout int | BadOutputLimit int

text \<open>\<open>verify\<close>.\<close>

definition verify :: "time \<Rightarrow> agent \<Rightarrow> run_lease \<Rightarrow> lease_error + verified_lease" where
  "verify now a lease =
     (if rl_run_id lease = [] then Inl NoRunID
      else if rl_machine_id lease \<noteq> cf_machine_id (ag_cfg a) then Inl (OtherMachine (rl_machine_id lease))
      else if IsActive (rl_run_id lease) (fst (ag_store a)) then Inl StillActive
      else if \<not> rl_lease_expires_at lease + clockTolerance > now then Inl LeaseExpired
      else if rl_command lease = [] then Inl NoCommand
      else if rl_timeout_seconds lease \<le> 0 then Inl (BadTimeout (rl_timeout_seconds lease))
      else if rl_max_output_bytes lease \<le> 0 then Inl (BadOutputLimit (rl_max_output_bytes lease))
      else Inr \<lparr>vl_lease = lease,
             vl_timeout = seconds (min (rl_timeout_seconds lease) (cf_max_timeout_seconds (ag_cfg a))),
             vl_max_output = min (rl_max_output_bytes lease) (cf_max_output_bytes (ag_cfg a))\<rparr>)"

definition deref :: "string option \<Rightarrow> string" where
  "deref v = (case v of None \<Rightarrow> [] | Some s \<Rightarrow> s)"

definition executionUser :: "agent \<Rightarrow> run_lease \<Rightarrow> spawn_error + string" where
  "executionUser a lease =
     (let nm = deref (rl_run_as lease)
      in if nm = [] \<or> nm \<in> set (ag_run_as_allowed a) then Inr nm else Inl (NotPermitted nm))"

definition startRequest :: "duration \<Rightarrow> int \<Rightarrow> start_request" where
  "startRequest tmo maxOutput =
     \<lparr>sr_timeout_seconds = (if tmo \<ge> 0 then tmo div second else - ((- tmo) div second)),
      sr_max_output_bytes = maxOutput\<rparr>"

section \<open>Requests\<close>

definition workRequest :: "agent \<Rightarrow> work_request" where
  "workRequest a =
     (let free = cf_max_concurrent_runs (ag_cfg a) - reg_count (ag_registry a)
      in \<lparr>wq_wait_seconds = (let p = st_poll_wait (ag_settings a)
             in if p \<ge> 0 then p div second else - ((- p) div second)),
          wq_slots = min (max free 0) MaxSlots,
          wq_active_runs = reg_active (ag_registry a),
          wq_metadata = WorkMetadata (ag_info a) (cf_insecure_http (ag_cfg a)) (ag_run_as_allowed a)\<rparr>)"

text \<open>\<open>delayAfter\<close>; the random number is taken from the world only when the backoff is asked.\<close>

definition delayAfter :: "'w server \<Rightarrow> gerror \<Rightarrow> backoff \<times> 'w \<Rightarrow> duration \<times> backoff \<times> 'w" where
  "delayAfter sv err bw =
     (if IsUnauthorized err then (AuthRetryInterval, bw)
      else if IsUnsupportedProtocol err then (AuthRetryInterval, bw)
      else case wd_random sv (snd bw) of (r, w) \<Rightarrow>
        (case Next (wd_float sv) r (fst bw) of (d, b) \<Rightarrow>
           if IsRetryable err then (max d (RetryAfter err), b, w) else (d, b, w)))"

section \<open>Starting a Run\<close>

definition new_chunker :: "lease_env \<Rightarrow> agent \<Rightarrow> verified_lease \<Rightarrow> chunker" where
  "new_chunker e a v =
     NewChunker (rl_run_id (vl_lease v))
       \<lparr>co_chunk_bytes = st_chunk_bytes (ag_settings a), co_flush_interval = st_flush_interval (ag_settings a),
        co_max_output = vl_max_output v, co_now = le_clock e\<rparr>"

definition new_run :: "lease_env \<Rightarrow> agent \<Rightarrow> verified_lease \<Rightarrow> run" where
  "new_run e a v =
     \<lparr>ar_lease = vl_lease v, ar_timeout = vl_timeout v, ar_max_output = vl_max_output v,
      ar_started_at = 0, ar_start_accepted = False, ar_process = None,
      ar_chunker = new_chunker e a v, ar_spawn_err = None, ar_spawn_reason = [],
      ar_cancelled_before_start = False, ar_cancel_once = False\<rparr>"

text \<open>\<open>start\<close>: \<open>StartRun\<close> is retried; \<open>None\<close> means it never stops failing.\<close>

definition start :: "'w server \<Rightarrow> verified_lease \<Rightarrow> 'w \<Rightarrow> (bool \<times> 'w) option" where
  "start sv v w =
     (case Retry (wd_float sv)
             (\<lambda>w. failure (wd_start sv (rl_run_id (vl_lease v)) (startRequest (vl_timeout v) (vl_max_output v)) w))
             (wd_random sv) (wd_sleep sv) new_backoff w of
        None \<Rightarrow> None
      | Some (err, _, w') \<Rightarrow> Some (err = None, w'))"

definition lease_spec :: "agent \<Rightarrow> verified_lease \<Rightarrow> string \<Rightarrow> spec" where
  "lease_spec a v runAs =
     (let lease = vl_lease v
      in \<lparr>sp_run_id = rl_run_id lease, sp_job_name = rl_job_name lease,
          sp_machine_id = cf_machine_id (ag_cfg a), sp_command = rl_command lease, sp_run_as = runAs,
          sp_shell = deref (rl_shell lease), sp_working_dir = deref (rl_working_directory lease),
          sp_env = rl_environment lease, sp_timeout = vl_timeout v, sp_max_output = vl_max_output v\<rparr>)"

text \<open>\<open>notStarted\<close>: the error is the whole log of the Run. \<open>None\<close> is a panic in the output code.\<close>

definition notStarted :: "lease_env \<Rightarrow> run \<Rightarrow> finish_reason \<Rightarrow> spawn_error \<Rightarrow> agent \<Rightarrow> (run \<times> agent) option" where
  "notStarted e r reason err a =
     (case Write StreamStderr (le_text e err @ ''\<newline>'') (ar_chunker r) of
        None \<Rightarrow> None
      | Some c1 \<Rightarrow>
          (let c2 = fst (Close c1)
           in case receive (le_iter e) (ar_chunker r) c2 (ag_buffer a) of
                None \<Rightarrow> None
              | Some b \<Rightarrow>
                  Some (r\<lparr>ar_spawn_err := Some err, ar_spawn_reason := reason, ar_chunker := c2\<rparr>,
                        a\<lparr>ag_buffer := b\<rparr>)))"

definition spawn :: "lease_env \<Rightarrow> verified_lease \<Rightarrow> agent \<Rightarrow> (run \<times> agent) option" where
  "spawn e v a =
     (let r = (new_run e a v)\<lparr>ar_started_at := le_started_at e, ar_start_accepted := True\<rparr>
      in case executionUser a (vl_lease v) of
           Inl err \<Rightarrow> notStarted e r ReasonRunAsNotPermitted err a
         | Inr runAs \<Rightarrow>
             (case Start (le_machine e) (ag_runner a) (le_ctx_ended e) (lease_spec a v runAs) of
                Inl err \<Rightarrow> notStarted e r ReasonSpawnFailed (NotStarted err) a
              | Inr c \<Rightarrow>
                  Some (r\<lparr>ar_process := Some (new_process (cm_pgid c) (cm_grace c) (le_started_at e))\<rparr>,
                        a\<lparr>ag_store := fst (MarkActive (le_store e)
                            \<lparr>av_run_id = rl_run_id (vl_lease v), av_pid = mc_pid (le_machine e),
                             av_pgid = cm_pgid c, av_started_at = le_started_at e\<rparr> (ag_store a)),
                          ag_executed := ag_executed a @ [rl_run_id (vl_lease v)]\<rparr>)))"

definition launch :: "run \<Rightarrow> agent \<Rightarrow> agent" where
  "launch r a = a\<lparr>ag_registry := reg_add r (ag_registry a)\<rparr>"

section \<open>Leases\<close>

text \<open>\<open>acknowledge\<close> and \<open>Resend\<close>: one request each, whose answer changes nothing here.\<close>

definition acknowledge :: "'w server \<Rightarrow> run \<Rightarrow> 'w \<Rightarrow> 'w" where
  "acknowledge sv r w =
     (if \<not> ar_start_accepted r then w
      else snd (wd_start sv (run_id r) (startRequest (ar_timeout r) (ar_max_output r)) w))"

definition resend_request :: "recent_run \<Rightarrow> finish_request" where
  "resend_request out =
     \<lparr>fq_status = rr_status out, fq_exit_code = rr_exit_code out, fq_started_at = rr_started_at out,
      fq_finished_at = rr_finished_at out, fq_last_output_seq = 0, fq_output_truncated = False,
      fq_reason = rr_reason out\<rparr>"

definition Resend :: "'w server \<Rightarrow> run_lease \<Rightarrow> recent_run \<Rightarrow> 'w \<Rightarrow> gerror option \<times> 'w" where
  "Resend sv lease out w =
     (case wd_finish sv (rl_run_id lease) (resend_request out) w of
        (Inl e, w') \<Rightarrow> (if IsConflict e ErrRunFinished then None else Some (Wrap ''finish again'' e), w')
      | (Inr _, w') \<Rightarrow> (None, w'))"

definition reject :: "string \<Rightarrow> agent \<Rightarrow> agent" where
  "reject i a = a\<lparr>ag_rejected := snd (rejected_first i (ag_rejected a))\<rparr>"

definition handleLease :: "lease_env \<Rightarrow> 'w server \<Rightarrow> run_lease \<Rightarrow> bool \<Rightarrow> agent \<times> 'w \<Rightarrow> (agent \<times> 'w) option" where
  "handleLease e sv lease cancelled aw =
     (case aw of (a, w) \<Rightarrow>
        let i = rl_run_id lease
        in case reg_get i (ag_registry a) of
             Some r \<Rightarrow> Some (a, acknowledge sv r w)
           | None \<Rightarrow>
               (case RecentOutcome i (fst (ag_store a)) of
                  Some out \<Rightarrow> Some (a, snd (Resend sv lease out w))
                | None \<Rightarrow>
                    (case verify (le_now e) a lease of
                       Inl _ \<Rightarrow> Some (reject i a, w)
                     | Inr v \<Rightarrow>
                         if cancelled then
                           Some (launch ((new_run e a v)\<lparr>ar_cancelled_before_start := True\<rparr>) a, w)
                         else if reg_count (ag_registry a) \<ge> cf_max_concurrent_runs (ag_cfg a)
                         then Some (reject i a, w)
                         else (case start sv v w of
                             None \<Rightarrow> None
                           | Some (ok, w') \<Rightarrow>
                               if \<not> ok then Some (a, w')
                               else (case spawn e v a of
                                   None \<Rightarrow> None
                                 | Some (r, a') \<Rightarrow> Some (launch r a', w'))))))"

text \<open>\<open>cancel\<close> and \<open>cancelAll\<close>.\<close>

definition cancel_run :: "string \<Rightarrow> run \<Rightarrow> run" where
  "cancel_run reason r =
     r\<lparr>ar_process := map_option (Cancel reason) (ar_process r)\<rparr>"

fun cancel_ids :: "string list \<Rightarrow> agent \<Rightarrow> agent" where
  "cancel_ids [] a = a"
| "cancel_ids (i # is) a =
     (case reg_get i (ag_registry a) of
        None \<Rightarrow> cancel_ids is a
      | Some r \<Rightarrow>
          if ar_process r = None \<or> ar_cancel_once r then cancel_ids is a
          else cancel_ids is (a\<lparr>ag_registry := reg_update i
                 (\<lambda>r. (cancel_run CancelRequested r)\<lparr>ar_cancel_once := True\<rparr>) (ag_registry a)\<rparr>))"

definition cancelAll :: "agent \<Rightarrow> agent" where
  "cancelAll a = a\<lparr>ag_registry := map (cancel_run AgentStopped) (ag_registry a)\<rparr>"

text \<open>One successful poll; \<open>es\<close> are the environments of its leases, in order.\<close>

fun handle_leases :: "(run_lease \<Rightarrow> bool) \<Rightarrow> 'w server \<Rightarrow> (lease_env \<times> run_lease) list \<Rightarrow> agent \<times> 'w \<Rightarrow>
    (agent \<times> 'w) option" where
  "handle_leases cancelled sv [] aw = Some aw"
| "handle_leases cancelled sv ((e, l) # ls) aw =
     (case handleLease e sv l (cancelled l) aw of
        None \<Rightarrow> None | Some aw' \<Rightarrow> handle_leases cancelled sv ls aw')"

definition poll_round :: "lease_env list \<Rightarrow> 'w server \<Rightarrow> work_response \<Rightarrow> agent \<times> 'w \<Rightarrow> (agent \<times> 'w) option" where
  "poll_round es sv response aw =
     (let a = (fst aw)\<lparr>ag_backoff := Reset_backoff (ag_backoff (fst aw)),
                       ag_settings := apply_settings (wr_config response) (ag_settings (fst aw))\<rparr>;
          a1 = cancel_ids (wr_cancel_run_ids response) a
      in handle_leases (\<lambda>l. rl_run_id l \<in> set (wr_cancel_run_ids response)) sv
           (zip es (wr_runs response)) (a1, snd aw))"

section \<open>Startup\<close>

definition adopt :: "store_env \<Rightarrow> agent \<Rightarrow> agent" where
  "adopt e a =
     (let recorded = MachineID (fst (ag_store a))
      in if recorded = cf_machine_id (ag_cfg a) then a
         else if recorded \<noteq> [] then a\<lparr>ag_store := fst (Reset e (cf_machine_id (ag_cfg a)) (ag_store a))\<rparr>
         else a\<lparr>ag_store := fst (SetMachineID e (cf_machine_id (ag_cfg a)) (ag_store a))\<rparr>)"

definition lost_outcome :: "active_run \<Rightarrow> outcome" where
  "lost_outcome r = \<lparr>oc_status = RunStatusLost, oc_exit_code = None,
     oc_started_at = Some (av_started_at r), oc_reason = Some ReasonAgentRestarted\<rparr>"

definition mark_lost :: "store_env \<Rightarrow> active_run \<Rightarrow> agent \<Rightarrow> agent" where
  "mark_lost e r a = a\<lparr>ag_store := fst (MarkFinished e (av_run_id r) (lost_outcome r) (ag_store a))\<rparr>"

text \<open>\<open>reconcile\<close>, without the goroutines it starts (\<open>report_lost\<close> is what each of them does).\<close>

definition reconcile :: "store_env list \<Rightarrow> agent \<Rightarrow> agent" where
  "reconcile es a = fold (\<lambda>(e, r). mark_lost e r) (zip es (Active (fst (ag_store a)))) a"

definition lost_request :: "time \<Rightarrow> active_run \<Rightarrow> finish_request" where
  "lost_request now r =
     \<lparr>fq_status = RunStatusLost, fq_exit_code = None, fq_started_at = Some (av_started_at r),
      fq_finished_at = now, fq_last_output_seq = 0, fq_output_truncated = False,
      fq_reason = Some ReasonAgentRestarted\<rparr>"

definition reportLost :: "time \<Rightarrow> 'w server \<Rightarrow> active_run \<Rightarrow> 'w \<Rightarrow> (gerror option \<times> 'w) option" where
  "reportLost now sv r w =
     (case Retry (wd_float sv) (\<lambda>w. failure (wd_finish sv (av_run_id r) (lost_request now r) w))
             (wd_random sv) (wd_sleep sv) new_backoff w of
        None \<Rightarrow> None
      | Some (None, _, w') \<Rightarrow> Some (None, w')
      | Some (Some e, _, w') \<Rightarrow>
          if IsConflict e ErrRunFinished \<or> IsConflict e ErrNotLeased \<or> IsNotFound e then Some (None, w')
          else Some (Some (Wrap ''finish as lost'' e), w'))"

text \<open>What a reporter does to the agent when it is done with a Run: \<open>MarkFinished\<close>, \<open>Forget\<close>, and the
  removal from the registry that \<open>launch\<close> deferred.\<close>

definition release :: "store_env \<Rightarrow> string \<Rightarrow> outcome \<Rightarrow> agent \<Rightarrow> agent" where
  "release e i out a =
     a\<lparr>ag_store := fst (MarkFinished e i out (ag_store a)), ag_buffer := Forget i (ag_buffer a),
       ag_registry := reg_remove i (ag_registry a)\<rparr>"

end
