(* ===== verification/Agent_Safety.thy ===== *)
theory Agent_Safety
  imports Agent_Lease
begin

text \<open>
  What the agent's handling of leases guarantees, over every interleaving of leases, cancellations,
  finished Runs and restarts. The ledger of Runs (\<open>run_ledger\<close>) carries the facts about the state
  store.
\<close>

section \<open>One lease\<close>

lemma verify_lease: "verify now a lease = Inr v \<Longrightarrow> vl_lease v = lease"
  by (auto simp: verify_def split: if_splits)

lemma verify_not_active: "verify now a lease = Inr v \<Longrightarrow> \<not> IsActive (rl_run_id lease) (fst (ag_store a))"
  by (auto simp: verify_def split: if_splits)

definition same_core :: "agent \<Rightarrow> agent \<Rightarrow> bool" where
  "same_core a a' \<longleftrightarrow> ag_cfg a' = ag_cfg a \<and> ag_run_as_allowed a' = ag_run_as_allowed a \<and>
     ag_runner a' = ag_runner a \<and> ag_registry a' = ag_registry a"

lemma notStarted_facts:
  "notStarted e r reason err a = Some (r', a') \<Longrightarrow>
   ar_lease r' = ar_lease r \<and> ar_start_accepted r' = ar_start_accepted r \<and>
   ar_process r' = ar_process r \<and> ar_spawn_err r' = Some err \<and> ar_spawn_reason r' = reason \<and>
   same_core a a' \<and> ag_store a' = ag_store a \<and> ag_executed a' = ag_executed a"
  by (auto simp: notStarted_def same_core_def Let_def split: option.splits)

definition started_run :: "lease_env \<Rightarrow> agent \<Rightarrow> verified_lease \<Rightarrow> command \<Rightarrow> agent \<Rightarrow> bool" where
  "started_run e a v c a' \<longleftrightarrow>
     ag_store a' = fst (MarkActive (le_store e) \<lparr>av_run_id = rl_run_id (vl_lease v),
        av_pid = mc_pid (le_machine e), av_pgid = cm_pgid c, av_started_at = le_started_at e\<rparr> (ag_store a)) \<and>
     ag_executed a' = ag_executed a @ [rl_run_id (vl_lease v)]"

lemma spawn_facts:
  assumes "spawn e v a = Some (r, a')"
  shows "ar_lease r = vl_lease v \<and> ar_start_accepted r \<and> same_core a a' \<and>
    (ag_store a' = ag_store a \<and> ag_executed a' = ag_executed a \<and> ar_process r = None \<and> ar_spawn_err r \<noteq> None \<or>
     (\<exists>runAs c. executionUser a (vl_lease v) = Inr runAs \<and>
        Start (le_machine e) (ag_runner a) (le_ctx_ended e) (lease_spec a v runAs) = Inr c \<and>
        started_run e a v c a'))"
proof (cases "executionUser a (vl_lease v)")
  case (Inl err)
  with assms have "notStarted e ((new_run e a v)\<lparr>ar_started_at := le_started_at e, ar_start_accepted := True\<rparr>)
      ReasonRunAsNotPermitted err a = Some (r, a')" by (simp add: spawn_def)
  from notStarted_facts [OF this] show ?thesis by (simp add: new_run_def)
next
  case (Inr runAs)
  show ?thesis
  proof (cases "Start (le_machine e) (ag_runner a) (le_ctx_ended e) (lease_spec a v runAs)")
    case (Inl err)
    with assms Inr have "notStarted e
        ((new_run e a v)\<lparr>ar_started_at := le_started_at e, ar_start_accepted := True\<rparr>)
        ReasonSpawnFailed (NotStarted err) a = Some (r, a')" by (simp add: spawn_def)
    from notStarted_facts [OF this] show ?thesis by (simp add: new_run_def)
  next
    case (Inr c)
    with assms \<open>executionUser a (vl_lease v) = Inr runAs\<close> show ?thesis
      by (auto simp: spawn_def new_run_def same_core_def started_run_def)
  qed
qed

text \<open>The three things a lease can do: nothing, a Run cancelled before its start, a start.\<close>

lemma handleLease_cases:
  assumes "handleLease e sv lease cancelled (a, w) = Some (a', w')"
  obtains (nothing) "same_core a a'" and "ag_store a' = ag_store a" and "ag_executed a' = ag_executed a"
  | (unstarted) r where "reg_get (rl_run_id lease) (ag_registry a) = None" and "ar_lease r = lease"
      and "\<not> ar_start_accepted r" and "a' = launch r a"
  | (accepted) v r a1 where "reg_get (rl_run_id lease) (ag_registry a) = None"
      and "RecentOutcome (rl_run_id lease) (fst (ag_store a)) = None"
      and "verify (le_now e) a lease = Inr v" and "vl_lease v = lease"
      and "reg_count (ag_registry a) < cf_max_concurrent_runs (ag_cfg a)"
      and "start sv v w = Some (True, w')" and "spawn e v a = Some (r, a1)" and "a' = launch r a1"
proof (cases "reg_get (rl_run_id lease) (ag_registry a)")
  case (Some r)
  show thesis by (rule nothing) (use Some assms in \<open>simp_all add: handleLease_def same_core_def\<close>)
next
  case get: None
  show thesis
  proof (cases "RecentOutcome (rl_run_id lease) (fst (ag_store a))")
    case (Some out)
    show thesis by (rule nothing) (use Some get assms in \<open>simp_all add: handleLease_def same_core_def\<close>)
  next
    case recent: None
    show thesis
    proof (cases "verify (le_now e) a lease")
      case (Inl err)
      show thesis
        by (rule nothing) (use Inl get recent assms in \<open>auto simp: handleLease_def same_core_def reject_def\<close>)
    next
      case (Inr v)
      note v = verify_lease [OF Inr]
      show thesis
      proof (cases "cancelled \<or> reg_count (ag_registry a) \<ge> cf_max_concurrent_runs (ag_cfg a)")
        case True
        show thesis
        proof (cases cancelled)
          case True
          show thesis
            by (rule unstarted [of "(new_run e a v)\<lparr>ar_cancelled_before_start := True\<rparr>"])
              (use True get recent Inr v assms in \<open>simp_all add: handleLease_def new_run_def\<close>)
        next
          case False
          show thesis
        by (rule nothing) (use True False get recent Inr assms in \<open>auto simp: handleLease_def same_core_def reject_def\<close>)
        qed
      next
        case False
        with get recent Inr assms obtain ok w1 where st: "start sv v w = Some (ok, w1)"
          by (auto simp: handleLease_def split: option.splits)
        show thesis
        proof (cases ok)
          case True
          with False get recent Inr assms st obtain r a1 where "spawn e v a = Some (r, a1)"
            and "a' = launch r a1" and "w' = w1"
            by (auto simp: handleLease_def split: option.splits)
          show thesis
            by (rule accepted [OF get recent Inr v])
              (use True False st \<open>spawn e v a = Some (r, a1)\<close> \<open>a' = launch r a1\<close> \<open>w' = w1\<close> in simp_all)
        next
          case no: False
          show thesis
        by (rule nothing) (use no False get recent Inr assms st in \<open>auto simp: handleLease_def same_core_def\<close>)
        qed
      qed
    qed
  qed
qed

section \<open>The agent over time\<close>

definition recorded_in :: "agent \<Rightarrow> string \<Rightarrow> bool" where
  "recorded_in a i \<longleftrightarrow> RecentOutcome i (fst (ag_store a)) \<noteq> None"

definition active_in :: "agent \<Rightarrow> string \<Rightarrow> bool" where
  "active_in a i \<longleftrightarrow> IsActive i (fst (ag_store a))"

text \<open>The Runs whose outcome a step dropped from the record.\<close>

definition dropped :: "agent \<Rightarrow> agent \<Rightarrow> string set" where
  "dropped a a' = {i. recorded_in a i \<and> \<not> recorded_in a' i}"

text \<open>Progress of a Run that leaves alone what it is: its process, its chunker, its cancellation.\<close>

definition run_progress :: "(run \<Rightarrow> run) \<Rightarrow> bool" where
  "run_progress g \<longleftrightarrow> (\<forall>r. ar_lease (g r) = ar_lease r \<and> ar_start_accepted (g r) = ar_start_accepted r)"

text \<open>
  The steps, in any order: a lease of the poll loop; a reporter that is done with its Run; a
  cancellation; a stop signal; new settings; progress of processes, output and the outside world;
  the end of the process with a new one that reads the same state file; and, before the new one
  polls, a Run the old one left active being marked lost. The last component collects the Runs
  whose outcomes were dropped.
\<close>

inductive astep :: "'w server \<Rightarrow> agent \<times> 'w \<times> string set \<Rightarrow> agent \<times> 'w \<times> string set \<Rightarrow> bool" for sv where
  lease: "handleLease e sv l cancelled (a, w) = Some (a', w') \<Longrightarrow>
    astep sv (a, w, f) (a', w', f \<union> dropped a a')"
| released: "reg_get i (ag_registry a) \<noteq> None \<Longrightarrow> prompt_env e \<Longrightarrow>
    astep sv (a, w, f) (release e i out a, w, f \<union> dropped a (release e i out a))"
| cancelled: "astep sv (a, w, f) (cancel_ids ids a, w, f)"
| stopped: "astep sv (a, w, f) (cancelAll a, w, f)"
| settings: "astep sv (a, w, f) (a\<lparr>ag_settings := s, ag_backoff := b\<rparr>, w, f)"
| progress: "run_progress g \<Longrightarrow>
    astep sv (a, w, f) (a\<lparr>ag_registry := map g (ag_registry a), ag_buffer := b\<rparr>, w', f)"
| restarted: "astep sv (a, w, f)
    (a\<lparr>ag_registry := [], ag_rejected := [], ag_settings := DefaultSettings, ag_buffer := b\<rparr>, w', f)"
| lost: "ag_registry a = [] \<Longrightarrow> r \<in> set (Active (fst (ag_store a))) \<Longrightarrow> prompt_env e \<Longrightarrow>
    astep sv (a, w, f) (mark_lost e r a, w, f \<union> dropped a (mark_lost e r a))"

inductive areach :: "'w server \<Rightarrow> agent \<times> 'w \<times> string set \<Rightarrow> agent \<times> 'w \<times> string set \<Rightarrow> bool" for sv s where
  start: "areach sv s s"
| step: "areach sv s t \<Longrightarrow> astep sv t u \<Longrightarrow> areach sv s u"

section \<open>The invariant\<close>

definition accepted_runs :: "agent \<Rightarrow> nat" where
  "accepted_runs a = length (filter ar_start_accepted (ag_registry a))"

definition ainv :: "agent \<Rightarrow> string set \<Rightarrow> bool" where
  "ainv a f \<longleftrightarrow> disk_store_ok (ag_store a) \<and> distinct (map run_id (ag_registry a)) \<and>
     (\<forall>i\<in>set (ag_executed a). i \<in> f \<or> active_in a i \<or> recorded_in a i) \<and>
     distinct (filter (\<lambda>i. i \<notin> f) (ag_executed a)) \<and>
     int (accepted_runs a) \<le> cf_max_concurrent_runs (ag_cfg a)"

lemma ainvI:
  assumes "ainv a f" and "disk_store_ok (ag_store a')" and "ag_cfg a' = ag_cfg a"
    and "distinct (map run_id (ag_registry a'))" and "accepted_runs a' \<le> accepted_runs a"
    and "ag_executed a' = ag_executed a"
    and "\<And>i. active_in a i \<Longrightarrow> active_in a' i \<or> recorded_in a' i"
    and "f' = f \<union> dropped a a'"
  shows "ainv a' f'"
  unfolding ainv_def
proof (intro conjI ballI)
  have inv: "\<forall>i\<in>set (ag_executed a). i \<in> f \<or> active_in a i \<or> recorded_in a i"
    "distinct (filter (\<lambda>i. i \<notin> f) (ag_executed a))"
    "int (accepted_runs a) \<le> cf_max_concurrent_runs (ag_cfg a)"
    using assms(1) by (simp_all add: ainv_def)
  show "disk_store_ok (ag_store a')" "distinct (map run_id (ag_registry a'))" by fact+
  show "int (accepted_runs a') \<le> cf_max_concurrent_runs (ag_cfg a')" using inv(3) assms(3,5) by simp
  have "filter (\<lambda>i. i \<notin> f') (ag_executed a) = filter (\<lambda>i. i \<notin> f') (filter (\<lambda>i. i \<notin> f) (ag_executed a))"
    using assms(8) by (auto simp: intro: filter_cong)
  with inv(2) show "distinct (filter (\<lambda>i. i \<notin> f') (ag_executed a'))"
    unfolding assms(6) by (metis distinct_filter)
  fix i assume "i \<in> set (ag_executed a')"
  with inv(1) assms(6,7,8) show "i \<in> f' \<or> active_in a' i \<or> recorded_in a' i"
    by (auto simp: dropped_def)
qed

lemma dropped_same: "ag_store a' = ag_store a \<Longrightarrow> dropped a a' = {}"
  by (auto simp: dropped_def recorded_in_def)

lemma ainv_frame:
  assumes "ainv a f" and "ag_store a' = ag_store a" and "ag_cfg a' = ag_cfg a"
    and "ag_executed a' = ag_executed a" and "distinct (map run_id (ag_registry a'))"
    and "accepted_runs a' \<le> accepted_runs a"
  shows "ainv a' f"
  by (rule ainvI [OF assms(1) _ assms(3,5,6,4)])
    (use assms in \<open>simp_all add: ainv_def active_in_def recorded_in_def dropped_same\<close>)

lemma ainv_registry_map:
  assumes "ainv a f" and "\<And>r. ar_lease (g r) = ar_lease r \<and> ar_start_accepted (g r) = ar_start_accepted r"
    and "ag_store a' = ag_store a" and "ag_cfg a' = ag_cfg a"
    and "ag_executed a' = ag_executed a" and "ag_registry a' = map g (ag_registry a)"
  shows "ainv a' f"
proof (rule ainv_frame [OF assms(1,3,4,5)])
  show "distinct (map run_id (ag_registry a'))"
    using assms(1,2) by (simp add: ainv_def assms(6) comp_def)
  show "accepted_runs a' \<le> accepted_runs a"
    using assms(2) by (simp add: accepted_runs_def assms(6) filter_map comp_def)
qed

lemma cancel_run_facts [simp]: "ar_lease (cancel_run m r) = ar_lease r"
  "ar_start_accepted (cancel_run m r) = ar_start_accepted r"
  by (simp_all add: cancel_run_def)

lemma ainv_cancel: "ainv a f \<Longrightarrow> ainv (cancel_ids ids a) f"
proof (induction ids arbitrary: a)
  case (Cons i ids)
  have "ainv (a\<lparr>ag_registry := reg_update i
      (\<lambda>r. (cancel_run CancelRequested r)\<lparr>ar_cancel_once := True\<rparr>) (ag_registry a)\<rparr>) f"
    by (rule ainv_registry_map [OF Cons.prems, of "\<lambda>r. if run_id r = i then
        (cancel_run CancelRequested r)\<lparr>ar_cancel_once := True\<rparr> else r"]) (simp_all add: reg_update_def)
  with Cons show ?case by (auto split: option.split)
qed simp

text \<open>A finished Run is on record; another one keeps its place.\<close>

lemma finish_ledger:
  assumes "disk_store_ok sd" and "prompt_env e"
  shows "disk_store_ok (fst (MarkFinished e j out sd)) \<and>
    (IsActive i (fst sd) \<longrightarrow> IsActive i (fst (fst (MarkFinished e j out sd))) \<or>
       RecentOutcome i (fst (fst (MarkFinished e j out sd))) \<noteq> None)"
  using run_ledger.good_finish [OF assms(1)] run_ledger.active_finish [of i e j out sd]
    run_ledger.recorded_finish [OF assms, of j out] by (cases "i = j") simp_all

lemma ainv_release:
  assumes "ainv a f" and "prompt_env e"
  shows "ainv (release e i out a) (f \<union> dropped a (release e i out a))"
proof (rule ainvI [OF assms(1) _ _ _ _ _ _ refl])
  have sd: "disk_store_ok (ag_store a)" using assms(1) by (simp add: ainv_def)
  show "disk_store_ok (ag_store (release e i out a))"
    using finish_ledger [OF sd assms(2)] by (simp add: release_def)
  show "distinct (map run_id (ag_registry (release e i out a)))"
    using assms(1) distinct_reg_remove by (simp add: release_def ainv_def)
  show "accepted_runs (release e i out a) \<le> accepted_runs a"
    using length_filter_reg_remove by (simp add: release_def accepted_runs_def)
  show "active_in (release e i out a) j \<or> recorded_in (release e i out a) j" if "active_in a j" for j
    using finish_ledger [OF sd assms(2), of i out j] that
    by (simp add: release_def active_in_def recorded_in_def)
qed (simp_all add: release_def)

lemma ainv_lost:
  assumes "ainv a f" and "prompt_env e"
  shows "ainv (mark_lost e r a) (f \<union> dropped a (mark_lost e r a))"
proof (rule ainvI [OF assms(1) _ _ _ _ _ _ refl])
  have sd: "disk_store_ok (ag_store a)" using assms(1) by (simp add: ainv_def)
  show "disk_store_ok (ag_store (mark_lost e r a))"
    using finish_ledger [OF sd assms(2)] by (simp add: mark_lost_def)
  show "active_in (mark_lost e r a) j \<or> recorded_in (mark_lost e r a) j" if "active_in a j" for j
    using finish_ledger [OF sd assms(2), of "av_run_id r" "lost_outcome r" j] that
    by (simp add: mark_lost_def active_in_def recorded_in_def)
qed (use assms(1) in \<open>simp_all add: mark_lost_def ainv_def accepted_runs_def\<close>)

lemma accepted_launch: "accepted_runs (launch r a) = accepted_runs a + (if ar_start_accepted r then 1 else 0)"
  by (simp add: accepted_runs_def launch_def reg_add_def)

lemma launch_facts [simp]: "ag_store (launch r a) = ag_store a" "ag_cfg (launch r a) = ag_cfg a"
  "ag_executed (launch r a) = ag_executed a" "ag_registry (launch r a) = ag_registry a @ [r]"
  by (simp_all add: launch_def reg_add_def)

lemma accepted_le_count: "int (accepted_runs a) \<le> reg_count (ag_registry a)"
  by (simp add: accepted_runs_def reg_count_def)

text \<open>A lease that starts a process adds it to what is executed, and marks it active.\<close>

lemma ainv_accepted:
  assumes inv: "ainv a f" and get: "reg_get (rl_run_id l) (ag_registry a) = None"
    and recent: "RecentOutcome (rl_run_id l) (fst (ag_store a)) = None"
    and v: "verify now a l = Inr v"
    and free: "reg_count (ag_registry a) < cf_max_concurrent_runs (ag_cfg a)"
    and sp: "spawn e v a = Some (r, a1)"
  shows "ainv (launch r a1) (f \<union> dropped a (launch r a1))"
proof -
  let ?i = "rl_run_id l" and ?a = "launch r a1"
  note lease = verify_lease [OF v]
  have r: "run_id r = ?i" "ar_start_accepted r" and core: "same_core a a1"
    using spawn_facts [OF sp] lease by simp_all
  have sd: "disk_store_ok (ag_store a)" using inv by (simp add: ainv_def)
  have reg: "distinct (map run_id (ag_registry ?a))"
    using inv get r core by (auto simp: ainv_def reg_get_None same_core_def)
  have acc: "int (accepted_runs ?a) \<le> cf_max_concurrent_runs (ag_cfg ?a)"
    using free accepted_le_count [of a] core r
    by (simp add: accepted_launch same_core_def accepted_runs_def)
  have unknown: "\<not> active_in a ?i" "\<not> recorded_in a ?i"
    using verify_not_active [OF v] recent by (simp_all add: active_in_def recorded_in_def)
  from spawn_facts [OF sp] consider
    (idle) "ag_store a1 = ag_store a" "ag_executed a1 = ag_executed a"
    | (started) c where "started_run e a v c a1" by blast
  then show ?thesis
  proof cases
    case idle
    then show ?thesis
      using inv reg acc core by (simp add: ainv_def dropped_same active_in_def recorded_in_def)
  next
    case (started c)
    let ?run = "\<lparr>av_run_id = ?i, av_pid = mc_pid (le_machine e), av_pgid = cm_pgid c,
      av_started_at = le_started_at e\<rparr>"
    have store: "ag_store a1 = fst (MarkActive (le_store e) ?run (ag_store a))"
      and exec: "ag_executed a1 = ag_executed a @ [?i]"
      using started lease by (simp_all add: started_run_def)
    have good: "disk_store_ok (ag_store ?a)" using run_ledger.good_mark [OF sd] store by simp
    have act: "active_in ?a j \<longleftrightarrow> j = ?i \<or> active_in a j" for j
      using run_ledger.active_mark [of j "le_store e" ?run] store by (simp add: active_in_def)
    have known: "j \<in> f \<union> dropped a ?a \<or> active_in ?a j \<or> recorded_in ?a j" if "j \<in> set (ag_executed ?a)" for j
      using that inv exec act by (auto simp: ainv_def dropped_def)
    have "filter (\<lambda>j. j \<notin> f \<union> dropped a ?a) (ag_executed a) =
        filter (\<lambda>j. j \<notin> f \<union> dropped a ?a) (filter (\<lambda>j. j \<notin> f) (ag_executed a))"
      by (auto intro: filter_cong)
    then have d: "distinct (filter (\<lambda>j. j \<notin> f \<union> dropped a ?a) (ag_executed a))"
      using inv by (metis ainv_def distinct_filter)
    have "?i \<notin> set (ag_executed a) \<or> ?i \<in> f" using inv unknown by (auto simp: ainv_def)
    with d have "distinct (filter (\<lambda>j. j \<notin> f \<union> dropped a ?a) (ag_executed ?a))"
      using exec by auto
    with good reg acc known show ?thesis by (simp add: ainv_def)
  qed
qed

lemma ainv_step:
  assumes "astep sv s t" and "ainv (fst s) (snd (snd s))"
  shows "ainv (fst t) (snd (snd t))"
  using assms
proof (induction rule: astep.induct)
  case (lease e l cancelled a w a' w' f)
  then have inv: "ainv a f" by simp
  from lease.hyps show ?case
  proof (cases rule: handleLease_cases)
    case nothing
    then show ?thesis
      using ainv_frame [OF inv, of a'] inv
      by (simp add: dropped_same same_core_def ainv_def accepted_runs_def active_in_def recorded_in_def)
  next
    case (unstarted r)
    then have "ainv a' f"
      using inv by (intro ainv_frame [OF inv]) (auto simp: accepted_launch ainv_def reg_get_None)
    with unstarted show ?thesis by (simp add: dropped_same)
  next
    case (accepted v r a1)
    then show ?thesis using ainv_accepted [OF inv] by simp
  qed
next
  case (released i a e w f out)
  then show ?case using ainv_release by simp
next
  case (cancelled a w f ids)
  then show ?case using ainv_cancel by simp
next
  case (stopped a w f)
  then have "ainv a f" by simp
  then show ?case
    by (simp, elim ainv_registry_map [where g = "cancel_run AgentStopped"]) (simp_all add: cancelAll_def)
next
  case (settings a w f s b)
  then have "ainv a f" by simp
  then show ?case by (simp, elim ainv_registry_map [where g = id]) simp_all
next
  case (progress g a w f b w')
  then have "ainv a f" by simp
  then show ?case
    by (simp, elim ainv_registry_map [where g = g]) (use progress.hyps in \<open>simp_all add: run_progress_def\<close>)
next
  case (restarted a w f b w')
  then have "ainv a f" by simp
  then show ?case by (simp, elim ainv_frame) (simp_all add: accepted_runs_def)
next
  case (lost a r e w f)
  then show ?case using ainv_lost by simp
qed

lemma ainv_reach: "areach sv s t \<Longrightarrow> ainv (fst s) (snd (snd s)) \<Longrightarrow> ainv (fst t) (snd (snd t))"
  by (induction rule: areach.induct) (auto intro: ainv_step)

section \<open>Reconciliation\<close>

text \<open>An outcome is kept by the pruning that follows another one while the record has room and
  nothing on it is too old.\<close>

definition keeps_all :: "store_env list \<Rightarrow> contents \<Rightarrow> bool" where
  "keeps_all es c \<longleftrightarrow>
     (\<forall>e\<in>set es. (\<forall>r\<in>set (cn_recent c). se_now2 e - RecentRunTTL \<le> rr_finished_at r) \<and>
        (\<forall>e'\<in>set es. se_now2 e - RecentRunTTL \<le> se_now e'))"

lemma prune_id:
  "length (cn_recent c) \<le> MaxRecentRuns \<Longrightarrow> \<forall>r\<in>set (cn_recent c). t - RecentRunTTL \<le> rr_finished_at r \<Longrightarrow>
   prune t c = c"
proof -
  assume len: "length (cn_recent c) \<le> MaxRecentRuns"
    and fresh: "\<forall>r\<in>set (cn_recent c). t - RecentRunTTL \<le> rr_finished_at r"
  have "filter (\<lambda>r. \<not> rr_finished_at r < t - RecentRunTTL) (cn_recent c) = cn_recent c"
    using fresh by (auto simp: filter_id_conv)
  with len show ?thesis by (simp add: prune_def Let_def)
qed

lemma mark_lost_room:
  assumes keep: "keeps_all (e # es) (so_contents (fst (ag_store a)))"
    and room: "length (cn_recent (so_contents (fst (ag_store a)))) < MaxRecentRuns"
  defines "c \<equiv> so_contents (fst (ag_store a))"
  shows "so_contents (fst (ag_store (mark_lost e r a))) =
    c\<lparr>cn_active := filter (\<lambda>q. av_run_id q \<noteq> av_run_id r) (cn_active c),
      cn_recent := upsert (\<lambda>q. rr_run_id q = av_run_id r)
        (recent_of (av_run_id r) (lost_outcome r) (se_now e)) (cn_recent c)\<rparr>"
    and "keeps_all es (so_contents (fst (ag_store (mark_lost e r a))))"
    and "length (cn_recent (so_contents (fst (ag_store (mark_lost e r a))))) \<le> Suc (length (cn_recent c))"
proof -
  let ?new = "recent_of (av_run_id r) (lost_outcome r) (se_now e)"
  let ?c = "c\<lparr>cn_active := filter (\<lambda>q. av_run_id q \<noteq> av_run_id r) (cn_active c),
      cn_recent := upsert (\<lambda>q. rr_run_id q = av_run_id r) ?new (cn_recent c)\<rparr>"
  have entries: "q = ?new \<or> q \<in> set (cn_recent c)" if "q \<in> set (cn_recent ?c)" for q
    using that set_upsert_subset [of "\<lambda>q. rr_run_id q = av_run_id r" ?new "cn_recent c"] by auto
  have fresh: "se_now2 e' - RecentRunTTL \<le> rr_finished_at q"
    if "e' \<in> set (e # es)" "q \<in> set (cn_recent ?c)" for e' q
    using entries [OF that(2)] keep that(1) by (auto simp: keeps_all_def c_def recent_of_def)
  have "length (cn_recent ?c) \<le> MaxRecentRuns"
    using room by (simp add: length_upsert c_def)
  then have "prune (se_now2 e) ?c = ?c" by (rule prune_id) (use fresh in auto)
  then show eq: "so_contents (fst (ag_store (mark_lost e r a))) = ?c"
    by (simp add: mark_lost_def MarkFinished_def c_def)
  show "keeps_all es (so_contents (fst (ag_store (mark_lost e r a))))"
    unfolding eq keeps_all_def using fresh keep by (auto simp: keeps_all_def)
  show "length (cn_recent (so_contents (fst (ag_store (mark_lost e r a))))) \<le> Suc (length (cn_recent c))"
    unfolding eq by (simp add: length_upsert)
qed

lemma reconcile_loop:
  assumes "keeps_all es (so_contents (fst (ag_store a)))"
    and "length (cn_recent (so_contents (fst (ag_store a)))) + length rs \<le> MaxRecentRuns"
    and "length es = length rs" and "distinct (map av_run_id rs)"
  shows "let c = so_contents (fst (ag_store a));
             c' = so_contents (fst (ag_store (fold (\<lambda>(e, r). mark_lost e r) (zip es rs) a)))
    in cn_active c' = filter (\<lambda>q. av_run_id q \<notin> set (map av_run_id rs)) (cn_active c) \<and>
      (\<forall>k < length rs. find (\<lambda>q. rr_run_id q = av_run_id (rs ! k)) (cn_recent c') =
         Some (recent_of (av_run_id (rs ! k)) (lost_outcome (rs ! k)) (se_now (es ! k)))) \<and>
      (\<forall>i. i \<notin> set (map av_run_id rs) \<longrightarrow>
         find (\<lambda>q. rr_run_id q = i) (cn_recent c') = find (\<lambda>q. rr_run_id q = i) (cn_recent c))"
  using assms
proof (induction rs arbitrary: es a)
  case Nil
  then show ?case by (simp add: Let_def)
next
  case (Cons r rs)
  then obtain e es' where es: "es = e # es'" by (cases es) auto
  let ?a = "mark_lost e r a"
  have room: "length (cn_recent (so_contents (fst (ag_store a)))) < MaxRecentRuns" using Cons.prems(2) by simp
  note one = mark_lost_room [OF Cons.prems(1) [unfolded es] room, of r]
  have "length (cn_recent (so_contents (fst (ag_store ?a)))) + length rs \<le> MaxRecentRuns"
    using one(3) Cons.prems(2) by simp
  note IH = Cons.IH [OF one(2) this, unfolded Let_def]
  have "length es' = length rs" and "distinct (map av_run_id rs)" and new: "av_run_id r \<notin> set (map av_run_id rs)"
    using Cons.prems(3,4) es by auto
  note IH = IH [OF this(1,2)]
  let ?c = "so_contents (fst (ag_store a))"
    and ?c' = "so_contents (fst (ag_store (fold (\<lambda>(e, r). mark_lost e r) (zip es' rs) ?a)))"
  have act: "cn_active ?c' = filter (\<lambda>q. av_run_id q \<notin> set (map av_run_id (r # rs))) (cn_active ?c)"
    using IH one(1) by (auto intro: filter_cong)
  have rec: "find (\<lambda>q. rr_run_id q = av_run_id ((r # rs) ! k)) (cn_recent ?c') =
      Some (recent_of (av_run_id ((r # rs) ! k)) (lost_outcome ((r # rs) ! k)) (se_now ((e # es') ! k)))"
    if k: "k < length (r # rs)" for k
  proof (cases k)
    case 0
    have "find (\<lambda>q. rr_run_id q = av_run_id r) (cn_recent ?c') =
        find (\<lambda>q. rr_run_id q = av_run_id r) (cn_recent (so_contents (fst (ag_store ?a))))"
      using IH new by blast
    then show ?thesis using 0 one(1) by (simp add: find_upsert_same recent_of_def)
  next
    case (Suc j)
    then have "j < length rs" using k by simp
    with IH Suc show ?thesis by simp
  qed
  have others: "find (\<lambda>q. rr_run_id q = i) (cn_recent ?c') = find (\<lambda>q. rr_run_id q = i) (cn_recent ?c)"
    if "i \<notin> set (map av_run_id (r # rs))" for i
  proof -
    have "find (\<lambda>q. rr_run_id q = i) (cn_recent ?c') =
        find (\<lambda>q. rr_run_id q = i) (cn_recent (so_contents (fst (ag_store ?a))))"
      using IH that by simp
    also have "\<dots> = find (\<lambda>q. rr_run_id q = i) (cn_recent ?c)"
      using that unfolding one(1) by (simp, intro find_upsert_other) (auto simp: recent_of_def)
    finally show ?thesis .
  qed
  show ?case unfolding es Let_def using act rec others by simp
qed

section \<open>Properties\<close>


text \<open>C3: A lease starts a process only when everything speaks for it: the Run is not owned, not
  recorded and not active here; the lease is for this machine, in time, with a command and positive
  limits; a slot is free; the Server confirmed the start; and the user it names, if any, is one the
  operator allowed. It then starts exactly this Run, and as that user.\<close>

theorem lease_starts_only:
  assumes "handleLease e sv l cancelled (a, w) = Some (a', w')" and "ag_executed a' \<noteq> ag_executed a"
  shows "ag_executed a' = ag_executed a @ [rl_run_id l] \<and>
    rl_run_id l \<notin> run_id ` set (ag_registry a) \<and> RecentOutcome (rl_run_id l) (fst (ag_store a)) = None \<and>
    \<not> IsActive (rl_run_id l) (fst (ag_store a)) \<and>
    rl_machine_id l = cf_machine_id (ag_cfg a) \<and> le_now e < rl_lease_expires_at l + 5 * second \<and>
    rl_command l \<noteq> [] \<and> 0 < rl_timeout_seconds l \<and> 0 < rl_max_output_bytes l \<and>
    int (length (ag_registry a)) < cf_max_concurrent_runs (ag_cfg a) \<and>
    (\<exists>v runAs c. verify (le_now e) a l = Inr v \<and> start sv v w = Some (True, w') \<and>
       runAs = deref (rl_run_as l) \<and> (runAs = [] \<or> runAs \<in> set (ag_run_as_allowed a)) \<and>
       Start (le_machine e) (ag_runner a) (le_ctx_ended e) (lease_spec a v runAs) = Inr c)"
  using assms(1)
proof (cases rule: handleLease_cases)
  case nothing
  with assms(2) show ?thesis by simp
next
  case (unstarted r)
  with assms(2) show ?thesis by simp
next
  case (accepted v r a1)
  then have ne: "ag_executed a1 \<noteq> ag_executed a" using assms(2) by simp
  from spawn_facts [OF \<open>spawn e v a = Some (r, a1)\<close>] ne obtain runAs c where
    user: "executionUser a l = Inr runAs"
    and st: "Start (le_machine e) (ag_runner a) (le_ctx_ended e) (lease_spec a v runAs) = Inr c"
    and run: "started_run e a v c a1"
    using \<open>vl_lease v = l\<close> by auto
  have v: "\<not> IsActive (rl_run_id l) (fst (ag_store a))" "rl_machine_id l = cf_machine_id (ag_cfg a)"
    "le_now e < rl_lease_expires_at l + 5 * second" "rl_command l \<noteq> []" "0 < rl_timeout_seconds l"
    "0 < rl_max_output_bytes l"
    using \<open>verify (le_now e) a l = Inr v\<close> by (auto simp: verify_def clockTolerance_def split: if_splits)
  have "runAs = deref (rl_run_as l) \<and> (runAs = [] \<or> runAs \<in> set (ag_run_as_allowed a))"
    using user by (auto simp: executionUser_def Let_def split: if_splits)
  moreover have "ag_executed a' = ag_executed a @ [rl_run_id l]"
    using run accepted by (simp add: started_run_def)
  moreover have "rl_run_id l \<notin> run_id ` set (ag_registry a)"
    using accepted(1) by (simp add: reg_get_None)
  moreover have "int (length (ag_registry a)) < cf_max_concurrent_runs (ag_cfg a)"
    using accepted(5) by (simp add: reg_count_def)
  ultimately show ?thesis using v accepted(2,3,6) st by blast
qed

text \<open>C35: The Runs whose start was accepted never outnumber the configured maximum, and no work request
  asks for more than the free slots, for more than 16, or for fewer than none; it lists exactly the
  accepted Runs.\<close>

theorem slots_bounded:
  assumes "areach sv (a0, w0, {}) (a, w, f)"
    and "disk_store_ok (ag_store a0)" and "ag_registry a0 = []" and "ag_executed a0 = []"
    and "0 \<le> cf_max_concurrent_runs (ag_cfg a0)"
  shows "int (length (filter ar_start_accepted (ag_registry a))) \<le> cf_max_concurrent_runs (ag_cfg a) \<and>
    wq_slots (workRequest a) \<in> {0..16} \<and>
    wq_slots (workRequest a) \<le> max 0 (cf_max_concurrent_runs (ag_cfg a) - int (length (ag_registry a))) \<and>
    map ae_run_id (wq_active_runs (workRequest a)) = map run_id (filter ar_start_accepted (ag_registry a))"
proof -
  have "ainv a0 {}" using assms(2-5) by (simp add: ainv_def accepted_runs_def)
  with ainv_reach [OF assms(1)] have "ainv a f" by simp
  then show ?thesis
    by (auto simp: ainv_def accepted_runs_def workRequest_def Let_def MaxSlots_def reg_count_def
        reg_active_def)
qed

text \<open>The limits of an accepted lease are positive and exceed neither what the lease says nor what
  the operator configured. (For a configured timeout past the range of a duration, 292 years, the
  product wraps; \<open>verify_wraps\<close> shows it.)\<close>

lemma verify_limits:
  assumes "verify now a l = Inr v" and "1 \<le> cf_max_timeout_seconds (ag_cfg a)"
    and "cf_max_timeout_seconds (ag_cfg a) \<le> 9223372036" and "1 \<le> cf_max_output_bytes (ag_cfg a)"
  shows "0 < vl_timeout v \<and> vl_timeout v \<le> rl_timeout_seconds l * second \<and>
    vl_timeout v \<le> cf_max_timeout_seconds (ag_cfg a) * second \<and>
    0 < vl_max_output v \<and> vl_max_output v \<le> rl_max_output_bytes l \<and>
    vl_max_output v \<le> cf_max_output_bytes (ag_cfg a)"
proof -
  let ?n = "min (rl_timeout_seconds l) (cf_max_timeout_seconds (ag_cfg a))"
  have v: "0 < rl_timeout_seconds l" "0 < rl_max_output_bytes l" "vl_timeout v = seconds ?n"
    "vl_max_output v = min (rl_max_output_bytes l) (cf_max_output_bytes (ag_cfg a))"
    using assms(1) by (auto simp: verify_def split: if_splits)
  then have "vl_timeout v = ?n * second" using assms(2,3) by (simp add: seconds_exact)
  then show ?thesis using v assms(2,4) by (simp add: second_def min_def)
qed

lemma verify_wraps:
  assumes "verify now a l = Inr v" and "rl_timeout_seconds l = 9223372037"
    and "cf_max_timeout_seconds (ag_cfg a) = 9223372037"
  shows "vl_timeout v < 0"
  using assms by (auto simp: verify_def seconds_def wrap64_def second_def split: if_splits)


section \<open>Witnesses\<close>

definition sample_agent :: agent where
  "sample_agent = \<lparr>ag_cfg = Default\<lparr>cf_machine_id := ''m''\<rparr>, ag_run_as_allowed = [''deploy''],
     ag_info = \<lparr>si_hostname = [], si_os = [], si_os_version = [], si_arch = [], si_kernel_version = [],
       si_reported_ips = [], si_agent_user = ''root'', si_agent_uid = 0\<rparr>,
     ag_runner = sample_runner, ag_settings = DefaultSettings, ag_registry = [], ag_rejected = [],
     ag_backoff = new_backoff, ag_store = (\<lparr>so_path = ''s'', so_contents = empty_contents\<rparr>, Map.empty),
     ag_buffer = NewBuffer \<lparr>bo_cap = 0, bo_batch_bytes = 0, bo_batch_chunks = 0\<rparr>, ag_executed = []\<rparr>"

definition sample_server :: "unit server" where
  "sample_server = \<lparr>wd_start = (\<lambda>_ _ w. (Inr ''running'', w)), wd_output = (\<lambda>_ _ w. (Inl Canceled, w)),
     wd_heartbeat = (\<lambda>_ w. (Inl Canceled, w)), wd_finish = (\<lambda>_ _ w. (Inl Canceled, w)),
     wd_random = (\<lambda>w. (0, w)), wd_sleep = (\<lambda>_ w. (None, w)), wd_stopping = (\<lambda>_. False),
     wd_float = (\<lambda>x. x)\<rparr>"

definition sample_lease_env :: lease_env where
  "sample_lease_env = \<lparr>le_now = 50, le_started_at = 51, le_clock = (\<lambda>_. 0), le_machine = sample_machine,
     le_store = sample_env, le_iter = id, le_text = (\<lambda>_. ''no''), le_ctx_ended = False\<rparr>"

definition sample_verified :: verified_lease where
  "sample_verified = \<lparr>vl_lease = sample_lease, vl_timeout = 60 * second, vl_max_output = 1000\<rparr>"

lemma sample_verify: "verify 50 sample_agent sample_lease = Inr sample_verified"
  by (simp add: verify_def sample_agent_def sample_lease_def sample_verified_def Default_def IsActive_def
      empty_contents_def clockTolerance_def seconds_def wrap64_def second_def)

lemma sample_start: "start sample_server sample_verified () = Some (True, ())"
  by (simp add: start_def Retry.simps sample_server_def)

lemma sample_spawn:
  obtains r a1 where "spawn sample_lease_env sample_verified sample_agent = Some (r, a1)"
    and "ag_executed a1 = [''r'']"
proof -
  have ids: "ParseUint32 ''1000'' = Some 1000" "ParseUint32 ''27'' = Some 27"
    by (simp_all add: ParseUint32_def parse_digits_def is_digit_def digits_value_def digit_value_def)
  obtain c where "Start sample_machine sample_runner False (lease_spec sample_agent sample_verified ''deploy'') = Inr c"
    by (simp add: Start_def sample_machine_def lease_spec_def sample_verified_def sample_lease_def deref_def
        sample_user_def lookupUser_def Let_def dropPrivileges_def credentialOf_def numericID_def ids
        checkWorkingDir_def canEnter_def ownerExecute_def)
  moreover have "executionUser sample_agent sample_lease = Inr ''deploy''"
    by (simp add: executionUser_def sample_agent_def sample_lease_def deref_def)
  moreover have "ag_runner sample_agent = sample_runner" "ag_executed sample_agent = []"
    "vl_lease sample_verified = sample_lease" "rl_run_id sample_lease = ''r''"
    by (simp_all add: sample_agent_def sample_verified_def sample_lease_def)
  ultimately show thesis
    using that by (simp add: spawn_def sample_lease_env_def)
qed

lemma sample_handle:
  obtains a' where "handleLease sample_lease_env sample_server sample_lease False (sample_agent, ()) = Some (a', ())"
    and "ag_executed a' = [''r'']"
proof -
  obtain r a1 where sp: "spawn sample_lease_env sample_verified sample_agent = Some (r, a1)"
    and ex: "ag_executed a1 = [''r'']" by (rule sample_spawn)
  have "reg_get ''r'' (ag_registry sample_agent) = None" "RecentOutcome ''r'' (fst (ag_store sample_agent)) = None"
    "\<not> cf_max_concurrent_runs (ag_cfg sample_agent) \<le> reg_count (ag_registry sample_agent)"
    "rl_run_id sample_lease = ''r''" "le_now sample_lease_env = 50"
    by (simp_all add: sample_agent_def reg_get_def RecentOutcome_def empty_contents_def Default_def
        reg_count_def sample_lease_def sample_lease_env_def)
  then have "handleLease sample_lease_env sample_server sample_lease False (sample_agent, ()) = Some (launch r a1, ())"
    using sample_verify sample_start sp by (simp add: handleLease_def)
  with ex that show thesis by simp
qed

lemma sample_agent_start: "disk_store_ok (ag_store sample_agent)" "ag_registry sample_agent = []"
  "ag_executed sample_agent = []" "0 \<le> cf_max_concurrent_runs (ag_cfg sample_agent)"
  by (simp_all add: sample_agent_def disk_store_ok_def store_ok_def empty_contents_def MaxRecentRuns_def Default_def)


theorem lease_starts_only_witness:
  "\<exists>a'. handleLease sample_lease_env sample_server sample_lease False (sample_agent, ()) = Some (a', ()) \<and>
     ag_executed a' = ag_executed sample_agent @ [''r'']"
proof -
  obtain a' where h: "handleLease sample_lease_env sample_server sample_lease False (sample_agent, ()) = Some (a', ())"
    and ex: "ag_executed a' = [''r'']" by (rule sample_handle)
  have "ag_executed a' \<noteq> ag_executed sample_agent" using ex sample_agent_start(3) by simp
  from lease_starts_only [OF h this] h show ?thesis by (auto simp: sample_lease_def)
qed

theorem slots_bounded_witness:
  "\<exists>a f. areach sample_server (sample_agent, (), {}) (a, (), f) \<and> ag_executed a = [''r''] \<and>
     wq_slots (workRequest a) \<in> {0..16}"
proof -
  obtain a' where h: "handleLease sample_lease_env sample_server sample_lease False (sample_agent, ()) = Some (a', ())"
    and ex: "ag_executed a' = [''r'']" by (rule sample_handle)
  have "areach sample_server (sample_agent, (), {}) (a', (), {} \<union> dropped sample_agent a')"
    by (rule areach.step [OF areach.start astep.lease [OF h]])
  from this slots_bounded [OF this sample_agent_start] ex show ?thesis by blast
qed

lemma verify_limits_example:
  "vl_timeout sample_verified \<le> 60 * second \<and> 0 < vl_timeout sample_verified"
  using verify_limits [OF sample_verify]
  by (simp add: sample_agent_def Default_def sample_lease_def)


end
