(* ===== verification/Reporter.thy ===== *)
theory Reporter
  imports Agent_Core
begin

text \<open>
  \<open>internal/agent/reporter.go\<close>: the delivery of one Run, from its output over its heartbeats to its
  outcome. The record \<open>report\<close> is the struct of the source with what its methods reach: the
  buffer, the process and the world. The loop of \<open>supervise\<close> is a list of events; the background
  sleep of \<open>retryLater\<close> is the pending event \<open>rp_waiting\<close>.
\<close>

section \<open>Data\<close>

record 'w report =
  rp_run :: run
  rp_backoff :: backoff
  rp_waiting :: bool
  rp_disconnected :: bool
  rp_output_done :: bool
  rp_heartbeats :: bool
  rp_server_truncated :: bool
  rp_buffer :: buffer
  rp_world :: 'w

abbreviation rp_id :: "'w report \<Rightarrow> string" where
  "rp_id p \<equiv> run_id (rp_run p)"

definition new_report :: "run \<Rightarrow> buffer \<Rightarrow> 'w \<Rightarrow> 'w report" where
  "new_report r b w =
     \<lparr>rp_run = r, rp_backoff = new_backoff, rp_waiting = False, rp_disconnected = False,
      rp_output_done = False, rp_heartbeats = (ar_process r \<noteq> None), rp_server_truncated = False,
      rp_buffer = b, rp_world = w\<rparr>"

text \<open>\<open>AckUpTo\<close> never fails (\<open>AckUpTo_total\<close>), so its result may be taken as it is.\<close>

definition ack :: "string \<Rightarrow> 64 word \<Rightarrow> buffer \<Rightarrow> buffer" where
  "ack k n b = (case AckUpTo k n b of None \<Rightarrow> b | Some b' \<Rightarrow> b')"

lemma AckUpTo_total: "\<exists>b'. AckUpTo k n b = Some b'"
proof (induction k n b rule: AckUpTo.induct)
  case (1 k n b)
  show ?case
  proof (cases "get_run b k")
    case None
    then show ?thesis by (subst AckUpTo.simps) simp
  next
    case (Some r)
    show ?thesis
    proof (cases "ro_chunks r")
      case Nil
      with Some show ?thesis by (subst AckUpTo.simps) simp
    next
      case (Cons c cs)
      have "\<exists>b'. dropOldest k b = Some b'" using Some Cons by (simp add: dropOldest_def)
      with 1 Some Cons show ?thesis by (subst AckUpTo.simps) auto
    qed
  qed
qed

lemma ack_truncated: "buffer_inv b \<Longrightarrow> Truncated k (ack k n b) = Truncated k b"
proof (cases "get_run b k")
  case (Some r)
  then show "buffer_inv b \<Longrightarrow> ?thesis"
    using AckUpTo_spec [of b k r n] by (auto simp: ack_def Truncated_def acked_def)
qed (simp add: ack_def AckUpTo_absent)

section \<open>Requests\<close>

definition cancel_report :: "'w report \<Rightarrow> 'w report" where
  "cancel_report p =
     (case ar_process (rp_run p) of None \<Rightarrow> p
      | Some pr \<Rightarrow> p\<lparr>rp_run := (rp_run p)\<lparr>ar_process := Some (Cancel CancelRequested pr)\<rparr>\<rparr>)"

definition accept :: "output_response \<Rightarrow> 'w report \<Rightarrow> 'w report" where
  "accept response p =
     (let p1 = p\<lparr>rp_backoff := Reset_backoff (rp_backoff p),
                 rp_buffer := ack (rp_id p) (or_last_output_seq response) (rp_buffer p)\<rparr>;
          p2 = (if or_truncated response then p1\<lparr>rp_server_truncated := True, rp_output_done := True\<rparr> else p1)
      in if or_cancel_requested response then cancel_report p2 else p2)"

definition heartbeat :: "'w server \<Rightarrow> 'w report \<Rightarrow> gerror option \<times> 'w report" where
  "heartbeat sv p =
     (case wd_heartbeat sv (rp_id p) (rp_world p) of
        (Inr response, w) \<Rightarrow>
          (let p1 = p\<lparr>rp_world := w, rp_disconnected := False\<rparr>
           in (None, if hr_cancel_requested response then cancel_report p1 else p1))
      | (Inl e, w) \<Rightarrow>
          (let p1 = p\<lparr>rp_world := w\<rparr>
           in (Some e,
               if IsConflict e ErrRunNotRunning \<or> IsNotFound e
               then p1\<lparr>rp_heartbeats := False, rp_output_done := True\<rparr>
               else if IsRetryable e then p1\<lparr>rp_disconnected := True\<rparr> else p1)))"

text \<open>\<open>retryLater\<close>: the delay asked for is the second component; \<open>None\<close> when no sleep is started.\<close>

definition retryLater :: "'w server \<Rightarrow> gerror \<Rightarrow> 'w report \<Rightarrow> 'w report \<times> duration option" where
  "retryLater sv e p =
     (if rp_waiting p \<or> \<not> IsRetryable e then (p, None)
      else case wd_random sv (rp_world p) of (r, w) \<Rightarrow>
        (case Next (wd_float sv) r (rp_backoff p) of (d, b) \<Rightarrow>
          (p\<lparr>rp_waiting := True, rp_backoff := b, rp_world := w\<rparr>, Some (max d (RetryAfter e)))))"

definition outputFailed :: "'w server \<Rightarrow> gerror \<Rightarrow> 'w report \<Rightarrow> 'w report" where
  "outputFailed sv e p =
     (if IsConflict e ErrRunNotRunning \<or> IsNotFound e then p\<lparr>rp_output_done := True\<rparr>
      else if IsRetryable e then fst (retryLater sv e (p\<lparr>rp_disconnected := True\<rparr>))
      else p\<lparr>rp_output_done := True\<rparr>)"

definition sendOutput :: "'w server \<Rightarrow> 'w report \<Rightarrow> 'w report" where
  "sendOutput sv p =
     (if rp_output_done p \<or> rp_waiting p then p
      else let batch = NextBatch (rp_id p) (rp_buffer p)
      in if batch = [] then p
      else case (if rp_disconnected p then heartbeat sv p else (None, p)) of
        (Some e, p1) \<Rightarrow> fst (retryLater sv e p1)
      | (None, p1) \<Rightarrow>
          (case wd_output sv (rp_id p1) (outputRequest batch) (rp_world p1) of
             (Inl e, w) \<Rightarrow> outputFailed sv e (p1\<lparr>rp_world := w\<rparr>)
           | (Inr response, w) \<Rightarrow> accept response (p1\<lparr>rp_world := w\<rparr>)))"

definition sendHeartbeat :: "'w server \<Rightarrow> 'w report \<Rightarrow> 'w report" where
  "sendHeartbeat sv p = (if \<not> rp_heartbeats p then p else snd (heartbeat sv p))"

section \<open>Supervision\<close>

text \<open>
  What wakes the loop while the process runs: a flush, the end of the background sleep, a heartbeat;
  and, between the rounds, what other goroutines do through the pointers they share: copied output
  moves the chunker on and reaches the buffer, other Runs use the buffer, the process moves on, the
  world moves on.
\<close>

datatype 'w report_event = Flush | RetryReady | HeartbeatTick | Copied "run_table \<Rightarrow> run_table" "chunker_step list"
  | Others "buffer \<Rightarrow> buffer" | Moves "process \<Rightarrow> process" | World "'w \<Rightarrow> 'w"

definition supervise_step :: "'w server \<Rightarrow> 'w report_event \<Rightarrow> 'w report \<Rightarrow> 'w report option" where
  "supervise_step sv ev p =
     (case ev of
        Flush \<Rightarrow> Some (sendOutput sv p)
      | RetryReady \<Rightarrow> Some (sendOutput sv (p\<lparr>rp_waiting := False\<rparr>))
      | HeartbeatTick \<Rightarrow> Some (sendHeartbeat sv p)
      | Copied iter es \<Rightarrow>
          (case chunker_run es (ar_chunker (rp_run p)) of
             None \<Rightarrow> None
           | Some c \<Rightarrow>
               (case receive iter (ar_chunker (rp_run p)) c (rp_buffer p) of
                  None \<Rightarrow> None
                | Some b \<Rightarrow> Some (p\<lparr>rp_run := (rp_run p)\<lparr>ar_chunker := c\<rparr>, rp_buffer := b\<rparr>)))
      | Others f \<Rightarrow> Some (p\<lparr>rp_buffer := f (rp_buffer p)\<rparr>)
      | Moves f \<Rightarrow> Some (p\<lparr>rp_run := (rp_run p)\<lparr>ar_process := map_option f (ar_process (rp_run p))\<rparr>\<rparr>)
      | World f \<Rightarrow> Some (p\<lparr>rp_world := f (rp_world p)\<rparr>))"

fun supervise :: "'w server \<Rightarrow> 'w report_event list \<Rightarrow> 'w report \<Rightarrow> 'w report option" where
  "supervise sv [] p = Some p"
| "supervise sv (ev # evs) p =
     (case supervise_step sv ev p of None \<Rightarrow> None | Some p' \<Rightarrow> supervise sv evs p')"

section \<open>The end of a Run\<close>

text \<open>What \<open>drain\<close> retries for one batch.\<close>

definition drain_op :: "'w server \<Rightarrow> chunk list \<Rightarrow> 'w report \<Rightarrow> gerror option \<times> 'w report" where
  "drain_op sv batch p =
     (case (if rp_disconnected p then heartbeat sv p else (None, p)) of
        (Some e, p1) \<Rightarrow> (Some e, p1)
      | (None, p1) \<Rightarrow>
          (case wd_output sv (rp_id p1) (outputRequest batch) (rp_world p1) of
             (Inl e, w) \<Rightarrow>
               (let p2 = p1\<lparr>rp_world := w\<rparr>
                in (Some e, if IsRetryable e then p2\<lparr>rp_disconnected := True\<rparr> else p2))
           | (Inr response, w) \<Rightarrow> (None, accept response (p1\<lparr>rp_world := w\<rparr>))))"

definition in_world :: "('w \<Rightarrow> 'a \<times> 'w) \<Rightarrow> 'w report \<Rightarrow> 'a \<times> 'w report" where
  "in_world f p = (case f (rp_world p) of (x, w) \<Rightarrow> (x, p\<lparr>rp_world := w\<rparr>))"

definition drain_round :: "'w server \<Rightarrow> chunk list \<Rightarrow> 'w report \<Rightarrow> (gerror option \<times> 'w report) option" where
  "drain_round sv batch p =
     (case Retry (wd_float sv) (drain_op sv batch) (in_world (wd_random sv)) (\<lambda>d. in_world (wd_sleep sv d))
             (rp_backoff p) p of
        None \<Rightarrow> None
      | Some (e, b, p') \<Rightarrow> Some (e, p'\<lparr>rp_backoff := b\<rparr>))"

text \<open>\<open>drain\<close>; a loop that never ends is \<open>None\<close>.\<close>

partial_function (option) drain :: "'w server \<Rightarrow> 'w report \<Rightarrow> 'w report option" where
  "drain sv p =
     (if rp_output_done p then Some p
      else if NextBatch (rp_id p) (rp_buffer p) = [] then Some p
      else (case drain_round sv (NextBatch (rp_id p) (rp_buffer p)) p of
              None \<Rightarrow> None
            | Some (err, p1) \<Rightarrow>
                if wd_stopping sv (rp_world p1) then Some p1
                else drain sv (case err of None \<Rightarrow> p1
                       | Some e \<Rightarrow> if rp_output_done p1 then p1 else outputFailed sv e p1)))"

definition finishRequest :: "time \<Rightarrow> run \<Rightarrow> run_result option \<Rightarrow> 64 word \<Rightarrow> bool \<Rightarrow> finish_request" where
  "finishRequest now r result lastSeq truncated =
     (let request = \<lparr>fq_status = [], fq_exit_code = None, fq_started_at = None, fq_finished_at = now,
            fq_last_output_seq = lastSeq, fq_output_truncated = truncated, fq_reason = None\<rparr>
      in if ar_cancelled_before_start r then request\<lparr>fq_status := RunStatusCancelled\<rparr>
         else if ar_spawn_err r \<noteq> None
         then request\<lparr>fq_status := RunStatusFailed, fq_reason := Some (ar_spawn_reason r)\<rparr>
         else case OutcomeOf (the result) of (status, code, reason) \<Rightarrow>
           request\<lparr>fq_status := status, fq_exit_code := code, fq_reason := reason,
                   fq_started_at := Some (ar_started_at r)\<rparr>)"

definition finish :: "'w server \<Rightarrow> finish_request \<Rightarrow> 'w report \<Rightarrow> 'w report option" where
  "finish sv request p =
     (case Retry (wd_float sv) (\<lambda>w. failure (wd_finish sv (rp_id p) request w)) (wd_random sv) (wd_sleep sv)
             (rp_backoff p) (rp_world p) of
        None \<Rightarrow> None
      | Some (_, b, w) \<Rightarrow> Some (p\<lparr>rp_backoff := b, rp_world := w\<rparr>))"

definition outcome_of :: "finish_request \<Rightarrow> outcome" where
  "outcome_of request =
     \<lparr>oc_status = fq_status request, oc_exit_code = fq_exit_code request,
      oc_started_at = fq_started_at request, oc_reason = fq_reason request\<rparr>"

text \<open>
  \<open>deliver\<close> after \<open>supervise\<close>: \<open>result\<close> is what \<open>Wait\<close> returned, if there was a process, and \<open>e\<close> the
  environment of the save. The request sent is part of the result.
\<close>

definition deliver_end :: "'w server \<Rightarrow> (run_table \<Rightarrow> run_table) \<Rightarrow> time \<Rightarrow> store_env \<Rightarrow> run_result option \<Rightarrow>
    'w report \<Rightarrow> disk_store \<Rightarrow> (finish_request \<times> 'w report \<times> disk_store) option" where
  "deliver_end sv iter now e result p sd =
     (case Close (ar_chunker (rp_run p)) of (c, lastSeq, truncated) \<Rightarrow>
        (case receive iter (ar_chunker (rp_run p)) c (rp_buffer p) of
           None \<Rightarrow> None
         | Some b \<Rightarrow>
             (case drain sv (p\<lparr>rp_run := (rp_run p)\<lparr>ar_chunker := c\<rparr>, rp_buffer := b\<rparr>) of
                None \<Rightarrow> None
              | Some p1 \<Rightarrow>
                  (let request = finishRequest now (rp_run p1) result lastSeq
                         (truncated \<or> rp_server_truncated p1 \<or> Truncated (rp_id p1) (rp_buffer p1))
                   in case finish sv request p1 of
                        None \<Rightarrow> None
                      | Some p2 \<Rightarrow>
                          Some (request, p2\<lparr>rp_buffer := Forget (rp_id p2) (rp_buffer p2)\<rparr>,
                                fst (MarkFinished e (rp_id p2) (outcome_of request) sd))))))"

text \<open>\<open>deliver\<close>, with the events of its supervision and the result \<open>Wait\<close> returned.\<close>

definition deliver :: "'w server \<Rightarrow> 'w report_event list \<Rightarrow> (run_table \<Rightarrow> run_table) \<Rightarrow> time \<Rightarrow> store_env \<Rightarrow>
    run_result \<Rightarrow> 'w report \<Rightarrow> disk_store \<Rightarrow> (finish_request \<times> 'w report \<times> disk_store) option" where
  "deliver sv evs iter now e result p sd =
     (if ar_process (rp_run p) = None then deliver_end sv iter now e None p sd
      else case supervise sv evs p of
        None \<Rightarrow> None | Some p1 \<Rightarrow> deliver_end sv iter now e (Some result) p1 sd)"

section \<open>What the steps leave alone\<close>

lemma cancel_report_frame [simp]:
  "ar_chunker (rp_run (cancel_report p)) = ar_chunker (rp_run p)"
  "ar_lease (rp_run (cancel_report p)) = ar_lease (rp_run p)"
  "ar_cancelled_before_start (rp_run (cancel_report p)) = ar_cancelled_before_start (rp_run p)"
  "ar_spawn_err (rp_run (cancel_report p)) = ar_spawn_err (rp_run p)"
  "rp_buffer (cancel_report p) = rp_buffer p"
  "rp_world (cancel_report p) = rp_world p" "rp_disconnected (cancel_report p) = rp_disconnected p"
  "rp_output_done (cancel_report p) = rp_output_done p" "rp_waiting (cancel_report p) = rp_waiting p"
  "rp_backoff (cancel_report p) = rp_backoff p" "rp_heartbeats (cancel_report p) = rp_heartbeats p"
  "rp_server_truncated (cancel_report p) = rp_server_truncated p"
  by (simp_all add: cancel_report_def split: option.split)

lemma accept_frame [simp]:
  "ar_chunker (rp_run (accept r p)) = ar_chunker (rp_run p)"
  "rp_server_truncated (accept r p) = (rp_server_truncated p \<or> or_truncated r)"
  "ar_lease (rp_run (accept r p)) = ar_lease (rp_run p)"
  "ar_cancelled_before_start (rp_run (accept r p)) = ar_cancelled_before_start (rp_run p)"
  "ar_spawn_err (rp_run (accept r p)) = ar_spawn_err (rp_run p)"
  "rp_world (accept r p) = rp_world p"
  "rp_disconnected (accept r p) = rp_disconnected p"
  "rp_buffer (accept r p) = ack (rp_id p) (or_last_output_seq r) (rp_buffer p)"
  "rp_output_done (accept r p) = (rp_output_done p \<or> or_truncated r)"
  by (simp_all add: accept_def Let_def)

text \<open>An error after which the Server may be back, and that does not end output or heartbeats.\<close>

definition transient :: "gerror \<Rightarrow> bool" where
  "transient e \<longleftrightarrow> IsRetryable e \<and> \<not> IsConflict e ErrRunNotRunning \<and> \<not> IsNotFound e"

lemma heartbeat_ok: "wd_heartbeat sv (rp_id p) (rp_world p) = (Inr r, w) \<Longrightarrow>
  heartbeat sv p = (None, if hr_cancel_requested r then cancel_report (p\<lparr>rp_world := w, rp_disconnected := False\<rparr>)
    else p\<lparr>rp_world := w, rp_disconnected := False\<rparr>)"
  by (simp add: heartbeat_def Let_def)

lemma heartbeat_transient:
  "wd_heartbeat sv (rp_id p) (rp_world p) = (Inl e, w) \<Longrightarrow> transient e \<Longrightarrow>
   heartbeat sv p = (Some e, p\<lparr>rp_world := w, rp_disconnected := True\<rparr>)"
  by (simp add: heartbeat_def transient_def)

lemma retryLater_frame [simp]:
  "rp_run (fst (retryLater sv e p)) = rp_run p" "rp_buffer (fst (retryLater sv e p)) = rp_buffer p"
  "rp_disconnected (fst (retryLater sv e p)) = rp_disconnected p"
  "rp_output_done (fst (retryLater sv e p)) = rp_output_done p"
  by (simp_all add: retryLater_def split: prod.split)

lemma outputFailed_frame [simp]:
  "rp_run (outputFailed sv e p) = rp_run p" "rp_buffer (outputFailed sv e p) = rp_buffer p"
  by (simp_all add: outputFailed_def)

lemma heartbeat_frame:
  "ar_lease (rp_run (snd (heartbeat sv p))) = ar_lease (rp_run p)"
  "ar_cancelled_before_start (rp_run (snd (heartbeat sv p))) = ar_cancelled_before_start (rp_run p)"
  "ar_spawn_err (rp_run (snd (heartbeat sv p))) = ar_spawn_err (rp_run p)"
  "rp_buffer (snd (heartbeat sv p)) = rp_buffer p"
  by (simp_all add: heartbeat_def Let_def split: prod.split sum.split)

section \<open>Draining\<close>

text \<open>
  A Server that may fail, but not for ever: \<open>fuel\<close> bounds the failures to come, \<open>got\<close> is the output it
  has taken. An answer acknowledges the chunks it was sent.
\<close>

definition flaky :: "'w server \<Rightarrow> ('w \<Rightarrow> output_chunk list) \<Rightarrow> ('w \<Rightarrow> nat) \<Rightarrow> bool" where
  "flaky sv got fuel \<longleftrightarrow>
     (\<forall>i cs w. cs \<noteq> [] \<longrightarrow>
        (case wd_output sv i cs w of
           (Inl e, w') \<Rightarrow> transient e \<and> fuel w' < fuel w \<and> got w' = got w
         | (Inr r, w') \<Rightarrow> or_last_output_seq r = oc_seq (last cs) \<and> \<not> or_truncated r \<and>
             fuel w' \<le> fuel w \<and> got w' = got w @ cs)) \<and>
     (\<forall>i w. case wd_heartbeat sv i w of
           (Inl e, w') \<Rightarrow> transient e \<and> fuel w' < fuel w \<and> got w' = got w
         | (Inr r, w') \<Rightarrow> fuel w' \<le> fuel w \<and> got w' = got w) \<and>
     (\<forall>w. fuel (snd (wd_random sv w)) \<le> fuel w \<and> got (snd (wd_random sv w)) = got w) \<and>
     (\<forall>d w. fst (wd_sleep sv d w) = None \<and> fuel (snd (wd_sleep sv d w)) \<le> fuel w \<and>
        got (snd (wd_sleep sv d w)) = got w) \<and>
     (\<forall>w. \<not> wd_stopping sv w)"

lemma flaky_output:
  assumes "flaky sv got fuel" and "cs \<noteq> []"
  shows "case wd_output sv i cs w of
      (Inl e, w') \<Rightarrow> transient e \<and> fuel w' < fuel w \<and> got w' = got w
    | (Inr r, w') \<Rightarrow> or_last_output_seq r = oc_seq (last cs) \<and> \<not> or_truncated r \<and>
        fuel w' \<le> fuel w \<and> got w' = got w @ cs"
  using conjunct1 [OF assms(1) [unfolded flaky_def]] assms(2) by (simp only: simp_thms)

lemma flaky_heartbeat:
  assumes "flaky sv got fuel"
  shows "case wd_heartbeat sv i w of
      (Inl e, w') \<Rightarrow> transient e \<and> fuel w' < fuel w \<and> got w' = got w
    | (Inr r, w') \<Rightarrow> fuel w' \<le> fuel w \<and> got w' = got w"
  using conjunct1 [OF conjunct2 [OF assms [unfolded flaky_def]]] by (simp only: simp_thms)

lemma flaky_rest:
  assumes "flaky sv got fuel"
  shows "fuel (snd (wd_random sv w)) \<le> fuel w" "got (snd (wd_random sv w)) = got w"
    "fst (wd_sleep sv d w) = None" "fuel (snd (wd_sleep sv d w)) \<le> fuel w"
    "got (snd (wd_sleep sv d w)) = got w" "\<not> wd_stopping sv w"
  using conjunct2 [OF conjunct2 [OF assms [unfolded flaky_def]]] by simp_all

text \<open>One attempt either delivers the batch or fails with less fuel, everything else unchanged.\<close>

definition same_run :: "'w report \<Rightarrow> 'w report \<Rightarrow> bool" where
  "same_run p p' \<longleftrightarrow> ar_lease (rp_run p') = ar_lease (rp_run p) \<and>
     ar_chunker (rp_run p') = ar_chunker (rp_run p) \<and> rp_output_done p' = rp_output_done p \<and>
     rp_server_truncated p' = rp_server_truncated p"

lemma same_run_trans: "same_run p q \<Longrightarrow> same_run q r \<Longrightarrow> same_run p r"
  by (simp add: same_run_def)

lemma same_run_id: "same_run p q \<Longrightarrow> rp_id q = rp_id p"
  by (simp add: same_run_def)

definition undelivered :: "'w report \<Rightarrow> 'w report \<Rightarrow> bool" where
  "undelivered p p' \<longleftrightarrow> same_run p p' \<and> rp_buffer p' = rp_buffer p"

definition delivered :: "('w \<Rightarrow> output_chunk list) \<Rightarrow> chunk list \<Rightarrow> 'w report \<Rightarrow> 'w report \<Rightarrow> bool" where
  "delivered got batch p p' \<longleftrightarrow> same_run p p' \<and>
     rp_buffer p' = ack (rp_id p) (ch_seq (last batch)) (rp_buffer p) \<and>
     got (rp_world p') = got (rp_world p) @ outputRequest batch"

lemma drain_op_flaky:
  assumes fl: "flaky sv got fuel" and ne: "batch \<noteq> []"
  shows "(\<exists>e p'. drain_op sv batch p = (Some e, p') \<and> transient e \<and> undelivered p p' \<and>
            fuel (rp_world p') < fuel (rp_world p) \<and> got (rp_world p') = got (rp_world p)) \<or>
         (\<exists>p'. drain_op sv batch p = (None, p') \<and> delivered got batch p p' \<and>
            fuel (rp_world p') \<le> fuel (rp_world p))"
proof -
  have ne': "outputRequest batch \<noteq> []" "oc_seq (last (outputRequest batch)) = ch_seq (last batch)"
    using ne by (simp_all add: outputRequest_def last_map chunk_protocol_def)
  have out: "(\<exists>e p'. (case wd_output sv (rp_id q) (outputRequest batch) (rp_world q) of
        (Inl e, w) \<Rightarrow> (let p2 = q\<lparr>rp_world := w\<rparr> in (Some e, if IsRetryable e then p2\<lparr>rp_disconnected := True\<rparr> else p2))
      | (Inr response, w) \<Rightarrow> (None, accept response (q\<lparr>rp_world := w\<rparr>))) = (Some e, p') \<and> transient e \<and>
        undelivered q p' \<and> fuel (rp_world p') < fuel (rp_world q) \<and> got (rp_world p') = got (rp_world q)) \<or>
     (\<exists>p'. (case wd_output sv (rp_id q) (outputRequest batch) (rp_world q) of
        (Inl e, w) \<Rightarrow> (let p2 = q\<lparr>rp_world := w\<rparr> in (Some e, if IsRetryable e then p2\<lparr>rp_disconnected := True\<rparr> else p2))
      | (Inr response, w) \<Rightarrow> (None, accept response (q\<lparr>rp_world := w\<rparr>))) = (None, p') \<and>
        delivered got batch q p' \<and> fuel (rp_world p') \<le> fuel (rp_world q))" for q
  proof -
    have spec: "case wd_output sv (rp_id q) (outputRequest batch) (rp_world q) of
        (Inl e, w') \<Rightarrow> transient e \<and> fuel w' < fuel (rp_world q) \<and> got w' = got (rp_world q)
      | (Inr r, w') \<Rightarrow> or_last_output_seq r = oc_seq (last (outputRequest batch)) \<and> \<not> or_truncated r \<and>
          fuel w' \<le> fuel (rp_world q) \<and> got w' = got (rp_world q) @ outputRequest batch"
      by (rule flaky_output [OF fl ne'(1)])
    obtain r w where call: "wd_output sv (rp_id q) (outputRequest batch) (rp_world q) = (r, w)"
      by (rule prod.exhaust)
    show ?thesis
    proof (cases r)
      case (Inl e)
      with spec call show ?thesis by (simp add: undelivered_def same_run_def transient_def)
    next
      case (Inr response)
      with spec call ne' show ?thesis by (simp add: delivered_def same_run_def)
    qed
  qed
  show ?thesis
  proof (cases "rp_disconnected p")
    case False
    with out [of p] show ?thesis by (simp add: drain_op_def)
  next
    case True
    have spec: "case wd_heartbeat sv (rp_id p) (rp_world p) of
        (Inl e, w') \<Rightarrow> transient e \<and> fuel w' < fuel (rp_world p) \<and> got w' = got (rp_world p)
      | (Inr r, w') \<Rightarrow> fuel w' \<le> fuel (rp_world p) \<and> got w' = got (rp_world p)"
      by (rule flaky_heartbeat [OF fl])
    obtain r w where call: "wd_heartbeat sv (rp_id p) (rp_world p) = (r, w)" by (rule prod.exhaust)
    show ?thesis
    proof (cases r)
      case (Inl e)
      with spec call have "heartbeat sv p = (Some e, p\<lparr>rp_world := w, rp_disconnected := True\<rparr>)"
        by (intro heartbeat_transient) simp_all
      with True Inl spec call show ?thesis by (simp add: drain_op_def undelivered_def same_run_def)
    next
      case (Inr response)
      then obtain q where hb: "heartbeat sv p = (None, q)" and q: "same_run p q"
        "rp_buffer q = rp_buffer p" "rp_world q = w"
        using call by (simp add: heartbeat_ok same_run_def)
      from spec call Inr have w: "fuel w \<le> fuel (rp_world p)" "got w = got (rp_world p)" by simp_all
      from True hb out [of q] q w show ?thesis
        by (simp add: drain_op_def) (auto simp: undelivered_def delivered_def same_run_def)
    qed
  qed
qed

lemma delivered_after: "undelivered p q \<Longrightarrow> got (rp_world q) = got (rp_world p) \<Longrightarrow>
    delivered got batch q p' \<Longrightarrow> delivered got batch p p'"
  by (simp add: undelivered_def delivered_def same_run_def)

lemma in_world_frame [simp]:
  "rp_run (snd (in_world f p)) = rp_run p" "rp_buffer (snd (in_world f p)) = rp_buffer p"
  "rp_output_done (snd (in_world f p)) = rp_output_done p"
  "rp_server_truncated (snd (in_world f p)) = rp_server_truncated p"
  "rp_world (snd (in_world f p)) = snd (f (rp_world p))" "fst (in_world f p) = fst (f (rp_world p))"
  by (simp_all add: in_world_def split: prod.split)

lemma Retry_drain:
  assumes fl: "flaky sv got fuel" and ne: "batch \<noteq> []"
  shows "\<exists>b' p'. Retry (wd_float sv) (drain_op sv batch) (in_world (wd_random sv)) (\<lambda>d. in_world (wd_sleep sv d)) b p =
      Some (None, b', p') \<and> delivered got batch p p'"
proof (induction "fuel (rp_world p)" arbitrary: b p rule: less_induct)
  case less
  from drain_op_flaky [OF fl ne, of p] show ?case
  proof (elim disjE exE conjE)
    fix p' assume "drain_op sv batch p = (None, p')" and "delivered got batch p p'"
    then show ?thesis by (subst Retry.simps) simp
  next
    fix e q assume op: "drain_op sv batch p = (Some e, q)" and e: "transient e" and u: "undelivered p q"
      and f: "fuel (rp_world q) < fuel (rp_world p)" and g: "got (rp_world q) = got (rp_world p)"
    obtain r q1 where rnd: "in_world (wd_random sv) q = (r, q1)" by (rule prod.exhaust)
    obtain d b1 where nx: "Next (wd_float sv) r b = (d, b1)" by (rule prod.exhaust)
    let ?d = "if RetryAfter e > d then RetryAfter e else d"
    obtain x q2 where slp: "in_world (wd_sleep sv ?d) q1 = (x, q2)" by (rule prod.exhaust)
    note rest = flaky_rest [OF fl]
    have q1: "undelivered q q1" "got (rp_world q1) = got (rp_world q)" "fuel (rp_world q1) \<le> fuel (rp_world q)"
      using rnd in_world_frame [of "wd_random sv" q] rest(1,2) by (simp_all add: undelivered_def same_run_def)
    have q2: "undelivered q1 q2" "got (rp_world q2) = got (rp_world q1)" "fuel (rp_world q2) \<le> fuel (rp_world q1)"
      and x: "x = None"
      using slp in_world_frame [of "wd_sleep sv ?d" q1] rest(3-5) by (simp_all add: undelivered_def same_run_def)
    have "fuel (rp_world q2) < fuel (rp_world p)" using f q1(3) q2(3) by linarith
    from less [OF this, of b1] obtain b' p' where
      IH: "Retry (wd_float sv) (drain_op sv batch) (in_world (wd_random sv)) (\<lambda>d. in_world (wd_sleep sv d)) b1 q2 =
        Some (None, b', p')" and d: "delivered got batch q2 p'" by blast
    have "Retry (wd_float sv) (drain_op sv batch) (in_world (wd_random sv)) (\<lambda>d. in_world (wd_sleep sv d)) b p =
        Some (None, b', p')"
      using op e rnd nx slp x IH by (subst Retry.simps) (simp add: transient_def)
    moreover have "delivered got batch p p'"
      by (rule delivered_after [OF u g], rule delivered_after [OF q1(1,2)], rule delivered_after [OF q2(1,2) d])
    ultimately show ?thesis by blast
  qed
qed

lemma drain_all:
  assumes fl: "flaky sv got fuel"
  shows "outbox_valid (rp_id p) (rp_buffer p) \<Longrightarrow> \<not> rp_output_done p \<Longrightarrow>
    \<exists>p'. drain sv p = Some p' \<and> held (rp_id p) (rp_buffer p') = [] \<and> same_run p p' \<and>
      buffer_inv (rp_buffer p') \<and> Truncated (rp_id p) (rp_buffer p') = Truncated (rp_id p) (rp_buffer p) \<and>
      got (rp_world p') = got (rp_world p) @ outputRequest (held (rp_id p) (rp_buffer p))"
proof (induction "length (held (rp_id p) (rp_buffer p))" arbitrary: p rule: less_induct)
  case less
  let ?k = "rp_id p" and ?b = "rp_buffer p"
  let ?batch = "NextBatch ?k ?b"
  note batch_held = run_outbox.batch_empty_iff [OF less.prems(1)]
  show ?case
  proof (cases "?batch = []")
    case True
    with batch_held less.prems show ?thesis
      by (subst drain.simps) (simp add: outputRequest_def same_run_def outbox_valid_def)
  next
    case False
    obtain b' p1 where r: "Retry (wd_float sv) (drain_op sv ?batch) (in_world (wd_random sv))
        (\<lambda>d. in_world (wd_sleep sv d)) (rp_backoff p) p = Some (None, b', p1)"
      and d: "delivered got ?batch p p1"
      using Retry_drain [OF fl False] by blast
    let ?p = "p1\<lparr>rp_backoff := b'\<rparr>"
    obtain bf where ack: "AckUpTo ?k (ch_seq (last ?batch)) ?b = Some bf" and valid: "outbox_valid ?k bf"
      and rest: "held ?k ?b = ?batch @ held ?k bf"
      using run_outbox.ack_batch [OF less.prems(1) False] by metis
    have p: "rp_id ?p = ?k" "rp_buffer ?p = bf" "\<not> rp_output_done ?p"
      "got (rp_world ?p) = got (rp_world p) @ outputRequest ?batch" "same_run p ?p"
      using d ack less.prems(2) by (simp_all add: delivered_def same_run_def ack_def)
    have tr: "Truncated ?k bf = Truncated ?k ?b"
      using ack_truncated [of ?b ?k "ch_seq (last ?batch)"] ack less.prems(1)
      by (simp add: outbox_valid_def ack_def)
    have "length (held (rp_id ?p) (rp_buffer ?p)) < length (held ?k ?b)"
      using rest False unfolding p(1,2) by simp
    from less.hyps [OF this] p valid obtain p' where
      p': "drain sv ?p = Some p'" "held ?k (rp_buffer p') = []" "same_run ?p p'"
      "buffer_inv (rp_buffer p')" "Truncated ?k (rp_buffer p') = Truncated ?k bf"
      "got (rp_world p') = got (rp_world ?p) @ outputRequest (held ?k bf)"
      by auto
    have "drain sv p = drain sv ?p"
      using less.prems(2) False r flaky_rest(6) [OF fl] by (subst drain.simps) (simp add: drain_round_def)
    with p' p(4) rest tr same_run_trans [OF p(5) p'(3)] show ?thesis by (simp add: outputRequest_def)
  qed
qed

section \<open>The order of requests\<close>

lemma in_world_disconnected: "rp_disconnected (snd (in_world f p)) = rp_disconnected p"
  by (simp add: in_world_def split: prod.split)

text \<open>A Server whose answers are written down.\<close>

datatype call = Output "gerror option" | Beat "gerror option"

definition logged :: "'w server \<Rightarrow> ('w \<times> call list) server" where
  "logged sv =
     \<lparr>wd_start = (\<lambda>i r (w, l). case wd_start sv i r w of (x, w') \<Rightarrow> (x, (w', l))),
      wd_output = (\<lambda>i cs (w, l). case wd_output sv i cs w of
         (Inl e, w') \<Rightarrow> (Inl e, (w', l @ [Output (Some e)])) | (Inr r, w') \<Rightarrow> (Inr r, (w', l @ [Output None]))),
      wd_heartbeat = (\<lambda>i (w, l). case wd_heartbeat sv i w of
         (Inl e, w') \<Rightarrow> (Inl e, (w', l @ [Beat (Some e)])) | (Inr r, w') \<Rightarrow> (Inr r, (w', l @ [Beat None]))),
      wd_finish = (\<lambda>i r (w, l). case wd_finish sv i r w of (x, w') \<Rightarrow> (x, (w', l))),
      wd_random = (\<lambda>(w, l). case wd_random sv w of (x, w') \<Rightarrow> (x, (w', l))),
      wd_sleep = (\<lambda>d (w, l). case wd_sleep sv d w of (x, w') \<Rightarrow> (x, (w', l))),
      wd_stopping = (\<lambda>(w, l). wd_stopping sv w), wd_float = wd_float sv\<rparr>"

text \<open>
  Replaying a log: the flag says that the last request failed in a way that may have made the Server
  give the Run up; then only a heartbeat may follow. \<open>None\<close>: output was sent all the same.
\<close>

definition upset :: "bool \<Rightarrow> gerror option \<Rightarrow> bool" where
  "upset d r = (case r of None \<Rightarrow> d | Some e \<Rightarrow> d \<or> transient e)"

fun replay :: "call list \<Rightarrow> bool \<Rightarrow> bool option" where
  "replay [] d = Some d"
| "replay (Output r # cs) d = (if d then None else replay cs (upset d r))"
| "replay (Beat r # cs) d = replay cs (if r = None then False else upset d r)"

lemma replay_append: "replay (xs @ ys) d = (case replay xs d of None \<Rightarrow> None | Some d' \<Rightarrow> replay ys d')"
  by (induction xs d rule: replay.induct) auto

definition log_ok :: "('w \<times> call list) report \<Rightarrow> bool" where
  "log_ok p \<longleftrightarrow> (\<exists>d. replay (snd (rp_world p)) False = Some d \<and> (d \<longrightarrow> rp_disconnected p))"


lemma logged_simps:
  "wd_output (logged sv) i cs (w, l) = (case wd_output sv i cs w of
     (Inl e, w') \<Rightarrow> (Inl e, (w', l @ [Output (Some e)])) | (Inr r, w') \<Rightarrow> (Inr r, (w', l @ [Output None])))"
  "wd_heartbeat (logged sv) i (w, l) = (case wd_heartbeat sv i w of
     (Inl e, w') \<Rightarrow> (Inl e, (w', l @ [Beat (Some e)])) | (Inr r, w') \<Rightarrow> (Inr r, (w', l @ [Beat None])))"
  by (simp_all add: logged_def)

lemma logged_rest [simp]:
  "snd (snd (wd_random (logged sv) wl)) = snd wl"
  "snd (snd (wd_sleep (logged sv) d wl)) = snd wl"
  "snd (snd (wd_finish (logged sv) i q wl)) = snd wl"
  by (cases wl; simp add: logged_def split: prod.split)+

lemma log_ok_frame: "snd (rp_world q) = snd (rp_world p) \<Longrightarrow> rp_disconnected q = rp_disconnected p \<Longrightarrow>
    log_ok p \<Longrightarrow> log_ok q"
  by (simp add: log_ok_def)

text \<open>A heartbeat keeps the flag in step with the log, and clears it when it succeeds.\<close>

lemma heartbeat_logged:
  assumes "log_ok p"
  shows "log_ok (snd (heartbeat (logged sv) p)) \<and>
    (fst (heartbeat (logged sv) p) = None \<longrightarrow> \<not> rp_disconnected (snd (heartbeat (logged sv) p)))"
proof -
  obtain w l where pw: "rp_world p = (w, l)" by (rule prod.exhaust)
  obtain r w' where call: "wd_heartbeat sv (rp_id p) w = (r, w')" by (rule prod.exhaust)
  show ?thesis
    using assms pw call
    by (cases r) (auto simp: heartbeat_def logged_simps log_ok_def replay_append upset_def transient_def Let_def)
qed

lemma retryLater_log [simp]:
  "snd (rp_world (fst (retryLater (logged sv) e p))) = snd (rp_world p)"
  "rp_disconnected (fst (retryLater (logged sv) e p)) = rp_disconnected p"
proof -
  obtain r w where rnd: "wd_random (logged sv) (rp_world p) = (r, w)" by (rule prod.exhaust)
  then have w: "snd w = snd (rp_world p)" using logged_rest(1) [of sv "rp_world p"] by simp
  show "snd (rp_world (fst (retryLater (logged sv) e p))) = snd (rp_world p)"
    "rp_disconnected (fst (retryLater (logged sv) e p)) = rp_disconnected p"
    by (simp_all add: retryLater_def rnd w split: prod.split)
qed

lemma output_failed_logged:
  assumes "replay l False = Some False" and "rp_world p = (w, l @ [Output (Some e)])" and "\<not> rp_disconnected p"
  shows "log_ok (outputFailed (logged sv) e p)"
proof -
  have l: "replay (l @ [Output (Some e)]) False = Some (transient e)"
    using assms(1) by (simp add: replay_append upset_def)
  with assms(2,3) show ?thesis by (auto simp: outputFailed_def log_ok_def transient_def)
qed

lemma outputFailed_logged: "log_ok p \<Longrightarrow> log_ok (outputFailed (logged sv) e p)"
  by (auto simp: outputFailed_def log_ok_def)

lemma retryLater_logged: "log_ok p \<Longrightarrow> log_ok (fst (retryLater (logged sv) e p))"
  by (rule log_ok_frame) simp_all

lemma sendOutput_logged:
  assumes ok: "log_ok p"
  shows "log_ok (sendOutput (logged sv) p)"
proof -
  let ?batch = "NextBatch (rp_id p) (rp_buffer p)"
  let ?h = "if rp_disconnected p then heartbeat (logged sv) p else (None, p)"
  obtain err q where h: "?h = (err, q)" by (rule prod.exhaust)
  have q: "log_ok q" "err = None \<longrightarrow> \<not> rp_disconnected q"
    using h ok heartbeat_logged [OF ok, of sv] by (auto split: if_splits)
  show ?thesis
  proof (cases "rp_output_done p \<or> rp_waiting p \<or> ?batch = []")
    case True
    with ok show ?thesis by (auto simp: sendOutput_def Let_def)
  next
    case False
    then have send: "sendOutput (logged sv) p = (case (err, q) of
        (Some e, p1) \<Rightarrow> fst (retryLater (logged sv) e p1)
      | (None, p1) \<Rightarrow> (case wd_output (logged sv) (rp_id p1) (outputRequest ?batch) (rp_world p1) of
             (Inl e, w) \<Rightarrow> outputFailed (logged sv) e (p1\<lparr>rp_world := w\<rparr>)
           | (Inr response, w) \<Rightarrow> accept response (p1\<lparr>rp_world := w\<rparr>)))"
      unfolding sendOutput_def Let_def h [symmetric] by simp
    show ?thesis
    proof (cases err)
      case (Some e)
      with send q(1) show ?thesis by (simp add: retryLater_logged)
    next
      case None
      obtain w l where qw: "rp_world q = (w, l)" by (rule prod.exhaust)
      have l: "replay l False = Some False" using q None qw by (auto simp: log_ok_def)
      obtain r w' where call: "wd_output sv (rp_id q) (outputRequest ?batch) w = (r, w')" by (rule prod.exhaust)
      show ?thesis
      proof (cases r)
        case (Inl e)
        then show ?thesis
          using send None qw call q(2) l
          by (simp add: logged_simps output_failed_logged [where l = l and w = w'])
      next
        case (Inr response)
        then show ?thesis
          using send None qw call q(2) l
          by (auto simp: logged_simps log_ok_def replay_append upset_def)
      qed
    qed
  qed
qed

definition log_kept :: "('w \<times> call list) report_event \<Rightarrow> bool" where
  "log_kept ev \<longleftrightarrow> (\<forall>f. ev = World f \<longrightarrow> (\<forall>w. snd (f w) = snd w))"

lemma supervise_step_logged:
  assumes ok: "log_ok p" and ev: "log_kept ev" and "supervise_step (logged sv) ev p = Some q"
  shows "log_ok q"
proof (cases ev)
  case RetryReady
  have "log_ok (p\<lparr>rp_waiting := False\<rparr>)" using ok by (simp add: log_ok_def)
  with RetryReady assms(3) show ?thesis by (auto simp: supervise_step_def sendOutput_logged)
next
  case HeartbeatTick
  with assms show ?thesis
    by (auto simp: supervise_step_def sendHeartbeat_def heartbeat_logged split: if_splits)
next
  case (World f)
  with ev have "snd (f (rp_world p)) = snd (rp_world p)" unfolding log_kept_def by blast
  with World ok assms(3) show ?thesis by (auto simp: supervise_step_def log_ok_def)
next
  case (Copied iter es)
  with ok assms(3) show ?thesis by (auto simp: supervise_step_def log_ok_def split: option.splits)
next
  case (Others f)
  with ok assms(3) show ?thesis by (auto simp: supervise_step_def log_ok_def)
next
  case (Moves f)
  with ok assms(3) show ?thesis by (auto simp: supervise_step_def log_ok_def)
qed (use assms in \<open>auto simp: supervise_step_def sendOutput_logged\<close>)

lemma supervise_logged:
  "supervise (logged sv) evs p = Some q \<Longrightarrow> log_ok p \<Longrightarrow> list_all log_kept evs \<Longrightarrow> log_ok q"
proof (induction evs arbitrary: p)
  case (Cons ev evs)
  then obtain p1 where s: "supervise_step (logged sv) ev p = Some p1" and "supervise (logged sv) evs p1 = Some q"
    by (auto split: option.splits)
  moreover have "log_ok p1" using supervise_step_logged [OF Cons.prems(2) _ s] Cons.prems(3) by simp
  ultimately show ?case using Cons.IH Cons.prems(3) by simp
qed simp


lemma drain_op_logged:
  assumes ok: "log_ok p"
  shows "log_ok (snd (drain_op (logged sv) batch p))"
proof -
  let ?h = "if rp_disconnected p then heartbeat (logged sv) p else (None, p)"
  obtain err q where h: "?h = (err, q)" by (rule prod.exhaust)
  have q: "log_ok q" "err = None \<longrightarrow> \<not> rp_disconnected q"
    using h ok heartbeat_logged [OF ok, of sv] by (auto split: if_splits)
  show ?thesis
  proof (cases err)
    case (Some e)
    with q(1) show ?thesis unfolding drain_op_def h by simp
  next
    case None
    obtain w l where qw: "rp_world q = (w, l)" by (rule prod.exhaust)
    have l: "replay l False = Some False" using q None qw by (auto simp: log_ok_def)
    obtain r w' where call: "wd_output sv (rp_id q) (outputRequest batch) w = (r, w')" by (rule prod.exhaust)
    have "log_ok (snd (case wd_output (logged sv) (rp_id q) (outputRequest batch) (rp_world q) of
        (Inl e, w) \<Rightarrow> (let p2 = q\<lparr>rp_world := w\<rparr> in (Some e, if IsRetryable e then p2\<lparr>rp_disconnected := True\<rparr> else p2))
      | (Inr response, w) \<Rightarrow> (None, accept response (q\<lparr>rp_world := w\<rparr>))))"
      using qw call q(2) None l
      by (cases r) (auto simp: logged_simps log_ok_def replay_append upset_def transient_def Let_def)
    with None show ?thesis unfolding drain_op_def h by simp
  qed
qed

lemma drain_round_logged:
  assumes "drain_round (logged sv) batch p = Some (e, q)" and "log_ok p"
  shows "log_ok q"
proof -
  obtain b p' where r: "Retry (wd_float (logged sv)) (drain_op (logged sv) batch) (in_world (wd_random (logged sv)))
      (\<lambda>d. in_world (wd_sleep (logged sv) d)) (rp_backoff p) p = Some (e, b, p')" and q: "q = p'\<lparr>rp_backoff := b\<rparr>"
    using assms(1) by (auto simp: drain_round_def split: option.splits)
  have w: "log_ok (snd (in_world f u))" if "log_ok u" and "\<And>w. snd (snd (f w)) = snd w" for f :: "'a \<times> call list \<Rightarrow> 'b \<times> 'a \<times> call list" and u
    using that by (simp add: log_ok_def in_world_disconnected)
  have "log_ok p'"
    using Retry_keeps [where I = log_ok, OF r assms(2)] by (simp add: drain_op_logged w)
  with q show ?thesis by (simp add: log_ok_def)
qed

lemma drain_logged: "drain (logged sv) p = Some q \<Longrightarrow> log_ok p \<Longrightarrow> log_ok q"
proof (induction "logged sv" p q rule: drain.raw_induct [rotated 1, consumes 1])
  case (1 drain p q)
  let ?batch = "NextBatch (rp_id p) (rp_buffer p)"
  show ?case
  proof (cases "rp_output_done p \<or> ?batch = []")
    case True
    with 1(2,3) show ?thesis by (auto split: if_splits)
  next
    case False
    then obtain err p1 where r: "drain_round (logged sv) ?batch p = Some (err, p1)"
      using 1(2) by (auto split: option.splits)
    have ok: "log_ok p1" by (rule drain_round_logged [OF r 1(3)])
    let ?p2 = "case err of None \<Rightarrow> p1 | Some e \<Rightarrow> if rp_output_done p1 then p1 else outputFailed (logged sv) e p1"
    have ok2: "log_ok ?p2" using ok by (auto split: option.split intro: outputFailed_logged)
    show ?thesis
    proof (cases "wd_stopping (logged sv) (rp_world p1)")
      case True
      with 1(2) False r ok show ?thesis by (auto split: if_splits)
    next
      case running: False
      with 1(2) False r have "drain (logged sv) ?p2 = Some q" by (simp split: if_splits)
      from 1(1) [OF this ok2] show ?thesis .
    qed
  qed
qed

lemma finish_logged:
  assumes "finish (logged sv) request p = Some q"
  shows "snd (rp_world q) = snd (rp_world p)"
proof -
  obtain err b w where r: "Retry (wd_float (logged sv)) (\<lambda>w. failure (wd_finish (logged sv) (rp_id p) request w))
      (wd_random (logged sv)) (wd_sleep (logged sv)) (rp_backoff p) (rp_world p) = Some (err, b, w)"
    and q: "q = p\<lparr>rp_backoff := b, rp_world := w\<rparr>"
    using assms by (auto simp: finish_def split: option.splits)
  have "snd w = snd (rp_world p)"
    using Retry_keeps [where I = "\<lambda>w. snd w = snd (rp_world p)", OF r] by simp
  with q show ?thesis by simp
qed

lemma deliver_end_parts:
  assumes "deliver_end sv iter now e result p sd = Some (request, p', sd')"
  obtains c lastSeq truncated b p1 p2 where "Close (ar_chunker (rp_run p)) = (c, lastSeq, truncated)"
    and "receive iter (ar_chunker (rp_run p)) c (rp_buffer p) = Some b"
    and "drain sv (p\<lparr>rp_run := (rp_run p)\<lparr>ar_chunker := c\<rparr>, rp_buffer := b\<rparr>) = Some p1"
    and "request = finishRequest now (rp_run p1) result lastSeq
      (truncated \<or> rp_server_truncated p1 \<or> Truncated (rp_id p1) (rp_buffer p1))"
    and "finish sv request p1 = Some p2"
    and "p' = p2\<lparr>rp_buffer := Forget (rp_id p2) (rp_buffer p2)\<rparr>"
    and "sd' = fst (MarkFinished e (rp_id p2) (outcome_of request) sd)"
  using assms by (auto simp: deliver_end_def Let_def split: prod.splits option.splits)

lemma deliver_end_logged:
  assumes "deliver_end (logged sv) iter now e result p sd = Some (request, p', sd')" and "log_ok p"
  shows "log_ok p'"
proof (rule deliver_end_parts [OF assms(1)])
  fix c lastSeq truncated b p1 p2
  assume d: "drain (logged sv) (p\<lparr>rp_run := (rp_run p)\<lparr>ar_chunker := c\<rparr>, rp_buffer := b\<rparr>) = Some p1"
    and f: "finish (logged sv) request p1 = Some p2"
    and p': "p' = p2\<lparr>rp_buffer := Forget (rp_id p2) (rp_buffer p2)\<rparr>"
  have "log_ok (p\<lparr>rp_run := (rp_run p)\<lparr>ar_chunker := c\<rparr>, rp_buffer := b\<rparr>)"
    using assms(2) by (simp add: log_ok_def)
  then have "log_ok p1" by (rule drain_logged [OF d])
  moreover have "rp_disconnected p2 = rp_disconnected p1"
    using f by (auto simp: finish_def split: option.splits)
  ultimately show ?thesis using finish_logged [OF f] p' by (simp add: log_ok_def)
qed

text \<open>What a log that can be replayed says of every output request in it.\<close>

definition failed_for_now :: "call \<Rightarrow> bool" where
  "failed_for_now c \<longleftrightarrow> (case c of Output r \<Rightarrow> upset False r | Beat r \<Rightarrow> upset False r)"

fun is_output :: "call \<Rightarrow> bool" where
  "is_output (Output r) = True"
| "is_output (Beat r) = False"

lemma replay_orders:
  "replay l d = Some d' \<Longrightarrow> j < length l \<Longrightarrow> is_output (l ! j) \<Longrightarrow>
     (d \<longrightarrow> (\<exists>m<j. l ! m = Beat None)) \<and>
     (\<forall>i<j. failed_for_now (l ! i) \<longrightarrow> (\<exists>m<j. i < m \<and> l ! m = Beat None))"
proof (induction l arbitrary: d j)
  case (Cons c l)
  show ?case
  proof (cases j)
    case 0
    with Cons.prems show ?thesis by (cases c) (auto split: if_splits)
  next
    case (Suc j')
    obtain d1 where r: "replay l d1 = Some d'" and d1: "d \<Longrightarrow> c \<noteq> Beat None \<Longrightarrow> d1" "failed_for_now c \<Longrightarrow> d1"
      using Cons.prems(1) by (cases c) (auto simp: failed_for_now_def upset_def split: if_splits option.splits)
    have IH: "(d1 \<longrightarrow> (\<exists>m<j'. l ! m = Beat None)) \<and>
        (\<forall>i<j'. failed_for_now (l ! i) \<longrightarrow> (\<exists>m<j'. i < m \<and> l ! m = Beat None))"
      using Cons.IH [OF r, of j'] Cons.prems(2,3) Suc by simp
    have up: "\<exists>m<j. i < m \<and> (c # l) ! m = Beat None" if "\<exists>m<j'. (0 < i \<longrightarrow> i - 1 < m) \<and> l ! m = Beat None" for i
    proof -
      from that obtain m where "m < j'" "0 < i \<longrightarrow> i - 1 < m" "l ! m = Beat None" by blast
      then show ?thesis by (intro exI [of _ "Suc m"]) (use Suc in auto)
    qed
    have "\<exists>m<j. (c # l) ! m = Beat None" if d
    proof (cases "c = Beat None")
      case True
      with Suc show ?thesis by (intro exI [of _ 0]) simp
    next
      case False
      with that d1 IH up [of 0] show ?thesis by auto
    qed
    moreover have "\<exists>m<j. i < m \<and> (c # l) ! m = Beat None" if "i < j" "failed_for_now ((c # l) ! i)" for i
      using that IH d1(2) up [of i] Suc by (cases i) auto
    ultimately show ?thesis by blast
  qed
qed simp

section \<open>Properties\<close>

text \<open>C9: After a request failed in a way the Server may have given the Run up for (it is unreachable, or
  asks to try later), no output is sent before a heartbeat has succeeded: this holds from the first
  flush to the end of the drain, for every schedule of flushes, heartbeats, retries and other
  goroutines and for every behaviour of the Server.\<close>

theorem output_waits_for_heartbeat:
  assumes "rp_world p = (w, [])" and "list_all log_kept evs"
    and "deliver (logged sv) evs iter now e result p sd = Some (request, p', sd')"
    and "snd (rp_world p') = l" and "j < length l" and "is_output (l ! j)"
    and "i < j" and "failed_for_now (l ! i)"
  shows "\<exists>m<j. i < m \<and> l ! m = Beat None"
proof -
  have "log_ok p" using assms(1) by (auto simp: log_ok_def)
  then have "log_ok p'"
    using assms(3) by (auto simp: deliver_def intro: deliver_end_logged supervise_logged [OF _ _ assms(2)]
        split: if_splits option.splits)
  then obtain d where "replay l False = Some d" using assms(4) by (auto simp: log_ok_def)
  from replay_orders [OF this assms(5,6)] assms(7,8) show ?thesis by blast
qed

text \<open>The report tells the truth: success is reported exactly when a process was started, was neither
  timed out nor cancelled, and ended with code 0 and no error; a timeout wins over a cancellation; an
  exit code and a start time are reported exactly when a process was started; and the status is
  always one the Server takes from an agent.\<close>

lemma finishRequest_truthful:
  "(let q = finishRequest now r (Some res) n t; started = (\<not> ar_cancelled_before_start r \<and> ar_spawn_err r = None)
    in (fq_status q = RunStatusSuccess \<longleftrightarrow> started \<and> \<not> rs_timed_out res \<and> \<not> rs_cancelled res \<and>
          rs_exit_code res = 0 \<and> rs_err res = None) \<and>
       (fq_status q = RunStatusTimedOut \<longleftrightarrow> started \<and> rs_timed_out res) \<and>
       (fq_status q = RunStatusCancelled \<longleftrightarrow>
          ar_cancelled_before_start r \<or> started \<and> \<not> rs_timed_out res \<and> rs_cancelled res) \<and>
       fq_exit_code q = (if started then Some (rs_exit_code res) else None) \<and>
       fq_started_at q = (if started then Some (ar_started_at r) else None) \<and>
       fq_last_output_seq q = n \<and> fq_output_truncated q = t \<and> status_reportable (fq_status q))"
proof -
  obtain st code why where o: "OutcomeOf res = (st, code, why)" by (rule prod_cases3)
  have st: "st = RunStatusSuccess \<longleftrightarrow> \<not> rs_timed_out res \<and> \<not> rs_cancelled res \<and>
      rs_exit_code res = 0 \<and> rs_err res = None"
    "st = RunStatusTimedOut \<longleftrightarrow> rs_timed_out res"
    "st = RunStatusCancelled \<longleftrightarrow> \<not> rs_timed_out res \<and> rs_cancelled res"
    "code = Some (rs_exit_code res)"
    using o by (auto simp: OutcomeOf_def run_status_defs split: if_splits)
  have rep: "status_reportable st" using OutcomeOf_reportable [of res] o by simp
  consider (cancelled) "ar_cancelled_before_start r" | (spawn) "\<not> ar_cancelled_before_start r" "ar_spawn_err r \<noteq> None"
    | (started) "\<not> ar_cancelled_before_start r" "ar_spawn_err r = None" by blast
  then show ?thesis
  proof cases
    case started
    with o rep show ?thesis by (simp add: finishRequest_def Let_def st)
  qed (auto simp: finishRequest_def Let_def run_status_defs status_reportable_def)
qed

section \<open>Witnesses\<close>

text \<open>A Server that fails a number of requests and then takes everything.\<close>

definition patchy_server :: "(nat \<times> output_chunk list) server" where
  "patchy_server =
     \<lparr>wd_start = (\<lambda>_ _ w. (Inr RunStatusRunning, w)),
      wd_output = (\<lambda>_ cs (n, got). if n > 0 then (Inl ErrEOF, (n - 1, got))
         else (Inr \<lparr>or_last_output_seq = oc_seq (last cs), or_truncated = False, or_cancel_requested = False\<rparr>,
               (n, got @ cs))),
      wd_heartbeat = (\<lambda>_ w. (Inr \<lparr>hr_cancel_requested = False, hr_server_time = 0\<rparr>, w)),
      wd_finish = (\<lambda>_ q w. (Inr (fq_status q), w)), wd_random = (\<lambda>w. (0, w)), wd_sleep = (\<lambda>_ w. (None, w)),
      wd_stopping = (\<lambda>_. False), wd_float = (\<lambda>x. x)\<rparr>"

definition sample_run :: run where
  "sample_run = \<lparr>ar_lease = sample_lease, ar_timeout = 60 * second, ar_max_output = 1000, ar_started_at = 5,
     ar_start_accepted = True, ar_process = Some (new_process 42 DefaultGrace 5),
     ar_chunker = NewChunker ''r'' \<lparr>co_chunk_bytes = 0, co_flush_interval = 0, co_max_output = 1000, co_now = (\<lambda>_. 0)\<rparr>,
     ar_spawn_err = None, ar_spawn_reason = [], ar_cancelled_before_start = False, ar_cancel_once = False\<rparr>"

definition sample_result :: run_result where
  "sample_result = \<lparr>rs_exit_code = 0, rs_signal = None, rs_started_at = 5, rs_finished_at = 9,
     rs_timed_out = False, rs_cancelled = False, rs_reason = [], rs_err = None\<rparr>"

definition sample_held :: buffer where
  "sample_held = \<lparr>bf_cap = 100, bf_batch_bytes = 10, bf_batch_chunks = 2,
     bf_runs = [(''r'', \<lparr>ro_chunks = [sample_chunk ''r'' 1 ''hi''], ro_bytes = 2, ro_truncated = False\<rparr>)], bf_size = 2\<rparr>"

definition sample_report :: "((nat \<times> output_chunk list) \<times> call list) report" where
  "sample_report = new_report sample_run sample_held ((1, []), [])"

lemma sample_run_facts [simp]:
  "run_id sample_run = ''r''" "ar_process sample_run = Some (new_process 42 DefaultGrace 5)"
  by (simp_all add: sample_run_def sample_lease_def)

lemma ErrEOF_facts [simp]: "asAPIError ErrEOF = None" "IsRetryable ErrEOF" "\<not> IsConflict ErrEOF c"
    "\<not> IsNotFound ErrEOF" "RetryAfter ErrEOF = 0"
  by (simp_all add: IsRetryable_def asAPIError_def errors_Is_def IsConflict_def IsNotFound_def has_status_def
      RetryAfter_def)

lemma sample_batch: "NextBatch ''r'' sample_held = [sample_chunk ''r'' 1 ''hi'']"
  by (simp add: NextBatch_def sample_held_def get_run_def)

lemma sample_ack:
  obtains b where "AckUpTo ''r'' 1 sample_held = Some b" and "NextBatch ''r'' b = []" and "bf_runs b \<noteq> []"
proof -
  let ?b = "sample_held\<lparr>bf_runs := [(''r'', \<lparr>ro_chunks = [], ro_bytes = 0, ro_truncated = False\<rparr>)], bf_size := 0\<rparr>"
  have d: "dropOldest ''r'' sample_held = Some ?b"
    by (simp add: dropOldest_def sample_held_def get_run_def put_run_def chunk_size_def sample_chunk_def)
  have "AckUpTo ''r'' 1 ?b = Some ?b"
    by (subst AckUpTo.simps) (simp add: get_run_def)
  with d have "AckUpTo ''r'' 1 sample_held = Some ?b"
    by (subst AckUpTo.simps) (simp add: sample_held_def get_run_def sample_chunk_def)
  moreover have "NextBatch ''r'' ?b = []" by (simp add: NextBatch_def get_run_def)
  ultimately show thesis using that by simp
qed

text \<open>Output is refused once, a heartbeat succeeds, the output is sent again.\<close>

definition sample_events :: "((nat \<times> output_chunk list) \<times> call list) report_event list" where
  "sample_events = [Flush, HeartbeatTick, RetryReady]"

lemma logged_patchy:
  "wd_output (logged patchy_server) i cs ((Suc n, g), l) = (Inl ErrEOF, ((n, g), l @ [Output (Some ErrEOF)]))"
  "wd_output (logged patchy_server) i cs ((0, g), l) =
     (Inr \<lparr>or_last_output_seq = oc_seq (last cs), or_truncated = False, or_cancel_requested = False\<rparr>,
      ((0, g @ cs), l @ [Output None]))"
  "wd_heartbeat (logged patchy_server) i (w, l) =
     (Inr \<lparr>hr_cancel_requested = False, hr_server_time = 0\<rparr>, (w, l @ [Beat None]))"
  "wd_random (logged patchy_server) (w, l) = (0, (w, l))"
  "wd_finish (logged patchy_server) i q (w, l) = (Inr (fq_status q), (w, l))"
  "wd_float (logged patchy_server) = (\<lambda>x. x)"
  by (simp_all add: logged_def patchy_server_def)

lemma sample_supervise:
  obtains q where "supervise (logged patchy_server) sample_events sample_report = Some q"
    and "snd (rp_world q) = [Output (Some ErrEOF), Beat None, Output None]"
    and "rp_run q = sample_run" and "NextBatch ''r'' (rp_buffer q) = []" and "bf_runs (rp_buffer q) \<noteq> []"
proof -
  obtain b where b: "AckUpTo ''r'' 1 sample_held = Some b" "NextBatch ''r'' b = []" "bf_runs b \<noteq> []"
    by (rule sample_ack)
  obtain d bo where nx: "Next (\<lambda>x. x) 0 new_backoff = (d, bo)" by (rule prod.exhaust)
  let ?p1 = "sample_report\<lparr>rp_waiting := True, rp_backoff := bo, rp_disconnected := True,
      rp_world := ((0, []), [Output (Some ErrEOF)])\<rparr>"
  have 1: "sendOutput (logged patchy_server) sample_report = ?p1"
    by (simp add: sendOutput_def sample_report_def new_report_def sample_batch outputFailed_def retryLater_def
        logged_patchy logged_patchy(1) [of _ _ 0, simplified] nx)
  let ?p2 = "?p1\<lparr>rp_disconnected := False, rp_world := ((0, []), [Output (Some ErrEOF), Beat None])\<rparr>"
  have 2: "sendHeartbeat (logged patchy_server) ?p1 = ?p2"
    by (simp add: sendHeartbeat_def sample_report_def new_report_def heartbeat_def logged_patchy)
  let ?cs = "outputRequest [sample_chunk ''r'' 1 ''hi'']"
  let ?p3 = "?p2\<lparr>rp_waiting := False, rp_backoff := Reset_backoff bo, rp_buffer := b,
      rp_world := ((0, ?cs), [Output (Some ErrEOF), Beat None, Output None])\<rparr>"
  have "oc_seq (last ?cs) = 1" by (simp add: outputRequest_def chunk_protocol_def sample_chunk_def)
  then have 3: "sendOutput (logged patchy_server) (?p2\<lparr>rp_waiting := False\<rparr>) = ?p3"
    by (simp add: sendOutput_def sample_report_def new_report_def sample_batch logged_patchy accept_def ack_def b
        Let_def)
  have "supervise (logged patchy_server) sample_events sample_report = Some ?p3"
    unfolding sample_events_def by (simp only: supervise.simps supervise_step_def report_event.case option.case 1 2 3)
  with b that show thesis by (simp add: sample_report_def new_report_def)
qed

lemma sample_delivery:
  obtains request p' sd' where
    "deliver (logged patchy_server) sample_events (\<lambda>t. t) 9 e sample_result sample_report sd = Some (request, p', sd')"
    and "snd (rp_world p') = [Output (Some ErrEOF), Beat None, Output None]"
    and "fq_status request = RunStatusSuccess"
proof -
  obtain q where q: "supervise (logged patchy_server) sample_events sample_report = Some q"
    "snd (rp_world q) = [Output (Some ErrEOF), Beat None, Output None]" "rp_run q = sample_run"
    "NextBatch ''r'' (rp_buffer q) = []" by (rule sample_supervise)
  obtain w where w: "rp_world q = (w, [Output (Some ErrEOF), Beat None, Output None])"
    using q(2) by (cases "rp_world q") simp
  let ?c = "(ar_chunker sample_run)\<lparr>ck_closed := True\<rparr>"
  have cl: "Close (ar_chunker sample_run) = (?c, 0, False)"
    by (simp add: Close_def sample_run_def NewChunker_def flushLocked_def no_pending_def)
  let ?q = "q\<lparr>rp_run := (rp_run q)\<lparr>ar_chunker := ?c\<rparr>, rp_buffer := rp_buffer q\<rparr>"
  have rc: "receive (\<lambda>t. t) (ar_chunker sample_run) ?c (rp_buffer q) = Some (rp_buffer q)"
    by (simp add: receive_def)
  have dr: "drain (logged patchy_server) ?q = Some ?q"
    using q(3,4) by (subst drain.simps) simp
  have fin: "finish (logged patchy_server) request ?q = Some (?q\<lparr>rp_backoff := Reset_backoff (rp_backoff q)\<rparr>)" for request
    using w by (simp add: finish_def Retry.simps logged_patchy)
  have "deliver_end (logged patchy_server) (\<lambda>t. t) 9 e (Some sample_result) q sd \<noteq> None"
    using cl rc dr fin q(3) by (simp add: deliver_end_def Let_def)
  then obtain request p' sd' where d:
    "deliver_end (logged patchy_server) (\<lambda>t. t) 9 e (Some sample_result) q sd = Some (request, p', sd')"
    by auto
  then have "snd (rp_world p') = snd (rp_world q)" and "fq_status request = RunStatusSuccess"
    using cl rc dr fin q(3)
    by (auto simp: deliver_end_def Let_def finishRequest_def sample_run_def OutcomeOf_def sample_result_def)
  moreover have "deliver (logged patchy_server) sample_events (\<lambda>t. t) 9 e sample_result sample_report sd =
      Some (request, p', sd')"
    using d q(1) by (simp add: deliver_def sample_report_def new_report_def)
  ultimately show thesis using that q(2) by simp
qed

theorem output_waits_for_heartbeat_witness:
  "\<exists>request p' sd'. deliver (logged patchy_server) sample_events (\<lambda>t. t) 9 sample_env sample_result sample_report
      sample_store = Some (request, p', sd') \<and> snd (rp_world p') ! 0 = Output (Some ErrEOF) \<and>
     snd (rp_world p') ! 2 = Output None \<and> (\<exists>m. m < 2 \<and> 0 < m \<and> snd (rp_world p') ! m = Beat None)"
proof -
  obtain request p' sd' where d: "deliver (logged patchy_server) sample_events (\<lambda>t. t) 9 sample_env sample_result
      sample_report sample_store = Some (request, p', sd')"
    and l: "snd (rp_world p') = [Output (Some ErrEOF), Beat None, Output None]"
    by (rule sample_delivery)
  have w: "rp_world sample_report = ((1, []), [])" by (simp add: sample_report_def new_report_def)
  have k: "list_all log_kept sample_events" by (simp add: sample_events_def log_kept_def)
  have "\<exists>m<2. 0 < m \<and> snd (rp_world p') ! m = Beat None"
    by (rule output_waits_for_heartbeat [OF w k d refl])
      (simp_all add: l failed_for_now_def upset_def transient_def)
  with d l show ?thesis by (intro exI [of _ request] exI [of _ p'] exI [of _ sd']) auto
qed

end
