(* ===== verification/Delivery.thy ===== *)
theory Delivery
  imports Reporter Agent_Safety
begin

text \<open>
  The path of a Run's output as a whole: process, chunker, buffer, reporter, Server. The invariant
  \<open>linked\<close> says that what the Server took and what the buffer holds is what the chunker sent; it holds
  in every step of \<open>supervise\<close>, survives \<open>Close\<close> and \<open>drain\<close>, and gives the end-to-end property. The
  other half of the theory is the outcome: what \<open>deliver\<close> records is what a repeated lease is answered
  with.
\<close>

section \<open>The chunker only appends\<close>

lemma flushLocked_grows: "prefix (ck_sent c) (ck_sent (flushLocked c))"
  by (simp add: flushLocked_def)

lemma switch_stream_grows: "prefix (ck_sent c) (ck_sent (switch_stream st c))"
  using flushLocked_grows [of c] by (simp add: switch_stream_def open_pending_def Let_def)

lemma write_loop_grows: "write_loop st d c = Some c' \<Longrightarrow> prefix (ck_sent c) (ck_sent c')"
proof (induction st d c c' rule: write_loop.raw_induct [rotated 1, consumes 1])
  case (1 loop st d c c')
  define kept where "kept = fst (clip d c)"
  define c1 where "c1 = switch_stream st (snd (clip d c))"
  define n where "n = min (ck_bytes c1 - int (length (pd_data (ck_pending c1)))) (int (length kept))"
  define c2 where "c2 = put_bytes (take (nat n) kept) c1"
  define c3 where "c3 = (if int (length (pd_data (ck_pending c2))) = ck_bytes c2 then flushLocked c2 else c2)"
  note body = 1(2) [unfolded Let_def, folded kept_def, folded c1_def, folded n_def, folded c2_def, folded c3_def]
  have "ck_sent (snd (clip d c)) = ck_sent c" by (simp add: clip_def)
  then have 2: "prefix (ck_sent c) (ck_sent c2)"
    using switch_stream_grows [of "snd (clip d c)" st] by (simp add: c2_def c1_def put_bytes_def)
  then have 3: "prefix (ck_sent c) (ck_sent c3)"
    using flushLocked_grows [of c2] by (auto simp: c3_def intro: prefix_order.trans)
  show ?case
  proof (cases "d = [] \<or> (ck_max c > 0 \<and> ck_max c - ck_written c \<le> 0)")
    case True
    with body show ?thesis by (auto split: if_splits)
  next
    case False
    with body have "loop st (drop (nat n) kept) c3 = Some c'"
      by (auto split: if_splits)
    from 1(1) [OF this] 3 show ?thesis by (rule prefix_order.trans [rotated])
  qed
qed

lemma chunker_run_grows: "chunker_run es c = Some c' \<Longrightarrow> prefix (ck_sent c) (ck_sent c')"
proof (induction es c rule: chunker_run.induct)
  case (2 st d es c)
  then obtain c1 where w: "Write st d c = Some c1" and "chunker_run es c1 = Some c'"
    by (auto split: option.splits)
  with 2 have "prefix (ck_sent c1) (ck_sent c')" by simp
  moreover have "prefix (ck_sent c) (ck_sent c1)"
    using w write_loop_grows by (auto simp: Write_def split: if_splits)
  ultimately show ?case by (rule prefix_order.trans [rotated])
next
  case (3 es c)
  with flushLocked_grows [of c] show ?case by (auto simp: tick_def intro: prefix_order.trans)
qed simp

lemma Close_grows: "Close c = (c', r) \<Longrightarrow> prefix (ck_sent c) (ck_sent c')"
  using flushLocked_grows [of c] by (auto simp: Close_def Let_def split: if_splits)

lemma chunker_run_append: "chunker_run (es @ fs) c = (case chunker_run es c of None \<Rightarrow> None | Some c' \<Rightarrow> chunker_run fs c')"
  by (induction es c rule: chunker_run.induct) (auto split: option.split)

lemma written_append: "written (es @ fs) = written es @ written fs"
  by (induction es rule: written.induct) auto

text \<open>The numbers of the chunks increase while there are fewer than \<open>2 ^ 64\<close> of them.\<close>

lemma sent_increasing:
  assumes "sent_ok c" and "length (ck_sent c) < 2 ^ 64"
  shows "sorted_wrt (\<lambda>k l. ch_seq k < ch_seq l) (ck_sent c)"
proof -
  have "sorted_wrt (<) (map (of_nat :: nat \<Rightarrow> 64 word) [1..<Suc n])" if "n < 2 ^ 64" for n
    using that
  proof (induction n)
    case (Suc n)
    have "(of_nat i :: 64 word) < of_nat (Suc n)" if "i < Suc n" for i
      using that Suc.prems by (simp only: word_less_nat_alt unat_of_nat) (simp add: take_bit_nat_eq_self)
    with Suc show ?case by (auto simp: sorted_wrt_append simp del: of_nat_Suc)
  qed simp
  from this [OF assms(2)] assms(1) have "sorted_wrt (<) (map ch_seq (ck_sent c))" by (simp add: sent_ok_def)
  then show ?thesis by (simp add: sorted_wrt_map)
qed

section \<open>The buffer takes what the chunker sends\<close>

lemma add_all_retains:
  assumes "visits_all iter"
  shows "buffer_inv b \<Longrightarrow> \<forall>c\<in>set cs. ch_run c = k \<Longrightarrow>
    \<exists>b'. add_all iter cs b = Some b' \<and> buffer_inv b' \<and> bf_batch_chunks b' = bf_batch_chunks b \<and>
      retains k cs b b'"
proof (induction cs arbitrary: b)
  case Nil
  then show ?case by (simp add: retains_refl)
next
  case (Cons c cs)
  obtain b1 where a: "Add iter c b = Some b1" and i: "buffer_inv b1"
    using Add_inv [OF assms Cons.prems(1)] by metis
  have r: "retains k [c] b b1" using Add_retains [OF assms Cons.prems(1), of c] a Cons.prems(2)
    by (metis list.set_intros(1) option.inject)
  have n: "bf_batch_chunks b1 = bf_batch_chunks b" by (rule Add_batch [OF assms Cons.prems(1) a])
  obtain b' where "add_all iter cs b1 = Some b'" "buffer_inv b'" "bf_batch_chunks b' = bf_batch_chunks b1"
    "retains k cs b1 b'"
    using Cons.IH [OF i] Cons.prems(2) by auto
  with a n retains_append [OF r] show ?case by auto
qed

text \<open>What other Runs do to the buffer: they may take room, never anything else.\<close>

definition spares :: "string \<Rightarrow> (buffer \<Rightarrow> buffer) \<Rightarrow> bool" where
  "spares k f \<longleftrightarrow> (\<forall>b. buffer_inv b \<longrightarrow> buffer_inv (f b) \<and> bf_batch_chunks (f b) = bf_batch_chunks b \<and>
     retains k [] b (f b))"

lemma spares_Add:
  assumes "visits_all iter" and "ch_run c \<noteq> k"
  shows "spares k (\<lambda>b. the (Add iter c b))"
proof (unfold spares_def, intro allI impI)
  fix b
  assume b: "buffer_inv b"
  obtain b1 where a: "Add iter c b = Some b1" "buffer_inv b1"
    using Add_inv [OF assms(1) b] by metis
  with Add_retains [OF assms(1) b, of c] Add_batch [OF assms(1) b a(1)] assms(2)
  show "buffer_inv (the (Add iter c b)) \<and> bf_batch_chunks (the (Add iter c b)) = bf_batch_chunks b \<and>
    retains k [] b (the (Add iter c b))"
    by (metis option.sel)
qed

lemma retains_same: "get_run b' k = get_run b k \<Longrightarrow> retains k [] b b'"
  by (simp add: retains_def held_def Truncated_def)

lemma spares_ack: "j \<noteq> k \<Longrightarrow> spares k (ack j n)"
proof (unfold spares_def, intro allI impI)
  fix b
  assume j: "j \<noteq> k" and b: "buffer_inv b"
  show "buffer_inv (ack j n b) \<and> bf_batch_chunks (ack j n b) = bf_batch_chunks b \<and> retains k [] b (ack j n b)"
  proof (cases "get_run b j")
    case None
    with b show ?thesis by (simp add: ack_def AckUpTo_absent retains_refl)
  next
    case (Some r)
    with AckUpTo_spec [OF b Some, of n] j show ?thesis
      by (auto simp: ack_def intro: retains_same)
  qed
qed

lemma spares_Forget: "j \<noteq> k \<Longrightarrow> spares k (Forget j)"
  using Forget_spec [of _ j] by (auto simp: spares_def intro: retains_same)
    (auto simp: Forget_def split: option.split)

section \<open>One round of the reporter\<close>

text \<open>A Server that is only flaky, and takes the outcome in the end.\<close>

definition obliging :: "'w server \<Rightarrow> ('w \<Rightarrow> output_chunk list) \<Rightarrow> ('w \<Rightarrow> nat) \<Rightarrow> bool" where
  "obliging sv got fuel \<longleftrightarrow> flaky sv got fuel \<and>
     (\<forall>i q w. got (snd (wd_finish sv i q w)) = got w \<and>
        (\<forall>e. fst (wd_finish sv i q w) = Inl e \<longrightarrow> IsRetryable e \<longrightarrow> fuel (snd (wd_finish sv i q w)) < fuel w))"

text \<open>\<open>sendOutput\<close> is one attempt of \<open>drain\<close>, with the sleep in the background.\<close>

lemma sendOutput_drain_op:
  assumes fl: "flaky sv got fuel" and go: "\<not> rp_output_done p" "\<not> rp_waiting p"
    and ne: "NextBatch (rp_id p) (rp_buffer p) \<noteq> []"
  shows "sendOutput sv p = (case drain_op sv (NextBatch (rp_id p) (rp_buffer p)) p of
      (Some e, q) \<Rightarrow> fst (retryLater sv e q) | (None, q) \<Rightarrow> q)"
proof -
  let ?batch = "NextBatch (rp_id p) (rp_buffer p)"
  have ne': "outputRequest ?batch \<noteq> []" using ne by (simp add: outputRequest_def)
  obtain err q where h: "(if rp_disconnected p then heartbeat sv p else (None, p)) = (err, q)"
    by (rule prod.exhaust)
  show ?thesis
  proof (cases err)
    case (Some e)
    with go ne h show ?thesis by (simp add: sendOutput_def drain_op_def)
  next
    case None
    obtain r w where call: "wd_output sv (rp_id q) (outputRequest ?batch) (rp_world q) = (r, w)"
      by (rule prod.exhaust)
    show ?thesis
    proof (cases r)
      case (Inl e)
      with flaky_output [OF fl ne', where i = "rp_id q" and w = "rp_world q"] call have "transient e" by simp
      with None Inl call go ne h show ?thesis
        by (simp add: sendOutput_def drain_op_def outputFailed_def transient_def)
    next
      case (Inr response)
      with None call go ne h show ?thesis by (simp add: sendOutput_def drain_op_def)
    qed
  qed
qed

lemma retryLater_undelivered:
  assumes "flaky sv got fuel"
  shows "undelivered p (fst (retryLater sv e p)) \<and> got (rp_world (fst (retryLater sv e p))) = got (rp_world p)"
proof -
  obtain r w where rnd: "wd_random sv (rp_world p) = (r, w)" by (rule prod.exhaust)
  have "got w = got (rp_world p)" using flaky_rest(2) [OF assms, of "rp_world p"] rnd by simp
  then show ?thesis by (simp add: retryLater_def rnd undelivered_def same_run_def split: prod.split)
qed

lemma undelivered_trans: "undelivered p q \<Longrightarrow> undelivered q r \<Longrightarrow> undelivered p r"
  by (auto simp: undelivered_def intro: same_run_trans)

lemma undelivered_refl [simp]: "undelivered p p"
  by (simp add: undelivered_def same_run_def)

lemma sendOutput_flaky:
  assumes fl: "flaky sv got fuel" and go: "\<not> rp_output_done p"
  shows "(undelivered p (sendOutput sv p) \<and> got (rp_world (sendOutput sv p)) = got (rp_world p)) \<or>
    (NextBatch (rp_id p) (rp_buffer p) \<noteq> [] \<and>
     delivered got (NextBatch (rp_id p) (rp_buffer p)) p (sendOutput sv p))"
proof (cases "rp_waiting p \<or> NextBatch (rp_id p) (rp_buffer p) = []")
  case True
  then show ?thesis by (auto simp: sendOutput_def)
next
  case False
  then have ne: "NextBatch (rp_id p) (rp_buffer p) \<noteq> []" and nw: "\<not> rp_waiting p" by simp_all
  from drain_op_flaky [OF fl ne, of p] show ?thesis
  proof (elim disjE exE conjE)
    fix e q
    assume op: "drain_op sv (NextBatch (rp_id p) (rp_buffer p)) p = (Some e, q)"
      and u: "undelivered p q" and g: "got (rp_world q) = got (rp_world p)"
    have "sendOutput sv p = fst (retryLater sv e q)"
      using sendOutput_drain_op [OF fl go nw ne] op by simp
    with retryLater_undelivered [OF fl, of q e] undelivered_trans [OF u] g show ?thesis by simp
  next
    fix q
    assume op: "drain_op sv (NextBatch (rp_id p) (rp_buffer p)) p = (None, q)"
      and "delivered got (NextBatch (rp_id p) (rp_buffer p)) p q"
    with sendOutput_drain_op [OF fl go nw ne] ne show ?thesis by simp
  qed
qed

lemma sendHeartbeat_flaky:
  assumes fl: "flaky sv got fuel"
  shows "undelivered p (sendHeartbeat sv p) \<and> got (rp_world (sendHeartbeat sv p)) = got (rp_world p)"
proof -
  obtain r w where call: "wd_heartbeat sv (rp_id p) (rp_world p) = (r, w)" by (rule prod.exhaust)
  show ?thesis
  proof (cases r)
    case (Inl e)
    with flaky_heartbeat [OF fl, where i = "rp_id p" and w = "rp_world p"] call
    have e: "transient e" and g: "got w = got (rp_world p)" by simp_all
    show ?thesis
      using heartbeat_transient [OF call [unfolded Inl] e] g
      by (simp add: sendHeartbeat_def undelivered_def same_run_def)
  next
    case (Inr response)
    with flaky_heartbeat [OF fl, where i = "rp_id p" and w = "rp_world p"] call have "got w = got (rp_world p)" by simp
    with heartbeat_ok [OF call [unfolded Inr]] show ?thesis
      by (simp add: sendHeartbeat_def undelivered_def same_run_def)
  qed
qed

section \<open>The invariant of the delivery\<close>

definition linked :: "('w \<Rightarrow> output_chunk list) \<Rightarrow> chunker_options \<Rightarrow> chunker_step list \<Rightarrow> 'w report \<Rightarrow> bool" where
  "linked got opts es p \<longleftrightarrow>
     chunker_run es (NewChunker (rp_id p) opts) = Some (ar_chunker (rp_run p)) \<and>
     buffer_inv (rp_buffer p) \<and> 1 \<le> bf_batch_chunks (rp_buffer p) \<and>
     \<not> rp_output_done p \<and> \<not> rp_server_truncated p \<and>
     suffix (held (rp_id p) (rp_buffer p)) (ck_sent (ar_chunker (rp_run p))) \<and>
     (\<not> Truncated (rp_id p) (rp_buffer p) \<longrightarrow>
        got (rp_world p) @ outputRequest (held (rp_id p) (rp_buffer p)) =
        outputRequest (ck_sent (ar_chunker (rp_run p))))"

lemma outputRequest_append [simp]: "outputRequest (xs @ ys) = outputRequest xs @ outputRequest ys"
  by (simp add: outputRequest_def)

lemma outputRequest_Nil [simp]: "outputRequest [] = []"
  by (simp add: outputRequest_def)

lemma linked_undelivered:
  "linked got opts es p \<Longrightarrow> undelivered p q \<Longrightarrow> got (rp_world q) = got (rp_world p) \<Longrightarrow> linked got opts es q"
  by (simp add: linked_def undelivered_def same_run_def)

text \<open>The chunker of a Run, and how many chunks it can have sent.\<close>

lemma chunks_le_content: "\<forall>k\<in>set cs. ch_data k \<noteq> [] \<Longrightarrow> length cs \<le> length (concat (map marked cs))"
proof (induction cs)
  case (Cons c cs)
  then have "0 < length (ch_data c)" and "length cs \<le> length (concat (map marked cs))" by simp_all
  moreover have "length (concat (map marked (c # cs))) = length (ch_data c) + length (concat (map marked cs))"
    by (simp add: marked_def)
  ultimately show ?case by (simp only: list.size)
qed simp

text \<open>What the chunker sends on top reaches the buffer.\<close>

lemma received:
  assumes vis: "visits_all iter" and inv: "buffer_inv b" and gr: "prefix (ck_sent c0) (ck_sent c)" and all: "\<forall>x\<in>set (ck_sent c). ch_run x = k"
  shows "\<exists>b' new. receive iter c0 c b = Some b' \<and> ck_sent c = ck_sent c0 @ new \<and> buffer_inv b' \<and>
    bf_batch_chunks b' = bf_batch_chunks b \<and> retains k new b b'"
proof -
  obtain new where new: "ck_sent c = ck_sent c0 @ new" using gr by (auto elim: prefixE)
  then have "\<forall>x\<in>set new. ch_run x = k" using all by simp
  from add_all_retains [OF vis inv this] new show ?thesis by (auto simp: receive_def)
qed

lemma run_chunker:
  assumes "chunker_run es (NewChunker k opts) = Some c"
  shows "sink_valid k (ck_bytes (NewChunker k opts)) c"
    and "content c = take_limit (ck_limit (NewChunker k opts)) (written es)"
    and "ck_truncated c \<longleftrightarrow> content c \<noteq> written es"
    and "sent_ok c" and "length (ck_sent c) \<le> length (written es)"
proof -
  obtain c' where c': "chunker_run es (NewChunker k opts) = Some c'"
    "sink_valid k (ck_bytes (NewChunker k opts)) c'" "ck_limit c' = ck_limit (NewChunker k opts)"
    "content c' = take_limit (ck_limit (NewChunker k opts)) (content (NewChunker k opts) @ written es)"
    "ck_truncated c' \<longleftrightarrow> ck_truncated (NewChunker k opts) \<or> content c' \<noteq> content (NewChunker k opts) @ written es"
    using chunker_run_spec [OF NewChunker_valid] by metis
  have [simp]: "c' = c" using c'(1) assms by simp
  show v: "sink_valid k (ck_bytes (NewChunker k opts)) c"
    and l: "content c = take_limit (ck_limit (NewChunker k opts)) (written es)"
    and "ck_truncated c \<longleftrightarrow> content c \<noteq> written es"
    using c'(2,4,5) by (simp_all add: NewChunker_facts)
  show so: "sent_ok c" using v by (simp add: sink_valid_def chunker_inv_def)
  have "length (ck_sent c) \<le> length (content c)"
    using chunks_le_content [of "ck_sent c"] so by (auto simp: sent_ok_def content_def)
  also have "\<dots> \<le> length (written es)"
    unfolding l by (simp add: take_limit_def split: option.split)
  finally show "length (ck_sent c) \<le> length (written es)" .
qed

lemma linked_outbox:
  assumes "linked got opts es p" and "length (written es) < 2 ^ 64"
  shows "outbox_valid (rp_id p) (rp_buffer p)"
proof -
  let ?c = "ar_chunker (rp_run p)"
  have run: "chunker_run es (NewChunker (rp_id p) opts) = Some ?c" using assms(1) by (simp add: linked_def)
  have "sorted_wrt (\<lambda>k l. ch_seq k < ch_seq l) (ck_sent ?c)"
    using run_chunker(4,5) [OF run] assms(2) by (intro sent_increasing) auto
  moreover obtain front where "ck_sent ?c = front @ held (rp_id p) (rp_buffer p)"
    using assms(1) by (auto simp: linked_def suffix_def)
  ultimately show ?thesis using assms(1) by (simp add: linked_def outbox_valid_def sorted_wrt_append)
qed

lemma linked_delivered:
  assumes l: "linked got opts es p" and len: "length (written es) < 2 ^ 64"
    and ne: "NextBatch (rp_id p) (rp_buffer p) \<noteq> []"
    and d: "delivered got (NextBatch (rp_id p) (rp_buffer p)) p q"
  shows "linked got opts es q"
proof -
  let ?k = "rp_id p" and ?b = "rp_buffer p"
  let ?batch = "NextBatch ?k ?b"
  have valid: "outbox_valid ?k ?b" by (rule linked_outbox [OF l len])
  obtain bf where a: "AckUpTo ?k (ch_seq (last ?batch)) ?b = Some bf" and vf: "outbox_valid ?k bf"
    and rest: "held ?k ?b = ?batch @ held ?k bf"
    using run_outbox.ack_batch [OF valid ne] by metis
  have q: "rp_buffer q = bf" "rp_id q = ?k" "ar_chunker (rp_run q) = ar_chunker (rp_run p)"
    "got (rp_world q) = got (rp_world p) @ outputRequest ?batch"
    "rp_output_done q = rp_output_done p" "rp_server_truncated q = rp_server_truncated p"
    using d a by (simp_all add: delivered_def same_run_def ack_def)
  have "Truncated ?k bf = Truncated ?k ?b"
    using ack_truncated [of ?b ?k "ch_seq (last ?batch)"] valid a by (simp add: outbox_valid_def ack_def)
  moreover have "suffix (held ?k bf) (ck_sent (ar_chunker (rp_run p)))"
    using l rest by (auto simp: linked_def suffix_def)
  ultimately show ?thesis
    using l vf rest unfolding linked_def q by (simp add: outbox_valid_def)
qed

text \<open>Any change of the buffer that retains what is held and takes what was sent.\<close>

lemma linked_buffer:
  assumes l: "linked got opts es p"
    and c: "chunker_run fs (ar_chunker (rp_run p)) = Some c" "ck_sent c = ck_sent (ar_chunker (rp_run p)) @ new"
    and b: "buffer_inv b" "bf_batch_chunks b = bf_batch_chunks (rp_buffer p)" "retains (rp_id p) new (rp_buffer p) b"
  shows "linked got opts (es @ fs) (p\<lparr>rp_run := (rp_run p)\<lparr>ar_chunker := c\<rparr>, rp_buffer := b\<rparr>)"
proof -
  obtain lost where lost: "held (rp_id p) (rp_buffer p) @ new = lost @ held (rp_id p) b"
    "lost \<noteq> [] \<or> Truncated (rp_id p) (rp_buffer p) \<longrightarrow> Truncated (rp_id p) b"
    using b(3) by (auto simp: retains_def)
  obtain front where "ck_sent (ar_chunker (rp_run p)) = front @ held (rp_id p) (rp_buffer p)"
    using l by (auto simp: linked_def suffix_def)
  then have "ck_sent c = (front @ lost) @ held (rp_id p) b" using lost(1) c(2) by simp
  then have "suffix (held (rp_id p) b) (ck_sent c)" unfolding suffix_def by blast
  moreover have "got (rp_world p) @ outputRequest (held (rp_id p) b) = outputRequest (ck_sent c)"
    if "\<not> Truncated (rp_id p) b"
  proof -
    have "lost = []" and "\<not> Truncated (rp_id p) (rp_buffer p)" using lost(2) that by blast+
    then have "got (rp_world p) @ outputRequest (held (rp_id p) (rp_buffer p)) =
        outputRequest (ck_sent (ar_chunker (rp_run p)))"
      and h: "held (rp_id p) b = held (rp_id p) (rp_buffer p) @ new"
      using l lost(1) by (simp_all add: linked_def)
    then show ?thesis unfolding h c(2) outputRequest_append append.assoc [symmetric] by simp
  qed
  moreover have "chunker_run (es @ fs) (NewChunker (rp_id p) opts) = Some c"
    using l c(1) by (simp add: linked_def chunker_run_append)
  ultimately show ?thesis using l b(1,2) by (simp add: linked_def)
qed

section \<open>Supervision keeps the invariant\<close>

fun copied :: "'w report_event list \<Rightarrow> chunker_step list" where
  "copied [] = []"
| "copied (Copied iter es # evs) = es @ copied evs"
| "copied (_ # evs) = copied evs"

text \<open>What the other goroutines may do while the Run is supervised.\<close>

definition fair_event :: "string \<Rightarrow> ('w \<Rightarrow> output_chunk list) \<Rightarrow> 'w report_event \<Rightarrow> bool" where
  "fair_event k got ev \<longleftrightarrow>
     (case ev of Copied iter es \<Rightarrow> visits_all iter | Others f \<Rightarrow> spares k f
      | World f \<Rightarrow> \<forall>w. got (f w) = got w | _ \<Rightarrow> True)"

lemma linked_sendOutput:
  assumes fl: "flaky sv got fuel" and l: "linked got opts es p" and len: "length (written es) < 2 ^ 64"
  shows "linked got opts es (sendOutput sv p) \<and> rp_id (sendOutput sv p) = rp_id p"
proof -
  have "\<not> rp_output_done p" using l by (simp add: linked_def)
  from sendOutput_flaky [OF fl this] show ?thesis
  proof (elim disjE conjE)
    assume u: "undelivered p (sendOutput sv p)" and g: "got (rp_world (sendOutput sv p)) = got (rp_world p)"
    from linked_undelivered [OF l u g] u show ?thesis by (simp add: undelivered_def same_run_def)
  next
    assume ne: "NextBatch (rp_id p) (rp_buffer p) \<noteq> []"
      and d: "delivered got (NextBatch (rp_id p) (rp_buffer p)) p (sendOutput sv p)"
    from linked_delivered [OF l len ne d] d show ?thesis by (simp add: delivered_def same_run_def)
  qed
qed

lemma linked_step:
  assumes fl: "flaky sv got fuel" and l: "linked got opts es p" and ok: "fair_event (rp_id p) got ev"
    and len: "length (written (es @ copied [ev])) < 2 ^ 64"
  shows "\<exists>q. supervise_step sv ev p = Some q \<and> linked got opts (es @ copied [ev]) q \<and> rp_id q = rp_id p"
proof -
  have le: "length (written es) < 2 ^ 64" using len by (simp add: written_append)
  show ?thesis
  proof (cases ev)
    case Flush
    with linked_sendOutput [OF fl l le] show ?thesis by (simp add: supervise_step_def)
  next
    case RetryReady
    have "linked got opts es (p\<lparr>rp_waiting := False\<rparr>)" using l by (simp add: linked_def)
    from linked_sendOutput [OF fl this le] RetryReady show ?thesis by (simp add: supervise_step_def)
  next
    case HeartbeatTick
    with sendHeartbeat_flaky [OF fl, of p] linked_undelivered [OF l] show ?thesis
      by (simp add: supervise_step_def undelivered_def same_run_def)
  next
    case (Copied iter fs)
    let ?c0 = "ar_chunker (rp_run p)"
    have run0: "chunker_run es (NewChunker (rp_id p) opts) = Some ?c0" using l by (simp add: linked_def)
    obtain c where c: "chunker_run fs ?c0 = Some c"
      using chunker_run_spec [OF run_chunker(1) [OF run0]] by metis
    then have run: "chunker_run (es @ fs) (NewChunker (rp_id p) opts) = Some c"
      using run0 by (simp add: chunker_run_append)
    have "ck_run c = rp_id p" using run_chunker(1) [OF run] by (simp add: sink_valid_def)
    then have all: "\<forall>x\<in>set (ck_sent c). ch_run x = rp_id p"
      using run_chunker(4) [OF run] by (simp add: sent_ok_def)
    have "visits_all iter" and "buffer_inv (rp_buffer p)"
      using ok Copied l by (simp_all add: fair_event_def linked_def)
    from received [OF this chunker_run_grows [OF c] all] obtain b new where
      b: "receive iter ?c0 c (rp_buffer p) = Some b" "ck_sent c = ck_sent ?c0 @ new" "buffer_inv b"
      "bf_batch_chunks b = bf_batch_chunks (rp_buffer p)" "retains (rp_id p) new (rp_buffer p) b" by blast
    from linked_buffer [OF l c b(2-5)] b(1) c Copied show ?thesis by (simp add: supervise_step_def)
  next
    case (Others f)
    have b: "buffer_inv (f (rp_buffer p))" "bf_batch_chunks (f (rp_buffer p)) = bf_batch_chunks (rp_buffer p)"
      "retains (rp_id p) [] (rp_buffer p) (f (rp_buffer p))"
      using ok Others l by (simp_all add: fair_event_def spares_def linked_def)
    from linked_buffer [OF l _ _ b, where fs = "[]" and c = "ar_chunker (rp_run p)"] Others show ?thesis
      by (simp add: supervise_step_def)
  next
    case (Moves f)
    with l show ?thesis by (simp add: supervise_step_def linked_def)
  next
    case (World f)
    with l ok show ?thesis by (simp add: supervise_step_def linked_def fair_event_def)
  qed
qed

lemma linked_supervise:
  assumes fl: "flaky sv got fuel"
  shows "linked got opts es p \<Longrightarrow> list_all (fair_event (rp_id p) got) evs \<Longrightarrow>
    length (written (es @ copied evs)) < 2 ^ 64 \<Longrightarrow>
    \<exists>q. supervise sv evs p = Some q \<and> linked got opts (es @ copied evs) q \<and> rp_id q = rp_id p"
proof (induction evs arbitrary: es p)
  case (Cons ev evs)
  have split: "copied (ev # evs) = copied [ev] @ copied evs" by (cases ev) simp_all
  have len: "length (written (es @ copied [ev])) < 2 ^ 64"
    using Cons.prems(3) unfolding split by (simp add: written_append)
  obtain q where q: "supervise_step sv ev p = Some q" "linked got opts (es @ copied [ev]) q" "rp_id q = rp_id p"
    using linked_step [OF fl Cons.prems(1) _ len] Cons.prems(2) by auto
  from Cons.IH [OF q(2)] q Cons.prems(2,3) show ?case unfolding split by (simp add: written_append)
qed simp

section \<open>The end of the delivery\<close>

lemma finish_obliging:
  assumes "obliging sv got fuel"
  shows "\<exists>b w. finish sv request p = Some (p\<lparr>rp_backoff := b, rp_world := w\<rparr>) \<and> got w = got (rp_world p)"
proof -
  have fl: "flaky sv got fuel" using assms by (simp add: obliging_def)
  have fin: "got (snd (wd_finish sv i q w)) = got w"
    "fst (wd_finish sv i q w) = Inl e \<Longrightarrow> IsRetryable e \<Longrightarrow> fuel (snd (wd_finish sv i q w)) < fuel w" for i q w e
    using assms by (simp_all add: obliging_def)
  let ?op = "\<lambda>w. failure (wd_finish sv (rp_id p) request w)"
  have op: "fuel (snd (?op w)) < fuel w" if "fst (?op w) = Some e" "IsRetryable e" for w e
    using that fin(2) [of "rp_id p" request w] by (auto simp: failure_def split: prod.splits sum.splits)
  have "\<exists>res. Retry (wd_float sv) ?op (wd_random sv) (wd_sleep sv) (rp_backoff p) (rp_world p) = Some res"
    by (rule Retry_returns [where fuel = fuel]) (use op flaky_rest(1,4) [OF fl] in auto)
  then obtain res where r: "Retry (wd_float sv) ?op (wd_random sv) (wd_sleep sv) (rp_backoff p) (rp_world p) = Some res"
    by blast
  have "got (snd (snd res)) = got (rp_world p)"
    using Retry_keeps [where I = "\<lambda>w. got w = got (rp_world p)", OF r] fin(1) flaky_rest(2,5) [OF fl] by simp
  with r show ?thesis by (cases res) (auto simp: finish_def)
qed

text \<open>What the Server took, as bytes with their stream.\<close>

definition wire :: "output_chunk \<Rightarrow> (string \<times> char) list" where
  "wire c = map (Pair (oc_stream c)) (oc_data c)"

lemma wire_outputRequest: "concat (map wire (outputRequest cs)) = concat (map marked cs)"
  by (induction cs) (simp_all add: wire_def marked_def outputRequest_def chunk_protocol_def)

lemma closed_outbox:
  assumes so: "sent_ok c" and len: "length (ck_sent c) < 2 ^ 64"
    and suf: "suffix (held k b) (ck_sent c)" and b: "buffer_inv b" "1 \<le> bf_batch_chunks b"
  shows "outbox_valid k b"
proof -
  obtain front where "ck_sent c = front @ held k b" using suf by (auto simp: suffix_def)
  with sent_increasing [OF so len] b show ?thesis by (simp add: outbox_valid_def sorted_wrt_append)
qed

text \<open>\<open>deliver\<close> after the process ended, from any linked state.\<close>

lemma deliver_end_linked:
  assumes ob: "obliging sv got fuel" and vis: "visits_all iter" and l: "linked got opts es p"
    and len: "length (written es) < 2 ^ 64"
  shows "\<exists>request p' sd' b n. deliver_end sv iter now e result p sd = Some (request, p', sd') \<and>
    rp_buffer p' = Forget (rp_id p) b \<and>
    (fq_output_truncated request \<longleftrightarrow>
       (0 < co_max_output opts \<and> co_max_output opts < int (length (written es))) \<or> Truncated (rp_id p) b) \<and>
    fq_last_output_seq request = of_nat n \<and>
    (\<not> fq_output_truncated request \<longrightarrow> concat (map wire (got (rp_world p'))) = written es \<and>
       map oc_seq (got (rp_world p')) = map of_nat [1..<Suc n])"
proof -
  let ?k = "rp_id p" and ?c = "ar_chunker (rp_run p)"
  have fl: "flaky sv got fuel" using ob by (simp add: obliging_def)
  have run: "chunker_run es (NewChunker ?k opts) = Some ?c" using l by (simp add: linked_def)
  note ck = run_chunker [OF run]
  obtain c n tr where cl: "Close ?c = (c, n, tr)" by (metis prod.exhaust)
  have c: "concat (map marked (ck_sent c)) = content ?c" "sent_ok c" "ck_run c = ?k"
    "n = of_nat (length (ck_sent c))" "tr = ck_truncated ?c"
    using Close_facts [OF ck(1) cl] by simp_all
  have over: "tr \<longleftrightarrow> 0 < co_max_output opts \<and> co_max_output opts < int (length (written es))"
    unfolding c(5) ck(3) ck(2) by (auto simp: NewChunker_facts take_limit_def nat_less_iff)
  have "\<forall>x\<in>set (ck_sent c). ch_data x \<noteq> []" using c(2) by (simp add: sent_ok_def)
  then have "length (ck_sent c) \<le> length (content ?c)" unfolding c(1) [symmetric] by (rule chunks_le_content)
  also have "\<dots> \<le> length (written es)" unfolding ck(2) by (simp add: take_limit_def split: option.split)
  finally have small: "length (ck_sent c) < 2 ^ 64" using len by simp
  have all: "\<forall>x\<in>set (ck_sent c). ch_run x = ?k" using c(2,3) by (simp add: sent_ok_def)
  have inv: "buffer_inv (rp_buffer p)" "1 \<le> bf_batch_chunks (rp_buffer p)" using l by (simp_all add: linked_def)
  obtain b new where b: "receive iter ?c c (rp_buffer p) = Some b" "ck_sent c = ck_sent ?c @ new" "buffer_inv b"
    "bf_batch_chunks b = bf_batch_chunks (rp_buffer p)" "retains ?k new (rp_buffer p) b"
    using received [OF vis inv(1) Close_grows [OF cl] all] by blast
  obtain lost where lost: "held ?k (rp_buffer p) @ new = lost @ held ?k b"
    "lost \<noteq> [] \<or> Truncated ?k (rp_buffer p) \<longrightarrow> Truncated ?k b"
    using b(5) by (auto simp: retains_def)
  obtain front where front: "ck_sent ?c = front @ held ?k (rp_buffer p)"
    using l by (auto simp: linked_def suffix_def)
  have "ck_sent c = (front @ lost) @ held ?k b" using front lost(1) b(2) by simp
  then have suf: "suffix (held ?k b) (ck_sent c)" unfolding suffix_def by blast
  let ?p = "p\<lparr>rp_run := (rp_run p)\<lparr>ar_chunker := c\<rparr>, rp_buffer := b\<rparr>"
  have valid: "outbox_valid (rp_id ?p) (rp_buffer ?p)"
    using closed_outbox [OF c(2) small suf b(3)] inv(2) b(4) by simp
  have "\<not> rp_output_done ?p" using l by (simp add: linked_def)
  from drain_all [OF fl valid this] obtain p1 where p1: "drain sv ?p = Some p1" "same_run ?p p1"
    "buffer_inv (rp_buffer p1)" "Truncated ?k (rp_buffer p1) = Truncated ?k b"
    "got (rp_world p1) = got (rp_world p) @ outputRequest (held ?k b)" by auto
  let ?tr = "tr \<or> rp_server_truncated p1 \<or> Truncated (rp_id p1) (rp_buffer p1)"
  let ?request = "finishRequest now (rp_run p1) result n ?tr"
  obtain bo w where f: "finish sv ?request p1 = Some (p1\<lparr>rp_backoff := bo, rp_world := w\<rparr>)"
    and w: "got w = got (rp_world p1)" using finish_obliging [OF ob] by metis
  have p1': "rp_id p1 = ?k" "\<not> rp_server_truncated p1" using p1(2) l by (simp_all add: same_run_def linked_def)
  have req: "fq_output_truncated ?request \<longleftrightarrow> tr \<or> Truncated ?k b" "fq_last_output_seq ?request = n"
    using p1' p1(4) by (simp_all add: finishRequest_def Let_def split: prod.split)
  have arrived: "got w = outputRequest (ck_sent c)" "written es = content ?c" if nt: "\<not> fq_output_truncated ?request"
  proof -
    from nt have "\<not> Truncated ?k b" and t: "\<not> tr" unfolding req(1) by blast+
    then have "lost = []" and "\<not> Truncated ?k (rp_buffer p)" using lost(2) by blast+
    then have "got (rp_world p) @ outputRequest (held ?k (rp_buffer p)) = outputRequest (ck_sent ?c)"
      and h: "held ?k b = held ?k (rp_buffer p) @ new"
      using l lost(1) by (simp_all add: linked_def)
    then show "got w = outputRequest (ck_sent c)"
      unfolding w p1(5) h b(2) outputRequest_append append.assoc [symmetric] by simp
    show "written es = content ?c" using t c(5) ck(3) by simp
  qed
  have "concat (map wire (got w)) = written es \<and> map oc_seq (got w) = map of_nat [1..<Suc (length (ck_sent c))]"
    if nt: "\<not> fq_output_truncated ?request"
  proof
    show "concat (map wire (got w)) = written es"
      using arrived [OF nt] by (simp add: wire_outputRequest c(1))
    show "map oc_seq (got w) = map of_nat [1..<Suc (length (ck_sent c))]"
      using arrived(1) [OF nt] c(2) by (simp add: outputRequest_def sent_ok_def comp_def chunk_protocol_def)
  qed
  with cl b(1) p1(1) f p1' p1(3,4) req over c(4) show ?thesis
    by (intro exI [of _ ?request] exI [of _ "p1\<lparr>rp_backoff := bo, rp_world := w, rp_buffer := Forget ?k (rp_buffer p1)\<rparr>"]
        exI [of _ "fst (MarkFinished e ?k (outcome_of ?request) sd)"] exI [of _ "rp_buffer p1"]
        exI [of _ "length (ck_sent c)"]) (simp add: deliver_end_def Let_def)
qed

section \<open>The Run a report is about\<close>

lemma heartbeat_lease: "heartbeat sv p = (e, q) \<Longrightarrow> ar_lease (rp_run q) = ar_lease (rp_run p)"
  using heartbeat_frame(1) [of sv p] by simp

lemma drain_op_lease: "ar_lease (rp_run (snd (drain_op sv batch p))) = ar_lease (rp_run p)"
  by (auto simp: drain_op_def Let_def heartbeat_lease split: prod.splits sum.splits option.splits if_splits)

lemma sendOutput_lease: "ar_lease (rp_run (sendOutput sv p)) = ar_lease (rp_run p)"
  by (auto simp: sendOutput_def Let_def heartbeat_lease split: prod.splits sum.splits option.splits if_splits)

lemma supervise_lease: "supervise sv evs p = Some q \<Longrightarrow> ar_lease (rp_run q) = ar_lease (rp_run p)"
proof (induction evs arbitrary: p)
  case (Cons ev evs)
  then obtain p1 where p1: "supervise_step sv ev p = Some p1" and "supervise sv evs p1 = Some q"
    by (auto split: option.splits)
  with Cons.IH have "ar_lease (rp_run q) = ar_lease (rp_run p1)" by simp
  also have "\<dots> = ar_lease (rp_run p)"
    using p1 by (cases ev) (auto simp: supervise_step_def sendOutput_lease sendHeartbeat_def heartbeat_frame
        split: option.splits if_splits)
  finally show ?case .
qed simp

lemma drain_round_lease: "drain_round sv batch p = Some (e, q) \<Longrightarrow> ar_lease (rp_run q) = ar_lease (rp_run p)"
proof -
  assume "drain_round sv batch p = Some (e, q)"
  then obtain b p' where r: "Retry (wd_float sv) (drain_op sv batch) (in_world (wd_random sv))
      (\<lambda>d. in_world (wd_sleep sv d)) (rp_backoff p) p = Some (e, b, p')" and q: "q = p'\<lparr>rp_backoff := b\<rparr>"
    by (auto simp: drain_round_def split: option.splits)
  have "ar_lease (rp_run p') = ar_lease (rp_run p)"
    using Retry_keeps [where I = "\<lambda>q. ar_lease (rp_run q) = ar_lease (rp_run p)", OF r]
    by (simp add: drain_op_lease)
  with q show ?thesis by simp
qed

lemma drain_lease: "drain sv p = Some q \<Longrightarrow> ar_lease (rp_run q) = ar_lease (rp_run p)"
proof (induction sv p q rule: drain.raw_induct [rotated 1, consumes 1])
  case (1 drain sv p q)
  let ?batch = "NextBatch (rp_id p) (rp_buffer p)"
  show ?case
  proof (cases "rp_output_done p \<or> ?batch = []")
    case True
    with 1(2) show ?thesis by (auto split: if_splits)
  next
    case False
    then obtain err p1 where r: "drain_round sv ?batch p = Some (err, p1)"
      using 1(2) by (auto split: option.splits)
    note l = drain_round_lease [OF r]
    let ?p2 = "case err of None \<Rightarrow> p1 | Some e \<Rightarrow> if rp_output_done p1 then p1 else outputFailed sv e p1"
    have "ar_lease (rp_run ?p2) = ar_lease (rp_run p)" using l by (auto split: option.split)
    moreover have "q = p1 \<or> drain sv ?p2 = Some q" using 1(2) False r by (auto split: if_splits)
    ultimately show ?thesis using 1(1) l by metis
  qed
qed

lemma deliver_end_records:
  assumes "deliver_end sv iter now e result p sd = Some (request, p', sd')"
  shows "sd' = fst (MarkFinished e (rp_id p) (outcome_of request) sd) \<and> rp_id p' = rp_id p"
proof (rule deliver_end_parts [OF assms])
  fix c lastSeq truncated b p1 p2
  assume d: "drain sv (p\<lparr>rp_run := (rp_run p)\<lparr>ar_chunker := c\<rparr>, rp_buffer := b\<rparr>) = Some p1"
    and f: "finish sv request p1 = Some p2"
    and p': "p' = p2\<lparr>rp_buffer := Forget (rp_id p2) (rp_buffer p2)\<rparr>"
    and sd': "sd' = fst (MarkFinished e (rp_id p2) (outcome_of request) sd)"
  have "rp_id p2 = rp_id p1" using f by (auto simp: finish_def split: option.splits)
  moreover have "rp_id p1 = rp_id p" using drain_lease [OF d] by simp
  ultimately show ?thesis using p' sd' by simp
qed

lemma deliver_records:
  assumes "deliver sv evs iter now e result p sd = Some (request, p', sd')"
  shows "sd' = fst (MarkFinished e (rp_id p) (outcome_of request) sd) \<and> rp_id p' = rp_id p"
proof (cases "ar_process (rp_run p) = None")
  case True
  with assms show ?thesis by (intro deliver_end_records) (simp add: deliver_def)
next
  case False
  with assms obtain q where q: "supervise sv evs p = Some q"
    and d: "deliver_end sv iter now e (Some result) q sd = Some (request, p', sd')"
    by (auto simp: deliver_def split: option.splits)
  from deliver_end_records [OF d] supervise_lease [OF q] show ?thesis by simp
qed

section \<open>Properties\<close>


text \<open>C4: The outcome of a delivered Run is on record for good: the Run is not active any more, and when
  its lease is repeated, nothing is started: the agent answers with the status, exit code, start time
  and reason it reported the first time, and changes nothing of its own.\<close>

theorem repeated_lease_gets_outcome:
  assumes "deliver sv evs iter now e result p sd = Some (request, p', sd')"
    and "disk_store_ok sd" and "prompt_env e"
    and "ag_store a = sd'" and "reg_get (rp_id p) (ag_registry a) = None" and "rl_run_id lease = rp_id p"
  shows "\<not> IsActive (rp_id p) (fst sd') \<and>
    (\<exists>q. handleLease le server lease cancelled (a, w) = Some (a, snd (wd_finish server (rp_id p) q w)) \<and>
       fq_status q = fq_status request \<and> fq_exit_code q = fq_exit_code request \<and>
       fq_started_at q = fq_started_at request \<and> fq_reason q = fq_reason request)"
proof -
  let ?out = "recent_of (rp_id p) (outcome_of request) (se_now e)"
  have sd': "sd' = fst (MarkFinished e (rp_id p) (outcome_of request) sd)"
    using deliver_records [OF assms(1)] by simp
  have act: "\<not> IsActive (rp_id p) (fst sd')"
    using run_ledger.active_finish [of "rp_id p" e "rp_id p" "outcome_of request" sd] sd' by simp
  have "RecentOutcome (rp_id p) (fst (ag_store a)) = Some ?out"
    using run_ledger.recorded_finish [OF assms(2,3)] sd' assms(4) by simp
  then have "handleLease le server lease cancelled (a, w) = Some (a, snd (Resend server lease ?out w))"
    using assms(5,6) by (simp add: handleLease_def)
  moreover have "snd (Resend server lease ?out w) = snd (wd_finish server (rp_id p) (resend_request ?out) w)"
    using assms(6) by (auto simp: Resend_def split: prod.split sum.split)
  ultimately show ?thesis
    using act by (intro conjI exI [of _ "resend_request ?out"])
      (simp_all add: resend_request_def recent_of_def outcome_of_def)
qed

section \<open>Witnesses\<close>

lemma transient_EOF: "transient ErrEOF"
  by (simp add: transient_def)

lemma patchy_obliging: "obliging patchy_server snd fst"
  by (auto simp: obliging_def flaky_def patchy_server_def transient_EOF)

definition sample_start_report :: "(nat \<times> output_chunk list) report" where
  "sample_start_report = new_report sample_run (NewBuffer \<lparr>bo_cap = 0, bo_batch_bytes = 0, bo_batch_chunks = 0\<rparr>) (2, [])"


theorem repeated_lease_gets_outcome_witness:
  "\<exists>request p' sd' q. deliver (logged patchy_server) sample_events (\<lambda>t. t) 9 sample_env sample_result sample_report
      sample_store = Some (request, p', sd') \<and> \<not> IsActive ''r'' (fst sd') \<and>
    handleLease sample_lease_env sample_server sample_lease False (sample_agent\<lparr>ag_store := sd'\<rparr>, ()) =
      Some (sample_agent\<lparr>ag_store := sd'\<rparr>, snd (wd_finish sample_server ''r'' q ())) \<and>
    fq_status q = ''success''"
proof -
  obtain request p' sd' where d: "deliver (logged patchy_server) sample_events (\<lambda>t. t) 9 sample_env sample_result
      sample_report sample_store = Some (request, p', sd')" and s: "fq_status request = RunStatusSuccess"
    by (rule sample_delivery)
  have k: "rp_id sample_report = ''r''" by (simp add: sample_report_def new_report_def)
  have "\<not> IsActive (rp_id sample_report) (fst sd') \<and>
    (\<exists>q. handleLease sample_lease_env sample_server sample_lease False (sample_agent\<lparr>ag_store := sd'\<rparr>, ()) =
        Some (sample_agent\<lparr>ag_store := sd'\<rparr>, snd (wd_finish sample_server (rp_id sample_report) q ())) \<and>
       fq_status q = fq_status request \<and> fq_exit_code q = fq_exit_code request \<and>
       fq_started_at q = fq_started_at request \<and> fq_reason q = fq_reason request)"
    by (rule repeated_lease_gets_outcome [OF d sample_ok])
      (simp_all add: k sample_agent_def reg_get_def sample_lease_def)
  with d s k show ?thesis by (auto simp: RunStatusSuccess_def)
qed

end
