(* ===== verification/Go_Fields.thy ===== *)
theory Go_Fields
  imports Go_Strings
begin

text \<open>
  What \<open>internal/discovery\<close> uses of Go's \<open>strings\<close> and \<open>path/filepath\<close> besides \<open>Go_Strings\<close>:
  cutting at a longer separator, fields, trimming of a set of bytes, lower case as far as ASCII goes,
  and the last element and the extension of a path.
\<close>

section \<open>Blanks\<close>

definition is_blank :: "char \<Rightarrow> bool" where
  "is_blank c \<longleftrightarrow> c = CHR '' '' \<or> c = CHR 0x09"

text \<open>\<open>strings.TrimLeft(s, cutset)\<close>, \<open>TrimRight\<close> and \<open>Trim\<close> for a set of one-byte characters.\<close>

definition TrimLeft :: "(char \<Rightarrow> bool) \<Rightarrow> string \<Rightarrow> string" where
  "TrimLeft p s = dropWhile p s"

definition TrimRight :: "(char \<Rightarrow> bool) \<Rightarrow> string \<Rightarrow> string" where
  "TrimRight p s = rev (dropWhile p (rev s))"

definition Trim :: "(char \<Rightarrow> bool) \<Rightarrow> string \<Rightarrow> string" where
  "Trim p s = TrimRight p (TrimLeft p s)"

lemma TrimLeft_simps [simp]: "TrimLeft p [] = []" "p c \<Longrightarrow> TrimLeft p (c # s) = TrimLeft p s"
    "\<not> p c \<Longrightarrow> TrimLeft p (c # s) = c # s"
  by (simp_all add: TrimLeft_def)

lemma TrimLeft_append: "list_all p a \<Longrightarrow> TrimLeft p (a @ s) = TrimLeft p s"
  by (induction a) auto

lemma TrimRight_Nil [simp]: "TrimRight p [] = []"
  by (simp add: TrimRight_def)

lemma TrimRight_snoc [simp]: "TrimRight p (s @ [c]) = (if p c then TrimRight p s else s @ [c])"
  by (simp add: TrimRight_def)

lemma TrimRight_idem: "s = [] \<or> \<not> p (last s) \<Longrightarrow> TrimRight p s = s"
  by (cases s rule: rev_cases) auto

lemma TrimRight_prefix: "\<exists>t. s = TrimRight p s @ t \<and> list_all p t"
proof (induction s rule: rev_induct)
  case (snoc c s)
  then obtain t where t: "s = TrimRight p s @ t" "list_all p t" by blast
  show ?case
  proof (cases "p c")
    case True
    with t show ?thesis by (intro exI [of _ "t @ [c]"]) auto
  qed simp
qed simp

section \<open>Cutting at a separator of several bytes\<close>

text \<open>\<open>strings.Cut\<close>: before and after the first occurrence.\<close>

fun cut_at :: "string \<Rightarrow> string \<Rightarrow> (string \<times> string) option" where
  "cut_at sep s =
     (if HasPrefix s sep then Some ([], drop (length sep) s)
      else case s of [] \<Rightarrow> None
      | c # cs \<Rightarrow> (case cut_at sep cs of None \<Rightarrow> None | Some (a, b) \<Rightarrow> Some (c # a, b)))"

declare cut_at.simps [simp del]

lemma cut_at_SomeD: "cut_at sep s = Some (a, b) \<Longrightarrow> s = a @ sep @ b"
proof (induction sep s arbitrary: a b rule: cut_at.induct)
  case (1 sep s)
  show ?case
  proof (cases "HasPrefix s sep")
    case True
    with 1(2) show ?thesis by (subst (asm) cut_at.simps) (auto simp: HasPrefix_iff)
  next
    case False
    with 1(2) obtain c cs a' where "s = c # cs" "cut_at sep cs = Some (a', b)" "a = c # a'"
      by (subst (asm) cut_at.simps) (auto split: list.splits option.splits)
    with 1(1) [OF False] show ?thesis by simp
  qed
qed

text \<open>The text before the last occurrence (\<open>strings.LastIndex\<close>).\<close>

fun before_last :: "string \<Rightarrow> string \<Rightarrow> string option" where
  "before_last sep s =
     (case s of [] \<Rightarrow> (if sep = [] then Some [] else None)
      | c # cs \<Rightarrow> (case before_last sep cs of
            Some a \<Rightarrow> Some (c # a)
          | None \<Rightarrow> if HasPrefix s sep then Some [] else None))"

declare before_last.simps [simp del]

text \<open>\<open>strings.Split\<close> at a separator of several bytes; the separator is not empty.\<close>

fun split_at_aux :: "nat \<Rightarrow> string \<Rightarrow> string \<Rightarrow> string list" where
  "split_at_aux 0 sep s = [s]"
| "split_at_aux (Suc n) sep s =
     (case cut_at sep s of None \<Rightarrow> [s] | Some (a, b) \<Rightarrow> a # split_at_aux n sep b)"

definition split_at :: "string \<Rightarrow> string \<Rightarrow> string list" where
  "split_at sep s = split_at_aux (length s) sep s"

text \<open>The fuel of \<open>split_at\<close> is enough: every cut takes at least the separator away.\<close>

lemma split_at_aux_enough:
  "sep \<noteq> [] \<Longrightarrow> length s \<le> n \<Longrightarrow> length s \<le> m \<Longrightarrow> split_at_aux n sep s = split_at_aux m sep s"
proof (induction n sep s arbitrary: m rule: split_at_aux.induct)
  case (1 sep s)
  then have "s = []" by simp
  moreover have "cut_at sep [] = None" using 1 by (subst cut_at.simps) (simp add: HasPrefix_def)
  ultimately show ?case by (cases m) simp_all
next
  case (2 n sep s)
  show ?case
  proof (cases "cut_at sep s")
    case None
    then show ?thesis by (cases m) simp_all
  next
    case (Some ab)
    then obtain a b where ab: "cut_at sep s = Some (a, b)" by (cases ab) auto
    then have "s = a @ sep @ b" by (rule cut_at_SomeD)
    moreover have "0 < length sep" using 2(2) by simp
    ultimately have len: "length s = length a + length sep + length b" and "0 < length sep" by simp_all
    have "length b \<le> n" "length b \<le> m - 1" "0 < m"
      using 2(3,4) len \<open>0 < length sep\<close> by linarith+
    then obtain k where k: "m = Suc k" by (cases m) simp_all
    have "split_at_aux n sep b = split_at_aux k sep b"
      by (rule 2(1) [OF ab refl 2(2)]) (use \<open>length b \<le> n\<close> \<open>length b \<le> m - 1\<close> k in simp_all)
    with ab k show ?thesis by simp
  qed
qed

section \<open>Fields\<close>

text \<open>\<open>strings.Fields\<close>: the parts between runs of white space; \<open>cur\<close> is the part being read.\<close>

function fields_from :: "string \<Rightarrow> string \<Rightarrow> string list" where
  "fields_from cur s =
     (case front_of space_encodings s of
        Some e \<Rightarrow> (if cur = [] then fields_from [] (drop (length e) s)
                   else cur # fields_from [] (drop (length e) s))
      | None \<Rightarrow> (case s of [] \<Rightarrow> (if cur = [] then [] else [cur])
                 | c # cs \<Rightarrow> fields_from (cur @ [c]) cs))"
  by pat_completeness auto
termination
proof (relation "measure (length \<circ> snd)")
  fix cur s :: string and e
  assume e: "front_of space_encodings s = Some e"
  then have "e \<noteq> []" "s = e @ drop (length e) s" using front_of_SomeD by blast+
  then have "s \<noteq> []" by auto
  with \<open>e \<noteq> []\<close> show "(([], drop (length e) s), (cur, s)) \<in> measure (length \<circ> snd)"
    and "(([], drop (length e) s), (cur, s)) \<in> measure (length \<circ> snd)" by simp_all
qed auto

declare fields_from.simps [simp del]

definition Fields :: "string \<Rightarrow> string list" where
  "Fields s = fields_from [] s"

lemma fields_from_nonempty: "f \<in> set (fields_from cur s) \<Longrightarrow> f \<noteq> []"
proof (induction cur s rule: fields_from.induct)
  case (1 cur s)
  show ?case
  proof (cases "front_of space_encodings s")
    case (Some e)
    show ?thesis
    proof (cases "cur = []")
      case True
      with 1(4) Some have "f \<in> set (fields_from [] (drop (length e) s))"
        by (subst (asm) fields_from.simps) simp
      with 1(2) [OF Some True] show ?thesis by blast
    next
      case False
      with 1(4) Some have "f = cur \<or> f \<in> set (fields_from [] (drop (length e) s))"
        by (subst (asm) fields_from.simps) simp
      with 1(3) [OF Some False] False show ?thesis by blast
    qed
  next
    case None
    with 1(4) 1(1) show ?thesis
      by (subst (asm) fields_from.simps) (auto split: list.splits if_splits)
  qed
qed

section \<open>Lower case\<close>

text \<open>
  \<open>strings.ToLower\<close>, compared with ASCII names only: the letters A to Z, and the two code points
  outside ASCII whose lower case is ASCII (U+0130 and the Kelvin sign U+212A). Other letters stay,
  which no ASCII name can tell apart.
\<close>

definition lower_char :: "char \<Rightarrow> char" where
  "lower_char c = (if of_char c \<in> {65..90::nat} then char_of (of_char c + 32 :: nat) else c)"

fun ToLower :: "string \<Rightarrow> string" where
  "ToLower s =
     (case s of [] \<Rightarrow> []
      | c # cs \<Rightarrow>
          if take 2 s = [CHR 0xC4, CHR 0xB0] then CHR ''i'' # ToLower (drop 2 s)
          else if take 3 s = [CHR 0xE2, CHR 0x84, CHR 0xAA] then CHR ''k'' # ToLower (drop 3 s)
          else lower_char c # ToLower cs)"

declare ToLower.simps [simp del]

section \<open>Paths\<close>

text \<open>\<open>filepath.Base\<close> and \<open>filepath.Ext\<close>.\<close>

definition after_last :: "char \<Rightarrow> string \<Rightarrow> string" where
  "after_last c s = rev (takeWhile (\<lambda>x. x \<noteq> c) (rev s))"

definition Base :: "string \<Rightarrow> string" where
  "Base path =
     (if path = [] then ''.''
      else let b = after_last (CHR ''/'') (TrimRight (\<lambda>c. c = CHR ''/'') path)
           in if b = [] then ''/'' else b)"

definition Ext :: "string \<Rightarrow> string" where
  "Ext path =
     (let el = after_last (CHR ''/'') path
      in if CHR ''.'' \<in> set el then CHR ''.'' # after_last (CHR ''.'') el else [])"

definition TrimSuffix :: "string \<Rightarrow> string \<Rightarrow> string" where
  "TrimSuffix s suf = (if HasSuffix s suf then take (length s - length suf) s else s)"

definition TrimPrefix :: "string \<Rightarrow> string \<Rightarrow> string" where
  "TrimPrefix s pre = (if HasPrefix s pre then drop (length pre) s else s)"

text \<open>\<open>filepath.Join\<close> of a directory that is clean and not the root, and a name without a slash.\<close>

definition join_path :: "string \<Rightarrow> string \<Rightarrow> string" where
  "join_path dir name = dir @ ''/'' @ name"

end
