(* ===== verification/Discovery.thy ===== *)
theory Discovery
  imports Go_Fields
begin

text \<open>
  \<open>internal/discovery/discovery.go\<close>: what a discovery collects (\<open>Entry\<close>, \<open>Unreadable\<close>), the budget it
  keeps to, and how entries that run the agent itself are recognised. The collection is the state the
  readers of the other two theories pass on.
\<close>

section \<open>Data\<close>

definition MaxEntries :: int where "MaxEntries = 500"
definition MaxBytes :: int where "MaxBytes = 512 * 2 ^ 10"
definition entryOverhead :: int where "entryOverhead = 128"
definition agentBinary :: string where "agentBinary = ''omj-agent''"

definition KindCron :: string where "KindCron = ''cron''"
definition KindCalendar :: string where "KindCalendar = ''calendar''"
definition KindMonotonic :: string where "KindMonotonic = ''monotonic''"

record entry =
  en_source :: string
  en_raw :: string
  en_schedule :: string
  en_kind :: string
  en_timezone :: string
  en_command :: string
  en_user :: string
  en_unit :: string
  en_is_agent :: bool
  en_unparseable :: bool
  en_note :: string

definition empty_entry :: entry where
  "empty_entry = \<lparr>en_source = [], en_raw = [], en_schedule = [], en_kind = [], en_timezone = [],
     en_command = [], en_user = [], en_unit = [], en_is_agent = False, en_unparseable = False, en_note = []\<rparr>"

record unreadable =
  ur_source :: string
  ur_reason :: string

record paths =
  pt_system_crontab :: string
  pt_cron_dir :: string
  pt_spool_dirs :: "string list"

record collector =
  dc_paths :: paths
  dc_agent_path :: string
  dc_max_entries :: int
  dc_max_bytes :: int

record collection =
  cl_entries :: "entry list"
  cl_unreadable :: "unreadable list"
  cl_bytes :: int
  cl_omitted :: int
  cl_spent :: bool
  cl_looks :: nat

text \<open>\<open>cl_looks\<close> is not in the source: it counts how often the context was looked at.\<close>

definition new_collection :: collection where
  "new_collection = \<lparr>cl_entries = [], cl_unreadable = [], cl_bytes = 0, cl_omitted = 0, cl_spent = False, cl_looks = 0\<rparr>"

record discovery_result =
  cr_entries :: "entry list"
  cr_unreadable :: "unreadable list"
  cr_omitted :: int

text \<open>An error of a reader: its text, and whether \<open>errors.Is(err, os.ErrNotExist)\<close>.\<close>

datatype read_error = NotExist string | ReadFails string

fun error_text :: "read_error \<Rightarrow> string" where
  "error_text (NotExist t) = t"
| "error_text (ReadFails t) = t"

fun prefixed :: "string \<Rightarrow> read_error \<Rightarrow> read_error" where
  "prefixed m (NotExist t) = NotExist (m @ t)"
| "prefixed m (ReadFails t) = ReadFails (m @ t)"

section \<open>Defaults\<close>

definition paths_empty :: "paths \<Rightarrow> bool" where
  "paths_empty p \<longleftrightarrow> pt_system_crontab p = [] \<and> pt_cron_dir p = [] \<and> pt_spool_dirs p = []"

definition DefaultPaths :: paths where
  "DefaultPaths = \<lparr>pt_system_crontab = ''/etc/crontab'', pt_cron_dir = ''/etc/cron.d'',
     pt_spool_dirs = [''/var/spool/cron/crontabs'', ''/var/spool/cron'']\<rparr>"

text \<open>\<open>executable\<close> is what \<open>os.Executable\<close> answers.\<close>

definition agentPath :: "string option \<Rightarrow> string" where
  "agentPath executable = (case executable of None \<Rightarrow> [] | Some path \<Rightarrow> path)"

definition withDefaults :: "string option \<Rightarrow> collector \<Rightarrow> collector" where
  "withDefaults executable c =
     (let c1 = (if paths_empty (dc_paths c) then c\<lparr>dc_paths := DefaultPaths\<rparr> else c);
          c2 = (if dc_agent_path c1 = [] then c1\<lparr>dc_agent_path := agentPath executable\<rparr> else c1);
          c3 = (if dc_max_entries c2 \<le> 0 then c2\<lparr>dc_max_entries := MaxEntries\<rparr> else c2)
      in if dc_max_bytes c3 \<le> 0 then c3\<lparr>dc_max_bytes := MaxBytes\<rparr> else c3)"

section \<open>The budget\<close>

definition entry_size :: "entry \<Rightarrow> int" where
  "entry_size e = entryOverhead + int (length (en_source e)) + int (length (en_raw e)) +
     int (length (en_schedule e)) + int (length (en_kind e)) + int (length (en_timezone e)) +
     int (length (en_command e)) + int (length (en_user e)) + int (length (en_unit e)) +
     int (length (en_note e))"

definition add_entry :: "collector \<Rightarrow> entry \<Rightarrow> collection \<Rightarrow> collection" where
  "add_entry c e cl =
     (let sz = entry_size e
      in if sz > dc_max_bytes c then cl\<lparr>cl_omitted := cl_omitted cl + 1\<rparr>
         else if cl_spent cl \<or> int (length (cl_entries cl)) \<ge> dc_max_entries c \<or> cl_bytes cl + sz > dc_max_bytes c
         then cl\<lparr>cl_spent := True, cl_omitted := cl_omitted cl + 1\<rparr>
         else cl\<lparr>cl_bytes := cl_bytes cl + sz, cl_entries := cl_entries cl @ [e]\<rparr>)"

definition full :: "collector \<Rightarrow> collection \<Rightarrow> bool" where
  "full c cl \<longleftrightarrow> cl_spent cl \<or> int (length (cl_entries cl)) \<ge> dc_max_entries c"

definition unreadableSource :: "collector \<Rightarrow> string \<Rightarrow> read_error \<Rightarrow> collection \<Rightarrow> collection" where
  "unreadableSource c source err cl =
     (case err of
        NotExist _ \<Rightarrow> cl
      | ReadFails reason \<Rightarrow>
          if int (length (cl_unreadable cl)) \<ge> dc_max_entries c then cl
          else cl\<lparr>cl_unreadable := cl_unreadable cl @ [\<lparr>ur_source = source, ur_reason = reason\<rparr>]\<rparr>)"

section \<open>Entries that run the agent\<close>

definition is_quote :: "char \<Rightarrow> bool" where
  "is_quote c \<longleftrightarrow> c = CHR 0x22 \<or> c = CHR 0x27"

definition runsAgent :: "string \<Rightarrow> string \<Rightarrow> string \<Rightarrow> bool" where
  "runsAgent command unit_name executable \<longleftrightarrow>
     (unit_name \<noteq> [] \<and> TrimSuffix unit_name (Ext unit_name) = agentBinary) \<or>
     list_ex (\<lambda>field. let token = Trim is_quote field
        in token \<noteq> [] \<and> ((executable \<noteq> [] \<and> token = executable) \<or> Base token = agentBinary)) (Fields command)"

section \<open>The invariant of the collection\<close>

definition entries_size :: "entry list \<Rightarrow> int" where
  "entries_size es = sum_list (map entry_size es)"

definition limits_ok :: "collector \<Rightarrow> bool" where
  "limits_ok c \<longleftrightarrow> 0 < dc_max_entries c \<and> 0 < dc_max_bytes c"

text \<open>An entry is marked unparseable or says when, what and as whom it runs.\<close>

definition entry_complete :: "entry \<Rightarrow> bool" where
  "entry_complete e \<longleftrightarrow> en_unparseable e \<or>
     (en_schedule e \<noteq> [] \<and> en_command e \<noteq> [] \<and> en_user e \<noteq> [] \<and>
      en_kind e \<in> {KindCron, KindCalendar, KindMonotonic})"

definition collection_inv :: "collector \<Rightarrow> collection \<Rightarrow> bool" where
  "collection_inv c cl \<longleftrightarrow> int (length (cl_entries cl)) \<le> dc_max_entries c \<and>
     cl_bytes cl = entries_size (cl_entries cl) \<and> cl_bytes cl \<le> dc_max_bytes c \<and>
     int (length (cl_unreadable cl)) \<le> dc_max_entries c \<and> 0 \<le> cl_omitted cl \<and>
     (cl_spent cl \<longrightarrow> 0 < cl_omitted cl) \<and> list_all entry_complete (cl_entries cl)"

named_theorems collects \<open>steps that keep the invariant of the collection\<close>

lemma entry_size_pos: "0 < entry_size e"
  by (simp add: entry_size_def entryOverhead_def)

lemma withDefaults_limits: "limits_ok (withDefaults executable c)"
  by (auto simp: limits_ok_def withDefaults_def Let_def MaxEntries_def MaxBytes_def)

lemma new_collection_inv: "limits_ok c \<Longrightarrow> collection_inv c new_collection"
  by (simp add: collection_inv_def new_collection_def entries_size_def limits_ok_def)

lemma add_entry_inv [collects]: "collection_inv c cl \<Longrightarrow> entry_complete e \<Longrightarrow> collection_inv c (add_entry c e cl)"
  by (auto simp: collection_inv_def add_entry_def Let_def entries_size_def)

lemma unreadableSource_inv [collects]: "collection_inv c cl \<Longrightarrow> collection_inv c (unreadableSource c s err cl)"
  by (auto simp: collection_inv_def unreadableSource_def split: read_error.split)

lemma look_inv [collects]: "collection_inv c (cl\<lparr>cl_looks := n\<rparr>) = collection_inv c cl"
  by (simp add: collection_inv_def)

lemma omit_inv [collects]: "collection_inv c cl \<Longrightarrow> collection_inv c (cl\<lparr>cl_omitted := cl_omitted cl + 1\<rparr>)"
  by (simp add: collection_inv_def)

section \<open>What a sequence of entries leaves\<close>

text \<open>The entries that could ever fit, and the longest beginning of them the two limits allow.\<close>

definition fitting :: "collector \<Rightarrow> entry list \<Rightarrow> entry list" where
  "fitting c es = filter (\<lambda>e. entry_size e \<le> dc_max_bytes c) es"

fun beginning :: "int \<Rightarrow> int \<Rightarrow> entry list \<Rightarrow> entry list" where
  "beginning n b [] = []"
| "beginning n b (e # es) = (if n > 0 \<and> entry_size e \<le> b then e # beginning (n - 1) (b - entry_size e) es else [])"

lemma fold_add_spent:
  "cl_spent cl \<Longrightarrow> cl_entries (fold (add_entry c) es cl) = cl_entries cl \<and>
    cl_omitted (fold (add_entry c) es cl) = cl_omitted cl + int (length es)"
  by (induction es arbitrary: cl) (simp_all add: add_entry_def Let_def)

lemma fold_add:
  assumes "\<not> cl_spent cl"
  shows "cl_entries (fold (add_entry c) es cl) = cl_entries cl @
      beginning (dc_max_entries c - int (length (cl_entries cl))) (dc_max_bytes c - cl_bytes cl) (fitting c es) \<and>
    cl_omitted (fold (add_entry c) es cl) = cl_omitted cl + int (length es) -
      int (length (beginning (dc_max_entries c - int (length (cl_entries cl))) (dc_max_bytes c - cl_bytes cl) (fitting c es)))"
  using assms
proof (induction es arbitrary: cl)
  case Nil
  then show ?case by (simp add: fitting_def)
next
  case (Cons e es)
  consider (huge) "entry_size e > dc_max_bytes c"
    | (over) "entry_size e \<le> dc_max_bytes c"
        "int (length (cl_entries cl)) \<ge> dc_max_entries c \<or> cl_bytes cl + entry_size e > dc_max_bytes c"
    | (fits) "entry_size e \<le> dc_max_bytes c" "int (length (cl_entries cl)) < dc_max_entries c"
        "cl_bytes cl + entry_size e \<le> dc_max_bytes c"
    by linarith
  then show ?case
  proof cases
    case huge
    then have "add_entry c e cl = cl\<lparr>cl_omitted := cl_omitted cl + 1\<rparr>" by (simp add: add_entry_def)
    with Cons.IH [of "cl\<lparr>cl_omitted := cl_omitted cl + 1\<rparr>"] Cons.prems huge show ?thesis
      by (simp add: fitting_def)
  next
    case over
    let ?cl = "cl\<lparr>cl_spent := True, cl_omitted := cl_omitted cl + 1\<rparr>"
    have "add_entry c e cl = ?cl" using over by (auto simp: add_entry_def)
    with fold_add_spent [of ?cl c es] over show ?thesis by (auto simp: fitting_def)
  next
    case fits
    let ?cl = "cl\<lparr>cl_bytes := cl_bytes cl + entry_size e, cl_entries := cl_entries cl @ [e]\<rparr>"
    have "add_entry c e cl = ?cl" using fits Cons.prems by (simp add: add_entry_def)
    with Cons.IH [of ?cl] Cons.prems fits show ?thesis by (simp add: fitting_def algebra_simps)
  qed
qed

lemma beginning_prefix: "prefix (beginning n b es) es"
  by (induction n b es rule: beginning.induct) auto

lemma beginning_bounds:
  "0 \<le> n \<Longrightarrow> 0 \<le> b \<Longrightarrow> int (length (beginning n b es)) \<le> n \<and> entries_size (beginning n b es) \<le> b"
proof (induction n b es rule: beginning.induct)
  case (2 n b e es)
  then show ?case by (auto simp: entries_size_def)
qed (simp add: entries_size_def)

lemma entries_size_nonneg: "0 \<le> entries_size es"
proof (induction es)
  case (Cons e es)
  then show ?case using entry_size_pos [of e] by (simp add: entries_size_def)
qed (simp add: entries_size_def)

lemma beginning_longest:
  "prefix q es \<Longrightarrow> int (length q) \<le> n \<Longrightarrow> entries_size q \<le> b \<Longrightarrow> prefix q (beginning n b es)"
proof (induction n b es arbitrary: q rule: beginning.induct)
  case (2 n b e es)
  show ?case
  proof (cases q)
    case (Cons x xs)
    with 2(2) have x: "x = e" and xs: "prefix xs es" by auto
    have "entry_size e \<le> b" using 2(4) Cons x entries_size_nonneg [of xs] by (simp add: entries_size_def)
    with 2 Cons x xs show ?thesis by (simp add: entries_size_def)
  qed simp
qed simp

lemma beginning_all: "prefix q (fitting c es) \<Longrightarrow> length q = length es \<Longrightarrow> q = es"
proof -
  assume q: "prefix q (fitting c es)" and l: "length q = length es"
  have le: "length (fitting c es) \<le> length es" by (simp add: fitting_def)
  then have "q = fitting c es" using q l prefix_length_le [OF q] by (auto simp: prefix_def)
  moreover have "filter (\<lambda>e. entry_size e \<le> dc_max_bytes c) es = es" if "length (fitting c es) = length es"
    using that by (metis fitting_def filter_True length_filter_less less_irrefl)
  ultimately show ?thesis using l by (simp add: fitting_def)
qed

section \<open>Properties\<close>

text \<open>C38: A report is the beginning of what the machine schedules. Whatever entries the readers add, in
  order: what is kept is the longest beginning, of those entries that fit the byte budget on their
  own, that keeps to both limits; every other entry is counted as omitted, so the omitted count is zero
  exactly when everything was kept.\<close>

theorem add_keeps_beginning:
  assumes "limits_ok c"
    and cl: "cl = fold (add_entry c) es new_collection"
  shows "prefix (cl_entries cl) (fitting c es) \<and>
    int (length (cl_entries cl)) \<le> dc_max_entries c \<and> entries_size (cl_entries cl) \<le> dc_max_bytes c \<and>
    (\<forall>q. prefix q (fitting c es) \<and> int (length q) \<le> dc_max_entries c \<and> entries_size q \<le> dc_max_bytes c \<longrightarrow>
       prefix q (cl_entries cl)) \<and>
    cl_omitted cl = int (length es) - int (length (cl_entries cl)) \<and> (cl_omitted cl = 0 \<longleftrightarrow> cl_entries cl = es)"
proof -
  let ?b = "beginning (dc_max_entries c) (dc_max_bytes c) (fitting c es)"
  have e: "cl_entries cl = ?b" and o: "cl_omitted cl = int (length es) - int (length ?b)"
    using fold_add [of new_collection c es] by (simp_all add: cl new_collection_def)
  have pos: "0 \<le> dc_max_entries c" "0 \<le> dc_max_bytes c" using assms(1) by (simp_all add: limits_ok_def)
  have iff: "length ?b = length es \<longleftrightarrow> ?b = es"
    using beginning_all [OF beginning_prefix] by metis
  have "cl_omitted cl = 0 \<longleftrightarrow> length ?b = length es" using o by linarith
  then have z: "cl_omitted cl = 0 \<longleftrightarrow> ?b = es" by (simp only: iff)
  have longest: "\<forall>q. prefix q (fitting c es) \<and> int (length q) \<le> dc_max_entries c \<and>
      entries_size q \<le> dc_max_bytes c \<longrightarrow> prefix q ?b" by (intro allI impI beginning_longest; elim conjE)
  show ?thesis unfolding e
    by (intro conjI beginning_prefix beginning_bounds [OF pos, THEN conjunct1] beginning_bounds [OF pos, THEN conjunct2]
        longest o z)
qed

section \<open>Witnesses\<close>

theorem add_keeps_beginning_witness:
  "\<exists>cl::collection. prefix (cl_entries cl) (fitting \<lparr>dc_paths = DefaultPaths, dc_agent_path = [], dc_max_entries = 1, dc_max_bytes = 200\<rparr>
      [empty_entry\<lparr>en_raw := replicate 80 CHR ''x''\<rparr>, empty_entry, empty_entry]) \<and> cl_omitted cl = 2"
proof -
  let ?c = "\<lparr>dc_paths = DefaultPaths, dc_agent_path = [], dc_max_entries = 1, dc_max_bytes = 200\<rparr>"
  let ?es = "[empty_entry\<lparr>en_raw := replicate 80 CHR ''x''\<rparr>, empty_entry, empty_entry]"
  have "limits_ok ?c" by (simp add: limits_ok_def)
  from add_keeps_beginning [OF this refl, of ?es]
  have "prefix (cl_entries (fold (add_entry ?c) ?es new_collection)) (fitting ?c ?es)" by blast
  moreover have "cl_omitted (fold (add_entry ?c) ?es new_collection) = 2"
    by (simp add: add_entry_def entry_size_def entryOverhead_def empty_entry_def new_collection_def Let_def)
  ultimately show ?thesis by blast
qed

end
