(* ===== verification/Discovery_Cron.thy ===== *)
theory Discovery_Cron
  imports Discovery
begin

text \<open>
  \<open>internal/discovery/crontab.go\<close>: the parser of crontab lines and the three readers of crontabs. An
  error of the parser is a value of \<open>cron_error\<close>; the note it becomes is \<open>tx err\<close>, where \<open>tx\<close> stands
  for the format strings. A file system is what \<open>os.ReadFile\<close> and \<open>os.ReadDir\<close> answer.
\<close>

section \<open>Names\<close>

definition name_char :: "char \<Rightarrow> bool" where
  "name_char c \<longleftrightarrow> (of_char c :: nat) \<in> {97..122} \<union> {65..90} \<union> {48..57}"

definition isCronDName :: "string \<Rightarrow> bool" where
  "isCronDName s \<longleftrightarrow> s \<noteq> [] \<and> list_all (\<lambda>c. name_char c \<or> c = CHR ''_'' \<or> c = CHR ''-'') s"

definition isUserName :: "string \<Rightarrow> bool" where
  "isUserName s \<longleftrightarrow> s \<noteq> [] \<and> length s \<le> 32 \<and> hd s \<noteq> CHR ''-'' \<and> hd s \<noteq> CHR ''.'' \<and>
     list_all (\<lambda>c. name_char c \<or> c = CHR ''_'' \<or> c = CHR ''-'' \<or> c = CHR ''.'') s"

section \<open>Schedules\<close>

datatype cron_error =
    BadNickname string | TooFewFields nat | BadStep string string string | EmptyValue string string
  | NotANumber string string | OutOfRange string string int int | NotAUserName string | NoCronCommand

record cron_field =
  fd_name :: string
  fd_min :: int
  fd_max :: int
  fd_names :: "string list"

definition cronNicknames :: "string list" where
  "cronNicknames = [''@reboot'', ''@yearly'', ''@annually'', ''@monthly'', ''@weekly'', ''@daily'',
     ''@midnight'', ''@hourly'']"

definition cronFields :: "cron_field list" where
  "cronFields =
     [\<lparr>fd_name = ''minute'', fd_min = 0, fd_max = 59, fd_names = []\<rparr>,
      \<lparr>fd_name = ''hour'', fd_min = 0, fd_max = 23, fd_names = []\<rparr>,
      \<lparr>fd_name = ''day of month'', fd_min = 1, fd_max = 31, fd_names = []\<rparr>,
      \<lparr>fd_name = ''month'', fd_min = 1, fd_max = 12, fd_names = [''jan'', ''feb'', ''mar'', ''apr'', ''may'',
         ''jun'', ''jul'', ''aug'', ''sep'', ''oct'', ''nov'', ''dec'']\<rparr>,
      \<lparr>fd_name = ''day of week'', fd_min = 0, fd_max = 7,
         fd_names = [''sun'', ''mon'', ''tue'', ''wed'', ''thu'', ''fri'', ''sat'']\<rparr>]"

definition validateValue :: "cron_field \<Rightarrow> string \<Rightarrow> string \<Rightarrow> cron_error option" where
  "validateValue f item v =
     (if v = [] then Some (EmptyValue (fd_name f) item)
      else if ToLower v \<in> set (fd_names f) then None
      else case Atoi v of
        None \<Rightarrow> Some (NotANumber (fd_name f) item)
      | Some n \<Rightarrow> if n < fd_min f \<or> n > fd_max f then Some (OutOfRange (fd_name f) item (fd_min f) (fd_max f)) else None)"

definition step_error :: "cron_field \<Rightarrow> string \<Rightarrow> string option \<Rightarrow> cron_error option" where
  "step_error f item st =
     (case st of None \<Rightarrow> None
      | Some step \<Rightarrow> (case Atoi step of None \<Rightarrow> Some (BadStep (fd_name f) item step)
          | Some n \<Rightarrow> if n < 1 then Some (BadStep (fd_name f) item step) else None))"

definition validateItem :: "cron_field \<Rightarrow> string \<Rightarrow> cron_error option" where
  "validateItem f item =
     (case (case Cut (CHR ''/'') item of None \<Rightarrow> (item, None) | Some (v, st) \<Rightarrow> (v, Some st)) of
        (v, st) \<Rightarrow>
          (case step_error f item st of
             Some e \<Rightarrow> Some e
           | None \<Rightarrow>
               if v = ''*'' then None
               else (case Cut (CHR ''-'') v of
                  None \<Rightarrow> validateValue f item v
                | Some (from, upto_v) \<Rightarrow>
                    (case validateValue f item from of Some e \<Rightarrow> Some e | None \<Rightarrow> validateValue f item upto_v))))"

fun validate_items :: "cron_field \<Rightarrow> string list \<Rightarrow> cron_error option" where
  "validate_items f [] = None"
| "validate_items f (item # items) =
     (case validateItem f item of Some e \<Rightarrow> Some e | None \<Rightarrow> validate_items f items)"

definition validate :: "cron_field \<Rightarrow> string \<Rightarrow> cron_error option" where
  "validate f field = validate_items f (Split (CHR '','') field)"

definition cutField :: "string \<Rightarrow> string \<times> string" where
  "cutField s =
     (let t = TrimLeft is_blank s
      in (takeWhile (\<lambda>c. \<not> is_blank c) t, TrimLeft is_blank (dropWhile (\<lambda>c. \<not> is_blank c) t)))"

text \<open>The loop over the five fields: the number of the field, the fields read, the text left.\<close>

fun schedule_fields :: "cron_field list \<Rightarrow> nat \<Rightarrow> string list \<Rightarrow> string \<Rightarrow> cron_error + (string list \<times> string)" where
  "schedule_fields [] i acc rest = Inr (acc, rest)"
| "schedule_fields (f # fs) i acc rest =
     (case cutField rest of (v, rest') \<Rightarrow>
        if v = [] then Inl (TooFewFields i)
        else (case validate f v of
            Some e \<Rightarrow> Inl e
          | None \<Rightarrow> schedule_fields fs (i + 1) (acc @ [v]) rest'))"

definition cronSchedule :: "string \<Rightarrow> cron_error + (string \<times> string)" where
  "cronSchedule s =
     (if HasPrefix s ''@'' then
        (case cutField s of (nickname, rest) \<Rightarrow>
           if ToLower nickname \<notin> set cronNicknames then Inl (BadNickname nickname) else Inr (nickname, rest))
      else (case schedule_fields cronFields 0 [] s of
              Inl e \<Rightarrow> Inl e | Inr (vs, rest) \<Rightarrow> Inr (Join '' '' vs, rest)))"

section \<open>Commands\<close>

fun cron_command_loop :: "string \<Rightarrow> string \<Rightarrow> string" where
  "cron_command_loop acc [] = TrimRight is_blank acc"
| "cron_command_loop acc [c] = (if c = CHR ''%'' then TrimRight is_blank acc else TrimRight is_blank (acc @ [c]))"
| "cron_command_loop acc (c # d # cs) =
     (if c = CHR 0x5C \<and> d = CHR ''%'' then cron_command_loop (acc @ ''%'') cs
      else if c = CHR ''%'' then TrimRight is_blank acc
      else cron_command_loop (acc @ [c]) (d # cs))"

definition cronCommand :: "string \<Rightarrow> string" where
  "cronCommand s = cron_command_loop [] s"

section \<open>Lines\<close>

datatype crontab_format = SystemFormat | UserFormat

record cron_parser =
  cp_source :: string
  cp_format :: crontab_format
  cp_user :: string
  cp_agent_path :: string
  cp_timezone :: string

definition unquoteCronValue :: "string \<Rightarrow> string" where
  "unquoteCronValue v =
     (if length v \<ge> 2 \<and> is_quote (hd v) \<and> last v = hd v then butlast (tl v) else v)"

definition letter_char :: "char \<Rightarrow> bool" where
  "letter_char c \<longleftrightarrow> c = CHR ''_'' \<or> (of_char c :: nat) \<in> {65..90} \<union> {97..122}"

definition environmentAssignment :: "string \<Rightarrow> (string \<times> string) option" where
  "environmentAssignment s =
     (case Cut (CHR ''='') s of
        None \<Rightarrow> None
      | Some (n, v) \<Rightarrow>
          (let nm = TrimSpace n
           in if nm = [] \<or> list_ex is_blank nm then None
              else if letter_char (hd nm) \<and> list_all (\<lambda>c. letter_char c \<or> is_digit c) (tl nm)
              then Some (nm, unquoteCronValue (TrimSpace v))
              else None))"

definition unparseable :: "(cron_error \<Rightarrow> string) \<Rightarrow> cron_error \<Rightarrow> entry \<Rightarrow> entry" where
  "unparseable tx err e = e\<lparr>en_unparseable := True, en_note := tx err\<rparr>"

definition parse :: "(cron_error \<Rightarrow> string) \<Rightarrow> string \<Rightarrow> cron_parser \<Rightarrow> entry option \<times> cron_parser" where
  "parse tx raw p =
     (let txt0 = TrimSpace raw
      in if txt0 = [] \<or> HasPrefix txt0 ''#'' then (None, p)
      else case environmentAssignment txt0 of
        Some (nm, v) \<Rightarrow> (None, if nm = ''CRON_TZ'' \<or> nm = ''TZ'' then p\<lparr>cp_timezone := v\<rparr> else p)
      | None \<Rightarrow>
          (let e = empty_entry\<lparr>en_source := cp_source p, en_raw := raw, en_kind := KindCron,
                     en_timezone := cp_timezone p, en_user := cp_user p\<rparr>
           in case cronSchedule (TrimPrefix txt0 ''-'') of
                Inl err \<Rightarrow> (Some (unparseable tx err e), p)
              | Inr (schedule, rest) \<Rightarrow>
                  (let e1 = e\<lparr>en_schedule := schedule\<rparr>;
                       (user, rest1) = (if cp_format p = SystemFormat then cutField rest else ([], rest));
                       command = cronCommand rest1
                   in if cp_format p = SystemFormat \<and> \<not> isUserName user
                      then (Some (unparseable tx (NotAUserName user) e1), p)
                      else (let e2 = (if cp_format p = SystemFormat then e1\<lparr>en_user := user\<rparr> else e1)\<lparr>en_command := command\<rparr>
                            in if command = [] then (Some (unparseable tx NoCronCommand e2), p)
                               else (Some (e2\<lparr>en_is_agent := runsAgent command [] (cp_agent_path p)\<rparr>), p)))))"

section \<open>Readers\<close>

record file_view =
  fv_file :: "string \<Rightarrow> read_error + string"
  fv_dir :: "string \<Rightarrow> read_error + (string \<times> bool) list"

definition crontabSourcePrefix :: string where "crontabSourcePrefix = ''crontab:''"

definition line_end :: "char \<Rightarrow> bool" where
  "line_end c \<longleftrightarrow> c = CHR 0x0D \<or> c = CHR 0x0A"

fun read_lines :: "(cron_error \<Rightarrow> string) \<Rightarrow> collector \<Rightarrow> cron_parser \<Rightarrow> string list \<Rightarrow> collection \<Rightarrow> collection" where
  "read_lines tx c p [] cl = cl"
| "read_lines tx c p (line # ls) cl =
     (case parse tx (TrimRight line_end line) p of
        (None, p') \<Rightarrow> read_lines tx c p' ls cl
      | (Some e, p') \<Rightarrow> read_lines tx c p' ls (add_entry c e cl))"

definition readCrontab :: "(cron_error \<Rightarrow> string) \<Rightarrow> file_view \<Rightarrow> collector \<Rightarrow> string \<Rightarrow> string \<Rightarrow> crontab_format \<Rightarrow>
    string \<Rightarrow> collection \<Rightarrow> collection" where
  "readCrontab tx fv c source path fmt user cl =
     (case fv_file fv path of
        Inl err \<Rightarrow> unreadableSource c source err cl
      | Inr data \<Rightarrow> read_lines tx c \<lparr>cp_source = source, cp_format = fmt, cp_user = user,
                     cp_agent_path = dc_agent_path c, cp_timezone = []\<rparr> (Lines data) cl)"

definition readDirectory :: "file_view \<Rightarrow> collector \<Rightarrow> string \<Rightarrow> string \<Rightarrow> collection \<Rightarrow> string list \<times> collection" where
  "readDirectory fv c source dir cl =
     (case fv_dir fv dir of
        Inl err \<Rightarrow> ([], unreadableSource c source err cl)
      | Inr listing \<Rightarrow> (map fst (filter (\<lambda>(_, is_dir). \<not> is_dir) listing), cl))"

definition readSystemCrontab :: "(cron_error \<Rightarrow> string) \<Rightarrow> file_view \<Rightarrow> collector \<Rightarrow> collection \<Rightarrow> collection" where
  "readSystemCrontab tx fv c cl =
     (let path = pt_system_crontab (dc_paths c)
      in if path = [] then cl else readCrontab tx fv c (crontabSourcePrefix @ path) path SystemFormat [] cl)"

fun read_cron_files :: "(cron_error \<Rightarrow> string) \<Rightarrow> file_view \<Rightarrow> collector \<Rightarrow> string \<Rightarrow> string list \<Rightarrow> collection \<Rightarrow> collection" where
  "read_cron_files tx fv c dir [] cl = cl"
| "read_cron_files tx fv c dir (n # ns) cl =
     (if \<not> isCronDName n then read_cron_files tx fv c dir ns cl
      else read_cron_files tx fv c dir ns
             (readCrontab tx fv c (crontabSourcePrefix @ join_path dir n) (join_path dir n) SystemFormat [] cl))"

definition readCronDirectory :: "(cron_error \<Rightarrow> string) \<Rightarrow> file_view \<Rightarrow> collector \<Rightarrow> collection \<Rightarrow> collection" where
  "readCronDirectory tx fv c cl =
     (let dir = pt_cron_dir (dc_paths c)
      in if dir = [] then cl
         else case readDirectory fv c (crontabSourcePrefix @ dir) dir cl of
           (names, cl') \<Rightarrow> read_cron_files tx fv c dir names cl')"

fun read_spool_files :: "(cron_error \<Rightarrow> string) \<Rightarrow> file_view \<Rightarrow> collector \<Rightarrow> string \<Rightarrow> string list \<Rightarrow> collection \<Rightarrow> collection" where
  "read_spool_files tx fv c dir [] cl = cl"
| "read_spool_files tx fv c dir (u # us) cl =
     (if \<not> isUserName u then read_spool_files tx fv c dir us cl
      else read_spool_files tx fv c dir us
             (readCrontab tx fv c (crontabSourcePrefix @ u) (join_path dir u) UserFormat u cl))"

fun read_spools :: "(cron_error \<Rightarrow> string) \<Rightarrow> file_view \<Rightarrow> collector \<Rightarrow> string list \<Rightarrow> collection \<Rightarrow> collection" where
  "read_spools tx fv c [] cl = cl"
| "read_spools tx fv c (dir # dirs) cl =
     (case readDirectory fv c (crontabSourcePrefix @ dir) dir cl of
        (names, cl') \<Rightarrow> read_spools tx fv c dirs (read_spool_files tx fv c dir names cl'))"

definition readUserCrontabs :: "(cron_error \<Rightarrow> string) \<Rightarrow> file_view \<Rightarrow> collector \<Rightarrow> collection \<Rightarrow> collection" where
  "readUserCrontabs tx fv c cl = read_spools tx fv c (pt_spool_dirs (dc_paths c)) cl"

section \<open>The readers keep the invariant\<close>

lemma schedule_fields_nonempty:
  "schedule_fields fs i acc rest = Inr (vs, rest') \<Longrightarrow> set acc \<subseteq> {v. v \<noteq> []} \<Longrightarrow>
   set vs \<subseteq> {v. v \<noteq> []} \<and> length vs = length acc + length fs"
  by (induction fs arbitrary: i acc rest) (force split: prod.splits if_splits option.splits)+

lemma Join_nonempty: "v \<noteq> [] \<Longrightarrow> Join sep (v # vs) \<noteq> []"
  by (cases vs) simp_all

lemma cronSchedule_nonempty:
  assumes "cronSchedule s = Inr (schedule, rest)"
  shows "schedule \<noteq> []"
proof (cases "HasPrefix s ''@''")
  case True
  with assms show ?thesis
    by (auto simp: cronSchedule_def cronNicknames_def Let_def ToLower.simps split: prod.splits if_splits)
next
  case False
  with assms obtain vs where vs: "schedule_fields cronFields 0 [] s = Inr (vs, rest)" "schedule = Join '' '' vs"
    by (auto simp: cronSchedule_def split: sum.splits prod.splits)
  with schedule_fields_nonempty [OF vs(1)] Join_nonempty show ?thesis by (cases vs) (auto simp: cronFields_def)
qed

lemma parse_complete:
  assumes "parse tx raw p = (Some e, p')" and "cp_format p = UserFormat \<longrightarrow> cp_user p \<noteq> []"
  shows "entry_complete e"
proof -
  let ?t = "TrimSpace raw"
  have env: "environmentAssignment ?t = None" using assms(1)
    by (auto simp: parse_def Let_def split: if_splits option.splits)
  show ?thesis
  proof (cases "cronSchedule (TrimPrefix ?t ''-'')")
    case (Inl err)
    with assms(1) env show ?thesis by (auto simp: parse_def Let_def entry_complete_def unparseable_def split: if_splits)
  next
    case (Inr sr)
    then obtain schedule rest where s: "cronSchedule (TrimPrefix ?t ''-'') = Inr (schedule, rest)" by (cases sr) auto
    show ?thesis
    proof (cases "cp_format p")
      case SystemFormat
      obtain user rest1 where c: "cutField rest = (user, rest1)" by (rule prod.exhaust)
      from assms(1) env s c SystemFormat cronSchedule_nonempty [OF s] show ?thesis
        by (auto simp: parse_def Let_def entry_complete_def unparseable_def empty_entry_def isUserName_def split: if_splits)
    next
      case UserFormat
      with assms env s cronSchedule_nonempty [OF s] show ?thesis
        by (auto simp: parse_def Let_def entry_complete_def unparseable_def empty_entry_def split: if_splits)
    qed
  qed
qed

lemma parse_keeps: "parse tx raw p = (r, p') \<Longrightarrow> cp_format p' = cp_format p \<and> cp_user p' = cp_user p"
  by (auto simp: parse_def Let_def split: if_splits option.splits sum.splits prod.splits)

lemma read_lines_inv:
  "collection_inv c cl \<Longrightarrow> cp_format p = UserFormat \<longrightarrow> cp_user p \<noteq> [] \<Longrightarrow> collection_inv c (read_lines tx c p ls cl)"
proof (induction ls arbitrary: p cl)
  case (Cons line ls)
  obtain r p' where r: "parse tx (TrimRight line_end line) p = (r, p')" by (rule prod.exhaust)
  have p': "cp_format p' = UserFormat \<longrightarrow> cp_user p' \<noteq> []" using parse_keeps [OF r] Cons.prems(2) by simp
  show ?case
  proof (cases r)
    case None
    with r Cons.IH [OF Cons.prems(1) p'] show ?thesis by simp
  next
    case (Some e)
    have "entry_complete e" by (rule parse_complete [OF r [unfolded Some] Cons.prems(2)])
    with Some r Cons.IH [OF add_entry_inv [OF Cons.prems(1)] p'] show ?thesis by simp
  qed
qed simp

lemma readCrontab_inv:
  "collection_inv c cl \<Longrightarrow> fmt = UserFormat \<longrightarrow> u \<noteq> [] \<Longrightarrow> collection_inv c (readCrontab tx fv c s path fmt u cl)"
  by (cases "fv_file fv path") (simp_all add: readCrontab_def read_lines_inv unreadableSource_inv)

lemma readDirectory_inv [collects]: "collection_inv c cl \<Longrightarrow> collection_inv c (snd (readDirectory fv c s dir cl))"
  by (auto simp: readDirectory_def split: sum.split simp: collects)

lemma readSystemCrontab_inv [collects]: "collection_inv c cl \<Longrightarrow> collection_inv c (readSystemCrontab tx fv c cl)"
  by (simp add: readSystemCrontab_def Let_def readCrontab_inv)

lemma read_cron_files_inv [collects]: "collection_inv c cl \<Longrightarrow> collection_inv c (read_cron_files tx fv c dir ns cl)"
  by (induction tx fv c dir ns cl rule: read_cron_files.induct) (simp_all add: readCrontab_inv)

lemma read_spool_files_inv [collects]: "collection_inv c cl \<Longrightarrow> collection_inv c (read_spool_files tx fv c dir ns cl)"
  by (induction tx fv c dir ns cl rule: read_spool_files.induct) (simp_all add: readCrontab_inv isUserName_def)

lemma readCronDirectory_inv [collects]: "collection_inv c cl \<Longrightarrow> collection_inv c (readCronDirectory tx fv c cl)"
proof -
  assume i: "collection_inv c cl"
  let ?dir = "pt_cron_dir (dc_paths c)"
  obtain names cl' where r: "readDirectory fv c (crontabSourcePrefix @ ?dir) ?dir cl = (names, cl')" by (rule prod.exhaust)
  with readDirectory_inv [OF i, of fv "crontabSourcePrefix @ ?dir" ?dir] have "collection_inv c cl'" by simp
  with i r show ?thesis by (simp add: readCronDirectory_def Let_def collects)
qed

lemma readUserCrontabs_inv [collects]: "collection_inv c cl \<Longrightarrow> collection_inv c (readUserCrontabs tx fv c cl)"
proof -
  have "collection_inv c cl \<Longrightarrow> collection_inv c (read_spools tx fv c dirs cl)" for dirs
  proof (induction dirs arbitrary: cl)
    case (Cons dir dirs)
    obtain names cl' where r: "readDirectory fv c (crontabSourcePrefix @ dir) dir cl = (names, cl')" by (rule prod.exhaust)
    with readDirectory_inv [OF Cons.prems, of fv "crontabSourcePrefix @ dir" dir] have "collection_inv c cl'" by simp
    with r Cons.IH show ?case by (simp add: collects)
  qed simp
  then show "collection_inv c cl \<Longrightarrow> ?thesis" by (simp add: readUserCrontabs_def)
qed

end
