(* ===== verification/Discovery_Lines.thy ===== *)
theory Discovery_Lines
  imports Discovery_Cron
begin

text \<open>
  What the crontab parser makes of a line: which lines describe no entry, what a parseable entry
  guarantees, and that a line written from valid fields, a user and a command is read back as just
  these.
\<close>

section \<open>Characters of a valid field\<close>

definition plain :: "char \<Rightarrow> bool" where
  "plain c \<longleftrightarrow> \<not> is_blank c \<and> c \<noteq> CHR ''=''"

lemma plain_low: "\<not> plain c \<Longrightarrow> (of_char c :: nat) < 65"
  by (auto simp: plain_def is_blank_def)

lemma ToLower_keeps: "c \<in> set v \<Longrightarrow> (of_char c :: nat) < 65 \<Longrightarrow> c \<in> set (ToLower v)"
proof (induction v rule: ToLower.induct)
  case (1 v)
  obtain d ds where v: "v = d # ds" using 1(4) by (cases v) auto
  consider (i) "take 2 v = [CHR 0xC4, CHR 0xB0]" | (k) "take 2 v \<noteq> [CHR 0xC4, CHR 0xB0]" "take 3 v = [CHR 0xE2, CHR 0x84, CHR 0xAA]"
    | (other) "take 2 v \<noteq> [CHR 0xC4, CHR 0xB0]" "take 3 v \<noteq> [CHR 0xE2, CHR 0x84, CHR 0xAA]" by blast
  then show ?case
  proof cases
    case i
    then have "v = [CHR 0xC4, CHR 0xB0] @ drop 2 v" by (metis append_take_drop_id)
    then have "c \<in> set [CHR 0xC4, CHR 0xB0] \<union> set (drop 2 v)" using 1(4) by (metis set_append)
    then have "c \<in> set (drop 2 v)" using 1(5) by auto
    from 1(1) [OF v i this 1(5)] have "c \<in> set (ToLower (drop 2 v))" .
    moreover have "ToLower v = CHR ''i'' # ToLower (drop 2 v)" using i v by (subst ToLower.simps) simp
    ultimately show ?thesis by simp
  next
    case k
    then have "v = [CHR 0xE2, CHR 0x84, CHR 0xAA] @ drop 3 v" by (metis append_take_drop_id)
    then have "c \<in> set [CHR 0xE2, CHR 0x84, CHR 0xAA] \<union> set (drop 3 v)" using 1(4) by (metis set_append)
    then have "c \<in> set (drop 3 v)" using 1(5) by auto
    from 1(2) [OF v k this 1(5)] have "c \<in> set (ToLower (drop 3 v))" .
    moreover have "ToLower v = CHR ''k'' # ToLower (drop 3 v)" using k v by (subst ToLower.simps) simp
    ultimately show ?thesis by simp
  next
    case other
    have lv: "ToLower v = lower_char d # ToLower ds" using other v by (subst ToLower.simps) auto
    show ?thesis
    proof (cases "c = d")
      case True
      with 1(5) lv show ?thesis by (simp add: lower_char_def)
    next
      case False
      then have "c \<in> set ds" using 1(4) v by simp
      from 1(3) [OF v other this 1(5)] lv show ?thesis by simp
    qed
  qed
qed

lemma Atoi_chars: "Atoi s = Some n \<Longrightarrow> s \<noteq> [] \<and> (\<forall>c\<in>set s. is_digit c \<or> c = CHR ''-'' \<or> c = CHR ''+'')"
  by (cases s) (auto simp: ParseInt_def parse_digits_def Let_def list_all_iff split: if_splits option.splits)

lemma digit_plain: "is_digit c \<Longrightarrow> plain c"
  by (auto simp: is_digit_def plain_def is_blank_def)

lemma Atoi_plain: "Atoi s = Some n \<Longrightarrow> s \<noteq> [] \<and> (\<forall>c\<in>set s. plain c)"
proof -
  assume "Atoi s = Some n"
  then have ne: "s \<noteq> []" and cs: "\<forall>c\<in>set s. is_digit c \<or> c = CHR ''-'' \<or> c = CHR ''+''" using Atoi_chars by blast+
  have "plain (CHR ''-'')" and "plain (CHR ''+'')" by (simp_all add: plain_def is_blank_def)
  with cs digit_plain have "\<forall>c\<in>set s. plain c" by blast
  with ne show ?thesis by blast
qed

lemma names_high: "f \<in> set cronFields \<Longrightarrow> nm \<in> set (fd_names f) \<Longrightarrow> \<forall>c\<in>set nm. (97::nat) \<le> of_char c"
  by (auto simp: cronFields_def)

lemma validateValue_plain:
  assumes "validateValue f item v = None" and "f \<in> set cronFields"
  shows "v \<noteq> [] \<and> (\<forall>c\<in>set v. plain c)"
proof -
  have ne: "v \<noteq> []" using assms(1) by (auto simp: validateValue_def)
  consider (name) "ToLower v \<in> set (fd_names f)" | (num) n where "Atoi v = Some n"
    using assms(1) by (auto simp: validateValue_def split: if_splits option.splits)
  then show ?thesis
  proof cases
    case name
    have "plain c" if "c \<in> set v" for c
    proof (rule ccontr)
      assume "\<not> plain c"
      then have low: "(of_char c :: nat) < 65" by (rule plain_low)
      from ToLower_keeps [OF that this] names_high [OF assms(2) name] low show False by fastforce
    qed
    with ne show ?thesis by blast
  next
    case num
    from Atoi_plain [OF num] show ?thesis .
  qed
qed

lemma step_plain: "step_error f item (Some st) = None \<Longrightarrow> \<forall>c\<in>set st. plain c"
proof -
  assume "step_error f item (Some st) = None"
  then obtain n where "Atoi st = Some n" by (auto simp: step_error_def split: option.splits)
  from Atoi_plain [OF this] show ?thesis by blast
qed

text \<open>The parts of a valid item: a value or a range, perhaps with a step.\<close>

definition value_ok :: "cron_field \<Rightarrow> string \<Rightarrow> string \<Rightarrow> bool" where
  "value_ok f item v \<longleftrightarrow> v = ''*'' \<or>
     (case Cut (CHR ''-'') v of None \<Rightarrow> validateValue f item v = None
      | Some (x, y) \<Rightarrow> validateValue f item x = None \<and> validateValue f item y = None)"

lemma validateItem_parts:
  assumes "validateItem f item = None"
  obtains v where "item = v" and "value_ok f item v"
  | v st where "item = v @ CHR ''/'' # st" and "step_error f item (Some st) = None" and "value_ok f item v"
proof (cases "Cut (CHR ''/'') item")
  case None
  with assms have "value_ok f item item"
    by (auto simp: validateItem_def step_error_def value_ok_def split: if_splits option.splits)
  with that(1) show thesis by simp
next
  case (Some vs)
  then obtain v st where c: "Cut (CHR ''/'') item = Some (v, st)" by (cases vs) auto
  with assms have "step_error f item (Some st) = None" and "value_ok f item v"
    by (auto simp: validateItem_def value_ok_def split: if_splits option.splits)
  with that(2) Cut_SomeD [OF c] show thesis by simp
qed

lemma value_ok_plain:
  assumes "value_ok f item v" and "f \<in> set cronFields"
  shows "v \<noteq> [] \<and> (\<forall>c\<in>set v. plain c)"
proof (cases "v = ''*''")
  case True
  then show ?thesis by (simp add: plain_def is_blank_def)
next
  case False
  show ?thesis
  proof (cases "Cut (CHR ''-'') v")
    case None
    with assms(1) False have "validateValue f item v = None" by (simp add: value_ok_def)
    from validateValue_plain [OF this assms(2)] show ?thesis .
  next
    case (Some xy)
    then obtain x y where c: "Cut (CHR ''-'') v = Some (x, y)" by (cases xy) auto
    with assms(1) False have "validateValue f item x = None" "validateValue f item y = None"
      by (auto simp: value_ok_def)
    with validateValue_plain [OF _ assms(2)] Cut_SomeD [OF c] show ?thesis
      by (auto simp del: plain_def) (simp add: plain_def is_blank_def)
  qed
qed

lemma validateItem_plain:
  assumes "validateItem f item = None" and "f \<in> set cronFields"
  shows "item \<noteq> [] \<and> (\<forall>c\<in>set item. plain c)"
  using assms(1)
proof (cases rule: validateItem_parts)
  case (1 v)
  with value_ok_plain [OF _ assms(2)] show ?thesis by blast
next
  case (2 v st)
  have "plain (CHR ''/'')" by (simp add: plain_def is_blank_def)
  moreover have "set item = set v \<union> {CHR ''/''} \<union> set st" and "item \<noteq> []" using 2(1) by auto
  ultimately show ?thesis using step_plain [OF 2(2)] value_ok_plain [OF 2(3) assms(2)] by blast
qed

lemma Split_chars: "c \<in> set s \<Longrightarrow> c = x \<or> (\<exists>p\<in>set (Split x s). c \<in> set p)"
  by (induction x s rule: Split.induct) (auto split: list.splits if_splits)

lemma validate_items_None: "validate_items f items = None \<longleftrightarrow> (\<forall>item\<in>set items. validateItem f item = None)"
  by (induction items) (auto split: option.split)

lemma validate_plain:
  assumes "validate f v = None" and "f \<in> set cronFields"
  shows "v \<noteq> [] \<and> (\<forall>c\<in>set v. plain c)"
proof -
  have items: "\<And>item. item \<in> set (Split (CHR '','') v) \<Longrightarrow> item \<noteq> [] \<and> (\<forall>c\<in>set item. plain c)"
    by (rule validateItem_plain [OF _ assms(2)]) (use assms(1) in \<open>simp add: validate_def validate_items_None\<close>)
  have "v \<noteq> []" using items [of "[]"] by (cases v) auto
  moreover have "plain c" if "c \<in> set v" for c
    using Split_chars [OF that, of "CHR '',''"] items by (auto simp: plain_def is_blank_def)
  ultimately show ?thesis by blast
qed

text \<open>How a field that has no names may begin.\<close>

definition starts_number :: "char \<Rightarrow> bool" where
  "starts_number c \<longleftrightarrow> is_digit c \<or> c = CHR ''*'' \<or> c = CHR ''+''"

lemma value_ok_hd:
  assumes "value_ok f item v" and "fd_names f = []"
  shows "v \<noteq> [] \<and> starts_number (hd v)"
proof -
  have val: "a \<noteq> [] \<and> starts_number (hd a)" if "validateValue f item a = None" and m: "CHR ''-'' \<notin> set a" for a
  proof -
    have "Atoi a \<noteq> None" using that(1) assms(2) by (cases "Atoi a") (auto simp: validateValue_def split: if_splits)
    then obtain n where "Atoi a = Some n" by blast
    then have "a \<noteq> []" and "\<forall>c\<in>set a. is_digit c \<or> c = CHR ''-'' \<or> c = CHR ''+''" using Atoi_chars by blast+
    with m show ?thesis by (cases a) (auto simp: starts_number_def)
  qed
  show ?thesis
  proof (cases "v = ''*''")
    case True
    then show ?thesis by (simp add: starts_number_def)
  next
    case False
    show ?thesis
    proof (cases "Cut (CHR ''-'') v")
      case None
      then have "CHR ''-'' \<notin> set v" by (auto simp: Cut_def split: if_splits)
      with None assms(1) False val show ?thesis by (simp add: value_ok_def)
    next
      case (Some xy)
      then obtain x y where c: "Cut (CHR ''-'') v = Some (x, y)" by (cases xy) auto
      with assms(1) False have "validateValue f item x = None" by (auto simp: value_ok_def)
      with val Cut_SomeD [OF c] show ?thesis by simp
    qed
  qed
qed

lemma validateItem_hd:
  assumes "validateItem f item = None" and "fd_names f = []"
  shows "item \<noteq> [] \<and> starts_number (hd item)"
  using assms(1)
proof (cases rule: validateItem_parts)
  case (1 v)
  with value_ok_hd [OF 1(2) assms(2)] show ?thesis by simp
next
  case (2 v st)
  with value_ok_hd [OF 2(3) assms(2)] show ?thesis by simp
qed

lemma validate_hd:
  assumes "validate f v = None" and "fd_names f = []"
  shows "v \<noteq> [] \<and> starts_number (hd v)"
proof -
  obtain item items where s: "Split (CHR '','') v = item # items" by (cases "Split (CHR '','') v") auto
  then have "validateItem f item = None" using assms(1) by (simp add: validate_def validate_items_None del: validate_items.simps)
  then have h: "item \<noteq> [] \<and> starts_number (hd item)" by (rule validateItem_hd [OF _ assms(2)])
  have "item \<noteq> [] \<Longrightarrow> v \<noteq> [] \<and> hd v = hd item"
    using s by (cases v) (auto split: if_splits list.splits)
  with h show ?thesis by simp
qed

lemma starts_graphic: "starts_number c \<Longrightarrow> graphic c"
  by (auto simp: starts_number_def graphic_def is_digit_def)

section \<open>Stripping stops at a graphic character\<close>

lemma space_ungraphic: "e \<in> set space_encodings \<Longrightarrow> c \<in> set e \<Longrightarrow> \<not> graphic c"
  by (auto simp: space_encodings_def graphic_def)

lemma strip_rev_stops: "graphic h \<Longrightarrow> \<exists>x'. strip (map rev space_encodings) (x @ h # y) = x' @ h # y"
proof (induction "length x" arbitrary: x rule: less_induct)
  case less
  show ?case
  proof (cases "front_of (map rev space_encodings) (x @ h # y)")
    case None
    then show ?thesis by (simp add: strip_none)
  next
    case (Some e)
    then have e: "e \<noteq> []" "e \<in> set (map rev space_encodings)" "x @ h # y = e @ drop (length e) (x @ h # y)"
      using front_of_SomeD by blast+
    have "length e \<le> length x"
    proof (rule ccontr)
      assume "\<not> length e \<le> length x"
      then have "(x @ h # y) ! length x = e ! length x" by (subst e(3)) (simp add: nth_append)
      then have "h \<in> set e" using \<open>\<not> length e \<le> length x\<close> by (simp add: in_set_conv_nth) (metis not_le)
      with e(2) less.prems space_ungraphic show False by auto
    qed
    then have d: "drop (length e) (x @ h # y) = drop (length e) x @ h # y" by simp
    have "length (drop (length e) x) < length x"
      using e(1) \<open>length e \<le> length x\<close> by (cases e) auto
    from less.hyps [OF this less.prems] obtain x' where
      "strip (map rev space_encodings) (drop (length e) x @ h # y) = x' @ h # y" by blast
    with Some d show ?thesis by (subst strip.simps) simp
  qed
qed

lemma TrimSpace_keeps:
  assumes "graphic g" and "graphic h"
  shows "\<exists>t. TrimSpace (g # m @ h # r) = g # m @ h # t"
proof -
  have "strip space_encodings (g # m @ h # r) = g # m @ h # r"
    by (rule strip_none) (rule front_of_graphic [OF assms(1)])
  moreover obtain x' where "strip (map rev space_encodings) (rev r @ h # rev m @ [g]) = x' @ h # rev m @ [g]"
    using strip_rev_stops [OF assms(2)] by blast
  ultimately have "TrimSpace (g # m @ h # r) = g # m @ h # rev x'" by (simp add: TrimSpace_def)
  then show ?thesis by blast
qed

section \<open>Reading the fields of a line\<close>

lemma plain_unblank: "\<forall>c\<in>set v. plain c \<Longrightarrow> list_all (\<lambda>c. \<not> is_blank c) v"
  by (auto simp: plain_def list_all_iff)

lemma cutField_reads:
  assumes "v \<noteq> []" and "list_all (\<lambda>c. \<not> is_blank c) v" and "w \<noteq> []" and "list_all is_blank w"
    and "rest = [] \<or> \<not> is_blank (hd rest)"
  shows "cutField (v @ w @ rest) = (v, rest)"
proof -
  obtain c cs where v: "v = c # cs" using assms(1) by (cases v) auto
  obtain d ds where w: "w = d # ds" using assms(3) by (cases w) auto
  have t: "TrimLeft is_blank (v @ w @ rest) = v @ w @ rest" using assms(2) v by simp
  have vs: "\<And>x. x \<in> set v \<Longrightarrow> \<not> is_blank x" using assms(2) by (simp add: list_all_iff)
  have d: "is_blank d" using assms(4) w by simp
  have "takeWhile (\<lambda>c. \<not> is_blank c) (v @ w @ rest) = v" "dropWhile (\<lambda>c. \<not> is_blank c) (v @ w @ rest) = w @ rest"
    using vs d w by (simp_all add: takeWhile_append2 dropWhile_append2)
  moreover have "TrimLeft is_blank (w @ rest) = rest"
    using assms(4,5) TrimLeft_append [of is_blank w "[]"] by (cases rest) (simp_all add: TrimLeft_append)
  ultimately show ?thesis by (simp add: cutField_def t Let_def)
qed

definition spaced :: "(string \<times> string) list \<Rightarrow> string" where
  "spaced vws = concat (map (\<lambda>(v, w). v @ w) vws)"

lemma spaced_simps [simp]: "spaced [] = []" "spaced ((v, w) # vws) = v @ w @ spaced vws"
  by (simp_all add: spaced_def)

text \<open>A field with its separator.\<close>

definition field_ok :: "cron_field \<Rightarrow> string \<times> string \<Rightarrow> bool" where
  "field_ok f vw \<longleftrightarrow> validate f (fst vw) = None \<and> snd vw \<noteq> [] \<and> list_all is_blank (snd vw)"

lemma spaced_start:
  assumes "list_all2 field_ok fs vws" and "set fs \<subseteq> set cronFields" and "rest \<noteq> []" and "\<not> is_blank (hd rest)"
  shows "spaced vws @ rest \<noteq> [] \<and> \<not> is_blank (hd (spaced vws @ rest))"
proof (cases vws)
  case (Cons vw vws')
  then obtain f fs' where "fs = f # fs'" and "field_ok f vw" using assms(1) by (cases fs) auto
  then have "fst vw \<noteq> [] \<and> (\<forall>c\<in>set (fst vw). plain c)"
    using assms(2) validate_plain by (auto simp: field_ok_def)
  with Cons show ?thesis by (cases vw; cases "fst vw") (auto simp: plain_def)
qed (use assms in simp)

lemma schedule_fields_reads:
  "list_all2 field_ok fs vws \<Longrightarrow> set fs \<subseteq> set cronFields \<Longrightarrow> rest \<noteq> [] \<Longrightarrow> \<not> is_blank (hd rest) \<Longrightarrow>
   schedule_fields fs i acc (spaced vws @ rest) = Inr (acc @ map fst vws, rest)"
proof (induction fs arbitrary: vws i acc)
  case (Cons f fs)
  then obtain v w vws' where vws: "vws = (v, w) # vws'" and ok: "field_ok f (v, w)" and rec: "list_all2 field_ok fs vws'"
    by (cases vws) auto
  have f: "f \<in> set cronFields" "set fs \<subseteq> set cronFields" using Cons.prems(2) by simp_all
  have "validate f v = None" using ok by (simp add: field_ok_def)
  then have v: "v \<noteq> []" "\<forall>c\<in>set v. plain c" using validate_plain [OF _ f(1)] by blast+
  have "cutField (v @ w @ (spaced vws' @ rest)) = (v, spaced vws' @ rest)"
    using spaced_start [OF rec f(2) Cons.prems(3,4)] ok
    by (intro cutField_reads [OF v(1) plain_unblank [OF v(2)]]) (simp_all add: field_ok_def)
  with Cons.IH [OF rec f(2) Cons.prems(3,4)] v(1) ok show ?case by (simp add: vws field_ok_def)
qed simp

lemma cronSchedule_reads:
  assumes "list_all2 field_ok cronFields vws" and "rest \<noteq> []" and "\<not> is_blank (hd rest)"
    and "\<not> HasPrefix (spaced vws @ rest) ''@''"
  shows "cronSchedule (spaced vws @ rest) = Inr (Join '' '' (map fst vws), rest)"
  using schedule_fields_reads [OF assms(1) order_refl assms(2,3), of 0 "[]"] assms(4)
  by (simp add: cronSchedule_def)

section \<open>Commands\<close>

text \<open>A command with its percent signs escaped, as a crontab has to write it.\<close>

fun escape_percent :: "string \<Rightarrow> string" where
  "escape_percent [] = []"
| "escape_percent (c # cs) = (if c = CHR ''%'' then [CHR 0x5C, CHR ''%''] else [c]) @ escape_percent cs"

lemma escape_percent_start: "escape_percent s = d # ds \<Longrightarrow> d \<noteq> CHR ''%''"
  by (cases s) (auto split: if_splits)

lemma escape_percent_Nil [simp]: "escape_percent s = [] \<longleftrightarrow> s = []"
  by (cases s) auto

lemma last_escape_percent: "s \<noteq> [] \<Longrightarrow> last (escape_percent s) = last s"
  by (induction s) auto

lemma cron_command_escaped: "cron_command_loop acc (escape_percent s) = TrimRight is_blank (acc @ s)"
proof (induction s arbitrary: acc)
  case (Cons c cs)
  show ?case
  proof (cases "c = CHR ''%''")
    case True
    with Cons.IH [of "acc @ [c]"] show ?thesis by simp
  next
    case False
    with Cons.IH [of "acc @ [c]"] escape_percent_start [of cs] show ?thesis
      by (cases "escape_percent cs") auto
  qed
qed simp

lemma cron_command_stdin:
  "s = [] \<or> last s \<noteq> CHR 0x5C \<Longrightarrow>
   cron_command_loop acc (escape_percent s @ CHR ''%'' # input) = TrimRight is_blank (acc @ s)"
proof (induction s arbitrary: acc)
  case Nil
  show ?case by (cases input) simp_all
next
  case (Cons c cs)
  show ?case
  proof (cases "c = CHR ''%''")
    case True
    with Cons.IH [of "acc @ [c]"] Cons.prems show ?thesis by (cases cs) auto
  next
    case False
    show ?thesis
    proof (cases "escape_percent cs")
      case Nil
      then have "cs = []" by (cases cs) (auto split: if_splits)
      with False Cons.prems show ?thesis by (cases input) auto
    next
      case (Cons d ds)
      then have "cs \<noteq> []" by auto
      with Cons.IH [of "acc @ [c]"] Cons.prems Cons False escape_percent_start [OF Cons] show ?thesis by auto
    qed
  qed
qed

section \<open>Lines\<close>

lemma HasPrefix_hd: "HasPrefix s [c] \<longleftrightarrow> s \<noteq> [] \<and> hd s = c"
  by (cases s) (auto simp: HasPrefix_def)

text \<open>A line with two number fields in front is no assignment.\<close>

lemma no_assignment:
  assumes "starts_number g" and "starts_number h" and "\<exists>b\<in>set m. is_blank b"
    and "CHR ''='' \<notin> set (g # m @ [h])"
  shows "environmentAssignment (g # m @ h # r) = None"
proof (cases "Cut (CHR ''='') (g # m @ h # r)")
  case None
  then show ?thesis by (simp add: environmentAssignment_def)
next
  case (Some nv)
  then obtain n v where c: "Cut (CHR ''='') (g # m @ h # r) = Some (n, v)" by (cases nv) auto
  then have eq: "g # m @ h # r = n @ CHR ''='' # v" using Cut_SomeD by blast
  have "n = takeWhile (\<lambda>x. x \<noteq> CHR ''='') ((g # m @ [h]) @ r)"
    using c by (simp add: Cut_def split: if_splits)
  also have "\<dots> = (g # m @ [h]) @ takeWhile (\<lambda>x. x \<noteq> CHR ''='') r"
    using assms(4) by (intro takeWhile_append2) auto
  finally have n: "n = g # m @ h # takeWhile (\<lambda>x. x \<noteq> CHR ''='') r" by simp
  obtain t where "TrimSpace n = g # m @ h # t"
    using TrimSpace_keeps [OF starts_graphic [OF assms(1)] starts_graphic [OF assms(2)]] n by blast
  then have "list_ex is_blank (TrimSpace n)" using assms(3) by (auto simp: list_ex_iff)
  with c show ?thesis by (simp add: environmentAssignment_def Let_def)
qed

lemma five_fields:
  assumes "list_all2 field_ok cronFields vws"
  obtains g m h r where "spaced vws @ rest = g # m @ h # r" and "starts_number g" and "starts_number h"
    and "\<exists>b\<in>set m. is_blank b" and "CHR ''='' \<notin> set (g # m @ [h])"
proof -
  obtain v1 w1 v2 w2 vws' where vws: "vws = (v1, w1) # (v2, w2) # vws'"
    and ok: "field_ok (cronFields ! 0) (v1, w1)" "field_ok (cronFields ! 1) (v2, w2)"
    using assms by (auto simp: cronFields_def list_all2_Cons1)
  have f: "fd_names (cronFields ! 0) = []" "fd_names (cronFields ! 1) = []"
    "cronFields ! 0 \<in> set cronFields" by (simp_all add: cronFields_def)
  have v1: "validate (cronFields ! 0) v1 = None" and v2: "validate (cronFields ! 1) v2 = None"
    and w1: "w1 \<noteq> []" "list_all is_blank w1" using ok by (simp_all add: field_ok_def)
  obtain g m1 where g: "v1 = g # m1" "starts_number g" using validate_hd [OF v1 f(1)] by (cases v1) auto
  obtain h m2 where h: "v2 = h # m2" "starts_number h" using validate_hd [OF v2 f(2)] by (cases v2) auto
  have pl: "\<forall>c\<in>set v1. plain c" using validate_plain [OF v1 f(3)] by blast
  have "\<not> is_blank (CHR ''='')" by (simp add: is_blank_def)
  then have "CHR ''='' \<notin> set w1" using w1(2) unfolding list_all_iff by blast
  moreover have "g \<noteq> CHR ''=''" "h \<noteq> CHR ''=''" using g(2) h(2) by (auto simp: starts_number_def is_digit_def)
  moreover have "CHR ''='' \<notin> set m1" using pl g(1) by (auto simp: plain_def)
  ultimately have "CHR ''='' \<notin> set (g # (m1 @ w1) @ [h])" by simp
  moreover have "hd w1 \<in> set (m1 @ w1)" and "is_blank (hd w1)" using w1 by (cases w1; simp)+
  ultimately show thesis
    using that [of g "m1 @ w1" h "m2 @ w2 @ spaced vws' @ rest"] vws g h by (simp del: set_append) blast
qed

section \<open>Properties\<close>

text \<open>C25: What cron runs is what is reported. A line of a system crontab written from five valid fields, a
  user and a command, separated by any blanks, is read back as exactly these: the fields joined by
  single spaces, the user, and the command cron would run, with the timezone set above the line; the
  raw line is kept. And the command cron would run undoes the escaping of percent signs: it is the
  command that was written, up to blanks at its end, and input after a bare percent sign is left out.\<close>

theorem parse_reads_line:
  assumes "list_all2 field_ok cronFields vws" and "isUserName user" and "ws \<noteq> []" and "list_all is_blank ws"
    and "cmd \<noteq> []" and "\<not> is_blank (hd cmd)" and "hd cmd \<noteq> CHR ''%''" and "graphic (last cmd)" and "last cmd \<noteq> CHR 0x5C"
    and "cp_format p = SystemFormat" and "input = [] \<or> hd input = CHR ''%'' \<and> graphic (last input)"
  shows "parse tx (spaced vws @ user @ ws @ escape_percent cmd @ input) p =
    (Some \<lparr>en_source = cp_source p, en_raw = spaced vws @ user @ ws @ escape_percent cmd @ input,
       en_schedule = Join '' '' (map fst vws), en_kind = KindCron, en_timezone = cp_timezone p,
       en_command = cmd, en_user = user, en_unit = [], en_is_agent = runsAgent cmd [] (cp_agent_path p),
       en_unparseable = False, en_note = []\<rparr>, p)"
proof -
  let ?cmd = "escape_percent cmd @ input"
  let ?rest = "user @ ws @ ?cmd"
  let ?raw = "spaced vws @ ?rest"
  obtain c cs where cmd: "cmd = c # cs" using assms(5) by (cases cmd) auto
  have start: "?cmd \<noteq> [] \<and> \<not> is_blank (hd ?cmd)" using cmd assms(6,7) by simp
  have user: "user \<noteq> []" "list_all (\<lambda>c. \<not> is_blank c) user"
    using assms(2) by (auto simp: isUserName_def list_all_iff is_blank_def name_char_def)
  have rest: "?rest \<noteq> []" "\<not> is_blank (hd ?rest)" using user by (cases user; simp)+
  have lst: "graphic (last ?raw)"
    using last_escape_percent [OF assms(5)] assms(5,8,11) by (auto simp: last_append)
  obtain g m h r where raw: "?raw = g # m @ h # r" "starts_number g" "starts_number h" "\<exists>b\<in>set m. is_blank b"
    "CHR ''='' \<notin> set (g # m @ [h])" using five_fields [OF assms(1)] by blast
  have trim: "TrimSpace ?raw = ?raw"
    using raw(1) starts_graphic [OF raw(2)] lst by (intro TrimSpace_graphic) simp_all
  have hd: "?raw \<noteq> []" "hd ?raw = g" using raw(1) by simp_all
  have pre: "\<not> HasPrefix ?raw ''#''" "\<not> HasPrefix ?raw ''@''" "\<not> HasPrefix ?raw ''-''"
    using hd raw(2) by (auto simp: HasPrefix_hd starts_number_def is_digit_def)
  have env: "environmentAssignment ?raw = None" unfolding raw(1) by (rule no_assignment [OF raw(2-5)])
  have sched: "cronSchedule ?raw = Inr (Join '' '' (map fst vws), ?rest)"
    by (rule cronSchedule_reads [OF assms(1) rest pre(2)])
  have cut: "cutField ?rest = (user, ?cmd)"
    using start by (intro cutField_reads [OF user assms(3,4)]) simp
  have "TrimRight is_blank cmd = cmd"
    using assms(8) by (intro TrimRight_idem) (auto simp: is_blank_def graphic_def)
  then have "cronCommand ?cmd = cmd"
    using cron_command_escaped [of "[]" cmd] cron_command_stdin [of cmd "[]" "tl input"] assms(9,11)
    by (cases input) (auto simp: cronCommand_def)
  with assms(2,5,10) trim hd(1) pre env sched cut show ?thesis
    by (simp add: parse_def Let_def TrimPrefix_def empty_entry_def)
qed

section \<open>Witnesses\<close>

definition sample_fields :: "(string \<times> string) list" where
  "sample_fields = [(''*/5'', '' ''), (''0-3'', ''  ''), (''*'', '' ''), (''jan,Feb'', '' ''), (''7'', '' '')]"

definition sample_parser :: cron_parser where
  "sample_parser = \<lparr>cp_source = ''crontab:/etc/crontab'', cp_format = SystemFormat, cp_user = [],
     cp_agent_path = [], cp_timezone = ''UTC''\<rparr>"

lemma char_of_f: "char_of (102::nat) = CHR ''f''"
  by code_simp

lemma sample_fields_ok: "list_all2 field_ok cronFields sample_fields"
  by (simp add: cronFields_def sample_fields_def field_ok_def validate_def validateItem_def validateValue_def
      step_error_def Cut_def ToLower.simps lower_char_def ParseInt_def parse_digits_def is_digit_def digits_value_def
      digit_value_def in64_def is_blank_def Let_def char_of_f)

theorem parse_reads_line_witness:
  "\<exists>e. parse (\<lambda>_. []) (spaced sample_fields @ ''root'' @ '' '' @ ''echo 50'' @ [CHR 0x5C] @ ''% x'' @ ''%in'') sample_parser =
     (Some e, sample_parser) \<and> en_command e = ''echo 50% x'' \<and> en_user e = ''root'' \<and> en_schedule e = ''*/5 0-3 * jan,Feb 7''"
proof -
  have "isUserName ''root''" by (simp add: isUserName_def name_char_def)
  from parse_reads_line [OF sample_fields_ok this, of "'' ''" "''echo 50% x''" sample_parser "''%in''" "\<lambda>_. []"]
  show ?thesis by (simp add: is_blank_def graphic_def sample_parser_def sample_fields_def)
qed

end
