(* ===== verification/Discovery_Timers.thy ===== *)
theory Discovery_Timers
  imports Discovery_Cron
begin

text \<open>
  \<open>internal/discovery/timers.go\<close>: systemd timers, read through \<open>systemctl\<close>, and \<open>Collect\<close>, which runs
  the readers one after another. Running \<open>systemctl\<close> is a parameter; \<open>ctx n\<close> says whether the context is
  cancelled at the \<open>n\<close>-th look at it. \<open>quote\<close> is the verb \<open>%q\<close> of \<open>fmt\<close>. The value \<open>None\<close> of a reader
  is the error of a cancelled context.
\<close>

record systemctl =
  sy_available :: bool
  sy_list :: "read_error + string"
  sy_show :: "string \<Rightarrow> string list \<Rightarrow> read_error + string"

definition timerSourcePrefix :: string where "timerSourcePrefix = ''systemd:''"

text \<open>Running the program with arguments is the parameter \<open>exec\<close>: what it printed, or the error of
  \<open>os/exec\<close> and, when that is an \<open>ExitError\<close>, what the program wrote to standard error. A discovery is
  taken to see one answer per command line.\<close>

type_synonym exec_outcome = "(read_error \<times> string option) + string"

fun suffixed :: "read_error \<Rightarrow> string \<Rightarrow> read_error" where
  "suffixed (NotExist t) m = NotExist (t @ m)"
| "suffixed (ReadFails t) m = ReadFails (t @ m)"

definition run_systemctl :: "(string list \<Rightarrow> exec_outcome) \<Rightarrow> string list \<Rightarrow> read_error + string" where
  "run_systemctl exec args =
     (case exec args of
        Inr out \<Rightarrow> Inr out
      | Inl (err, exit) \<Rightarrow>
          (case exit of
             Some stderr \<Rightarrow> if stderr \<noteq> [] then Inl (suffixed err ('': '' @ TrimSpace stderr)) else Inl err
           | None \<Rightarrow> Inl err))"

definition ListTimers_args :: "string list" where
  "ListTimers_args = [''list-timers'', ''--all'', ''--no-pager'', ''--no-legend'']"

definition Show_args :: "string \<Rightarrow> string list \<Rightarrow> string list" where
  "Show_args u props = [''show'', ''--no-pager'', u] @ map (\<lambda>p. ''--property='' @ p) props"

definition noSystemctl :: systemctl where
  "noSystemctl = \<lparr>sy_available = False, sy_list = Inr [], sy_show = (\<lambda>_ _. Inr [])\<rparr>"

text \<open>\<open>found\<close>: whether \<open>exec.LookPath\<close> finds the program.\<close>

definition DefaultSystemctl :: "bool \<Rightarrow> (string list \<Rightarrow> exec_outcome) \<Rightarrow> systemctl" where
  "DefaultSystemctl found exec =
     (if \<not> found then noSystemctl
      else \<lparr>sy_available = True, sy_list = run_systemctl exec ListTimers_args,
        sy_show = (\<lambda>u props. run_systemctl exec (Show_args u props))\<rparr>)"

section \<open>Reading what systemctl prints\<close>

definition isUnitName :: "string \<Rightarrow> bool" where
  "isUnitName s \<longleftrightarrow> s \<noteq> [] \<and> length s \<le> 255 \<and> hd s \<noteq> CHR ''-'' \<and> CHR ''.'' \<in> set s \<and>
     list_all (\<lambda>c. name_char c \<or> c \<in> {CHR ''.'', CHR ''_'', CHR ''-'', CHR ''@'', CHR '':'', CHR 0x5C}) s"

text \<open>The map \<open>showProperties\<close> builds, as a function of the key.\<close>

definition showProperties :: "string \<Rightarrow> string \<Rightarrow> string list" where
  "showProperties out key =
     map snd (filter (\<lambda>kv. fst kv = key)
       (List.map_filter (\<lambda>line. Cut (CHR ''='') (TrimRight line_end line)) (Lines out)))"

definition first :: "string list \<Rightarrow> string" where
  "first vs = (case vs of [] \<Rightarrow> [] | v # _ \<Rightarrow> v)"

function propertyGroups :: "string \<Rightarrow> string list" where
  "propertyGroups rest =
     (case Cut (CHR 0x7B) rest of None \<Rightarrow> []
      | Some (_, after) \<Rightarrow>
          (case Cut (CHR 0x7D) after of None \<Rightarrow> []
           | Some (grp, rest') \<Rightarrow> TrimSpace grp # propertyGroups rest'))"
  by pat_completeness auto
termination
  by (relation "measure length") (auto dest!: Cut_SomeD)

declare propertyGroups.simps [simp del]

definition groupSchedule :: "string \<Rightarrow> string \<times> string" where
  "groupSchedule grp =
     (let head = (case cut_at '' ; '' grp of None \<Rightarrow> grp | Some (h, _) \<Rightarrow> h)
      in case Cut (CHR ''='') head of None \<Rightarrow> ([], [])
         | Some (nm, expression) \<Rightarrow> (TrimSpace nm, TrimSpace expression))"

definition calendarTimezone :: "string \<Rightarrow> string" where
  "calendarTimezone expression =
     (let fs = Fields expression
      in if fs = [] then []
         else let l = last fs
              in if l = ''UTC'' then l
                 else if CHR ''/'' \<in> set l \<and> \<not> list_ex (\<lambda>c. is_digit c \<or> c \<in> {CHR ''*'', CHR '','', CHR '':''}) l
                 then l else [])"

definition groupField :: "string \<Rightarrow> string \<Rightarrow> string" where
  "groupField grp nm =
     (case find (\<lambda>f. HasPrefix (TrimSpace f) (nm @ ''='')) (split_at '' ; '' grp) of
        None \<Rightarrow> []
      | Some f \<Rightarrow> TrimSpace (drop (length nm + 1) (TrimSpace f)))"

definition execArgv :: "string \<Rightarrow> string" where
  "execArgv grp =
     (case cut_at ''argv[]='' grp of
        None \<Rightarrow> groupField grp ''path''
      | Some (_, argv) \<Rightarrow>
          (case cut_at '' ; ignore_errors='' argv of
             Some (a, _) \<Rightarrow> TrimSpace a
           | None \<Rightarrow> (case before_last '' ; '' argv of Some a \<Rightarrow> TrimSpace a | None \<Rightarrow> TrimSpace argv)))"

definition execStart :: "(string \<Rightarrow> string list) \<Rightarrow> string \<times> nat" where
  "execStart properties =
     (let lines = filter (\<lambda>l. l \<noteq> []) (map execArgv (concat (map propertyGroups (properties ''ExecStart''))))
      in (Join '' ; '' lines, length lines))"

definition serviceUser :: "(string \<Rightarrow> string list) \<Rightarrow> string" where
  "serviceUser properties = (let user = first (properties ''User'') in if user \<noteq> [] then user else ''root'')"

text \<open>\<open>timerRow\<close>: the fields from the right; \<open>next\<close> is the field after the one looked at.\<close>

fun timer_row_rev :: "string option \<Rightarrow> string list \<Rightarrow> (string \<times> string) option" where
  "timer_row_rev right [] = None"
| "timer_row_rev right (f # fs) =
     (if \<not> HasSuffix f ''.timer'' then timer_row_rev (Some f) fs
      else Some (f, case right of None \<Rightarrow> [] | Some r \<Rightarrow> if isUnitName r then r else []))"

definition timerRow :: "string \<Rightarrow> (string \<times> string) option" where
  "timerRow row = timer_row_rev None (rev (Fields row))"

definition isListTimersFooter :: "string \<Rightarrow> bool" where
  "isListTimersFooter row \<longleftrightarrow>
     row = ''No timers running.'' \<or> HasPrefix row ''Pass --all'' \<or>
     (case Cut (CHR '' '') row of None \<Rightarrow> False
      | Some (count, rest) \<Rightarrow> Atoi count \<noteq> None \<and> (rest = ''timers listed.'' \<or> rest = ''timer listed.''))"

definition joinNotes :: "string list \<Rightarrow> string" where
  "joinNotes notes = Join ''; '' (filter (\<lambda>n. n \<noteq> []) notes)"

record timer_schedule =
  ts_expression :: string
  ts_kind :: string
  ts_timezone :: string

definition calendar_schedule :: "string \<Rightarrow> timer_schedule option" where
  "calendar_schedule grp =
     (let expression = snd (groupSchedule grp)
      in if expression = [] then None
         else Some \<lparr>ts_expression = expression, ts_kind = KindCalendar, ts_timezone = calendarTimezone expression\<rparr>)"

definition monotonic_schedule :: "string \<Rightarrow> timer_schedule option" where
  "monotonic_schedule grp =
     (case groupSchedule grp of (nm, expression) \<Rightarrow>
        if expression = [] then None
        else Some \<lparr>ts_expression = nm @ ''='' @ expression, ts_kind = KindMonotonic, ts_timezone = []\<rparr>)"

definition timerSchedules :: "(string \<Rightarrow> string list) \<Rightarrow> timer_schedule list" where
  "timerSchedules properties =
     List.map_filter calendar_schedule (concat (map propertyGroups (properties ''TimersCalendar''))) @
     List.map_filter monotonic_schedule (concat (map propertyGroups (properties ''TimersMonotonic'')))"

section \<open>Asking systemctl\<close>

definition ctx_err :: "(nat \<Rightarrow> bool) \<Rightarrow> collection \<Rightarrow> bool \<times> collection" where
  "ctx_err ctx cl = (ctx (cl_looks cl), cl\<lparr>cl_looks := cl_looks cl + 1\<rparr>)"

definition show_unit :: "(string \<Rightarrow> string) \<Rightarrow> systemctl \<Rightarrow> string \<Rightarrow> string list \<Rightarrow> read_error + (string \<Rightarrow> string list)" where
  "show_unit quote sy u props =
     (if \<not> isUnitName u then Inl (ReadFails (quote u @ '' is not a unit name''))
      else case sy_show sy u props of Inl err \<Rightarrow> Inl err | Inr out \<Rightarrow> Inr (showProperties out))"

text \<open>The error path the three calls share: a cancelled context ends the collection, any other error is
  a source that could not be read.\<close>

definition failed_source :: "(nat \<Rightarrow> bool) \<Rightarrow> collector \<Rightarrow> string \<Rightarrow> read_error \<Rightarrow> collection \<Rightarrow> collection option" where
  "failed_source ctx c source err cl =
     (case ctx_err ctx cl of (stop, cl1) \<Rightarrow> if stop then None else Some (unreadableSource c source err cl1))"

definition unitCommand :: "(string \<Rightarrow> string) \<Rightarrow> (nat \<Rightarrow> bool) \<Rightarrow> systemctl \<Rightarrow> collector \<Rightarrow> string \<Rightarrow> collection \<Rightarrow>
    ((string \<times> string \<times> string) \<times> collection) option" where
  "unitCommand quote ctx sy c u cl =
     (if u = [] then Some (([], [], ''this timer triggers no unit, so it has no command''), cl)
      else case show_unit quote sy u [''ExecStart'', ''User''] of
        Inl err \<Rightarrow>
          (case failed_source ctx c (timerSourcePrefix @ u) err cl of
             None \<Rightarrow> None
           | Some cl' \<Rightarrow> Some (([], [], ''systemctl could not be asked what '' @ u @ '' runs: '' @ error_text err), cl'))
      | Inr properties \<Rightarrow>
          (case execStart properties of (command, count) \<Rightarrow>
             Some ((command, serviceUser properties,
                    if count = 0 then ''systemd reports no command for '' @ u
                    else if count > 1
                    then u @ '' runs '' @ Itoa (int count) @ '' commands in order, joined here with a semicolon''
                    else []), cl)))"

definition timer_entry :: "entry \<Rightarrow> timer_schedule \<Rightarrow> entry" where
  "timer_entry e s = e\<lparr>en_schedule := ts_expression s, en_kind := ts_kind s, en_timezone := ts_timezone s\<rparr>"

definition readTimer :: "(string \<Rightarrow> string) \<Rightarrow> (nat \<Rightarrow> bool) \<Rightarrow> systemctl \<Rightarrow> collector \<Rightarrow> string \<Rightarrow> string \<Rightarrow> string \<Rightarrow> collection \<Rightarrow>
    collection option" where
  "readTimer quote ctx sy c timer activates row cl =
     (let source = timerSourcePrefix @ timer
      in case show_unit quote sy timer [''Unit'', ''TimersCalendar'', ''TimersMonotonic''] of
        Inl err \<Rightarrow> failed_source ctx c source err cl
      | Inr properties \<Rightarrow>
          (let u = (if first (properties ''Unit'') = [] then activates else first (properties ''Unit''))
           in case unitCommand quote ctx sy c u cl of
                None \<Rightarrow> None
              | Some ((command, user, note), cl1) \<Rightarrow>
                  (let e = empty_entry\<lparr>en_source := source, en_raw := row, en_unit := u, en_command := command,
                         en_user := user, en_note := note, en_is_agent := runsAgent command u (dc_agent_path c),
                         en_unparseable := (command = [])\<rparr>;
                       schedules = timerSchedules properties
                   in Some (if schedules = []
                        then add_entry c (e\<lparr>en_unparseable := True, en_note := joinNotes [note,
                               ''systemd reports neither a calendar nor a monotonic schedule for this timer'']\<rparr>) cl1
                        else fold (add_entry c) (map (timer_entry e) schedules) cl1))))"

fun read_rows :: "(string \<Rightarrow> string) \<Rightarrow> (nat \<Rightarrow> bool) \<Rightarrow> systemctl \<Rightarrow> collector \<Rightarrow> string list \<Rightarrow> collection \<Rightarrow> collection option" where
  "read_rows quote ctx sy c [] cl = Some cl"
| "read_rows quote ctx sy c (line # ls) cl =
     (case ctx_err ctx cl of (stop, cl1) \<Rightarrow>
        if stop then None
        else let row = TrimSpace line
        in if row = [] \<or> isListTimersFooter row then read_rows quote ctx sy c ls cl1
        else case timerRow row of
          None \<Rightarrow> read_rows quote ctx sy c ls (add_entry c (empty_entry\<lparr>en_source := ''systemd'', en_raw := row,
                    en_unparseable := True,
                    en_note := ''systemctl list-timers printed a row without a .timer unit in it''\<rparr>) cl1)
        | Some (timer, activates) \<Rightarrow>
            if full c cl1 then read_rows quote ctx sy c ls (cl1\<lparr>cl_omitted := cl_omitted cl1 + 1\<rparr>)
            else (case readTimer quote ctx sy c timer activates row cl1 of
                    None \<Rightarrow> None | Some cl2 \<Rightarrow> read_rows quote ctx sy c ls cl2))"

definition readTimers :: "(string \<Rightarrow> string) \<Rightarrow> (nat \<Rightarrow> bool) \<Rightarrow> systemctl \<Rightarrow> collector \<Rightarrow> collection \<Rightarrow> collection option" where
  "readTimers quote ctx sy c cl =
     (if \<not> sy_available sy then Some cl
      else case sy_list sy of
        Inl err \<Rightarrow> failed_source ctx c ''systemd'' (prefixed ''systemctl list-timers: '' err) cl
      | Inr listing \<Rightarrow> read_rows quote ctx sy c (Lines listing) cl)"

section \<open>Collect\<close>

definition Collect_work :: "(cron_error \<Rightarrow> string) \<Rightarrow> (string \<Rightarrow> string) \<Rightarrow> file_view \<Rightarrow> (nat \<Rightarrow> bool) \<Rightarrow> systemctl \<Rightarrow> string option \<Rightarrow>
    collector \<Rightarrow> discovery_result option" where
  "Collect_work tx quote fv ctx sy executable c0 =
     (case ctx_err ctx new_collection of (stop, cl) \<Rightarrow>
        if stop then None
        else let c = withDefaults executable c0;
                 cl1 = readUserCrontabs tx fv c (readCronDirectory tx fv c (readSystemCrontab tx fv c cl))
             in case readTimers quote ctx sy c cl1 of
                  None \<Rightarrow> None
                | Some cl2 \<Rightarrow> Some \<lparr>cr_entries = cl_entries cl2, cr_unreadable = cl_unreadable cl2,
                                cr_omitted = cl_omitted cl2\<rparr>)"

section \<open>The readers keep the invariant\<close>

lemma fold_add_inv [collects]:
  "collection_inv c cl \<Longrightarrow> list_all entry_complete es \<Longrightarrow> collection_inv c (fold (add_entry c) es cl)"
  by (induction es arbitrary: cl) (simp_all add: collects)

lemma timerSchedules_complete:
  "s \<in> set (timerSchedules properties) \<Longrightarrow> ts_expression s \<noteq> [] \<and> ts_kind s \<in> {KindCalendar, KindMonotonic}"
  by (auto simp: timerSchedules_def calendar_schedule_def monotonic_schedule_def map_filter_def Let_def
      split: if_splits prod.splits)

lemma timer_entries_complete:
  "en_unparseable e \<or> en_command e \<noteq> [] \<and> en_user e \<noteq> [] \<Longrightarrow>
   list_all entry_complete (map (timer_entry e) (timerSchedules properties))"
  using timerSchedules_complete [of _ properties]
  by (auto simp: list_all_iff entry_complete_def timer_entry_def)

lemma serviceUser_nonempty: "serviceUser properties \<noteq> []"
  by (simp add: serviceUser_def Let_def)

lemma unitCommand_user:
  "unitCommand quote ctx sy c u cl = Some ((command, user, nt), cl') \<Longrightarrow> command \<noteq> [] \<Longrightarrow> user \<noteq> []"
  by (auto simp: unitCommand_def serviceUser_nonempty split: if_splits sum.splits prod.splits option.splits)

lemma failed_source_inv: "failed_source ctx c s err cl = Some cl' \<Longrightarrow> collection_inv c cl \<Longrightarrow> collection_inv c cl'"
  by (auto simp: failed_source_def ctx_err_def collects split: if_splits)

lemma unitCommand_inv: "unitCommand quote ctx sy c u cl = Some (r, cl') \<Longrightarrow> collection_inv c cl \<Longrightarrow> collection_inv c cl'"
  by (auto simp: unitCommand_def split: if_splits sum.splits prod.splits option.splits intro: failed_source_inv)

lemma readTimer_inv:
  assumes "readTimer quote ctx sy c timer activates row cl = Some cl'" and "collection_inv c cl"
  shows "collection_inv c cl'"
proof (cases "show_unit quote sy timer [''Unit'', ''TimersCalendar'', ''TimersMonotonic'']")
  case (Inl err)
  with assms show ?thesis by (simp add: readTimer_def) (rule failed_source_inv)
next
  case (Inr properties)
  let ?u = "if first (properties ''Unit'') = [] then activates else first (properties ''Unit'')"
  obtain command user nt cl1 where u: "unitCommand quote ctx sy c ?u cl = Some ((command, user, nt), cl1)"
    using assms(1) Inr by (auto simp: readTimer_def Let_def split: option.splits)
  have "collection_inv c cl1" by (rule unitCommand_inv [OF u assms(2)])
  moreover have "command \<noteq> [] \<Longrightarrow> user \<noteq> []" using unitCommand_user [OF u] by blast
  ultimately show ?thesis using assms(1) Inr u
    by (auto simp: readTimer_def Let_def add_entry_inv entry_complete_def simp del: fold_map split: if_splits
        intro!: fold_add_inv timer_entries_complete)
qed

lemma read_rows_inv: "read_rows quote ctx sy c ls cl = Some cl' \<Longrightarrow> collection_inv c cl \<Longrightarrow> collection_inv c cl'"
proof (induction ls arbitrary: cl)
  case (Cons line ls)
  let ?cl = "cl\<lparr>cl_looks := cl_looks cl + 1\<rparr>"
  have i: "collection_inv c ?cl" using Cons.prems(2) by (simp add: collects)
  have go: "\<not> ctx (cl_looks cl)" using Cons.prems(1) by (auto simp: ctx_err_def)
  consider (skip) "TrimSpace line = [] \<or> isListTimersFooter (TrimSpace line)"
    | (none) "\<not> (TrimSpace line = [] \<or> isListTimersFooter (TrimSpace line))" "timerRow (TrimSpace line) = None"
    | (row) timer activates where "\<not> (TrimSpace line = [] \<or> isListTimersFooter (TrimSpace line))"
        "timerRow (TrimSpace line) = Some (timer, activates)"
    by (cases "timerRow (TrimSpace line)") auto
  then show ?case
  proof cases
    case skip
    with Cons.prems(1) go have "read_rows quote ctx sy c ls ?cl = Some cl'" by (simp add: ctx_err_def Let_def)
    from Cons.IH [OF this i] show ?thesis .
  next
    case none
    with Cons.prems(1) go obtain e where "read_rows quote ctx sy c ls (add_entry c e ?cl) = Some cl'" "entry_complete e"
      by (simp add: ctx_err_def Let_def entry_complete_def)
    from Cons.IH [OF this(1) add_entry_inv [OF i this(2)]] show ?thesis .
  next
    case row
    show ?thesis
    proof (cases "full c ?cl")
      case True
      with Cons.prems(1) go row have "read_rows quote ctx sy c ls (?cl\<lparr>cl_omitted := cl_omitted ?cl + 1\<rparr>) = Some cl'"
        by (simp add: ctx_err_def Let_def)
      from Cons.IH [OF this omit_inv [OF i]] show ?thesis .
    next
      case False
      with Cons.prems(1) go row obtain cl2 where
        t: "readTimer quote ctx sy c timer activates (TrimSpace line) ?cl = Some cl2" and "read_rows quote ctx sy c ls cl2 = Some cl'"
        by (auto simp: ctx_err_def Let_def split: option.splits)
      from Cons.IH [OF this(2) readTimer_inv [OF t i]] show ?thesis .
    qed
  qed
qed simp

lemma readTimers_inv: "readTimers quote ctx sy c cl = Some cl' \<Longrightarrow> collection_inv c cl \<Longrightarrow> collection_inv c cl'"
  by (auto simp: readTimers_def split: if_splits sum.splits intro: failed_source_inv read_rows_inv)

end
