(* ===== verification/Discovery_Report.thy ===== *)
theory Discovery_Report
  imports Discovery_Timers Client_Call
begin

text \<open>
  \<open>internal/agent/discovery.go\<close>: the report of a discovery on the wire, and the state that keeps one
  report at a time off the poll loop; and what a whole collection guarantees.
\<close>

section \<open>The wire form\<close>

definition optional :: "string \<Rightarrow> string option" where
  "optional v = (if v = [] then None else Some v)"

definition wire_entry :: "entry \<Rightarrow> discovered_entry" where
  "wire_entry e = \<lparr>de_source = en_source e, de_raw = en_raw e, de_schedule = optional (en_schedule e),
     de_schedule_kind = optional (en_kind e), de_timezone = optional (en_timezone e),
     de_command = optional (en_command e), de_run_as = optional (en_user e), de_unit = optional (en_unit e),
     de_is_agent = en_is_agent e, de_unparseable = en_unparseable e, de_note = optional (en_note e)\<rparr>"

definition DiscoveryPayload :: "discovery_result \<Rightarrow> discovery_request" where
  "DiscoveryPayload r = \<lparr>dr_truncated = (cr_omitted r > 0), dr_omitted_entries = cr_omitted r,
     dr_unreadable_sources = map (\<lambda>u. \<lparr>us_source = ur_source u, us_reason = ur_reason u\<rparr>) (cr_unreadable r),
     dr_entries = map wire_entry (cr_entries r)\<rparr>"

lemma optional_inject [simp]: "optional v = optional w \<longleftrightarrow> v = w"
  by (simp add: optional_def)

lemma wire_entry_inject: "wire_entry e = wire_entry e' \<longleftrightarrow> e = e'"
  by (auto simp: wire_entry_def intro: entry.equality)

lemma inj_wire_entry: "inj wire_entry"
  by (rule injI) (simp only: wire_entry_inject)

section \<open>One report at a time\<close>

record discoveries =
  dv_in_flight :: bool
  dv_unsupported :: bool

definition new_discoveries :: discoveries where
  "new_discoveries = \<lparr>dv_in_flight = False, dv_unsupported = False\<rparr>"

definition begin_report :: "discoveries \<Rightarrow> bool \<times> discoveries" where
  "begin_report d = (if dv_in_flight d \<or> dv_unsupported d then (False, d) else (True, d\<lparr>dv_in_flight := True\<rparr>))"

definition end_report :: "bool \<Rightarrow> discoveries \<Rightarrow> discoveries" where
  "end_report unsupported d =
     (let d1 = d\<lparr>dv_in_flight := False\<rparr> in if unsupported then d1\<lparr>dv_unsupported := True\<rparr> else d1)"

text \<open>\<open>report\<close>: what was collected, what the context says after the call.\<close>

definition sendReport :: "web \<Rightarrow> (discovery_request \<Rightarrow> string option) \<Rightarrow> (string \<Rightarrow> discovery_response option) \<Rightarrow>
    discovery_result option \<Rightarrow> bool \<Rightarrow> client \<Rightarrow> client \<times> bool" where
  "sendReport wb enc dec result cancelled c =
     (case result of
        None \<Rightarrow> (c, False)
      | Some r \<Rightarrow>
          (case Discovery_call wb enc dec (DiscoveryPayload r) c of
             (c', Inr response) \<Rightarrow> (c', False)
           | (c', Inl err) \<Rightarrow> (c', \<not> cancelled \<and> IsNotFound err)))"

text \<open>\<open>discoverIfAsked\<close> starts a goroutine that reports and then ends; polls go on meanwhile. A state
  holds the flags and how many of these goroutines there are. A \<open>Reported\<close> event carries what the
  report met: the Server and the client at that time, what was collected, and whether the context was
  cancelled by then.\<close>

datatype discovery_event =
    Asked bool
  | Reported web client "discovery_result option" bool

record reporting =
  rg_flags :: discoveries
  rg_running :: nat

definition discoverIfAsked :: "bool \<Rightarrow> reporting \<Rightarrow> reporting" where
  "discoverIfAsked requested s =
     (if \<not> requested then s
      else case begin_report (rg_flags s) of (began, d) \<Rightarrow>
        s\<lparr>rg_flags := d, rg_running := (if began then rg_running s + 1 else rg_running s)\<rparr>)"

inductive report_step :: "(discovery_request \<Rightarrow> string option) \<Rightarrow> (string \<Rightarrow> discovery_response option) \<Rightarrow>
    reporting \<Rightarrow> discovery_event \<Rightarrow> reporting \<Rightarrow> bool"
  for enc dec where
  ask: "report_step enc dec s (Asked requested) (discoverIfAsked requested s)"
| answer: "rg_running s > 0 \<Longrightarrow>
    report_step enc dec s (Reported wb c result cancelled)
      (s\<lparr>rg_flags := end_report (snd (sendReport wb enc dec result cancelled c)) (rg_flags s),
         rg_running := rg_running s - 1\<rparr>)"

inductive reports :: "(discovery_request \<Rightarrow> string option) \<Rightarrow> (string \<Rightarrow> discovery_response option) \<Rightarrow>
    reporting \<Rightarrow> discovery_event list \<Rightarrow> reporting \<Rightarrow> bool"
  for enc dec where
  none: "reports enc dec s [] s"
| more: "report_step enc dec s e s1 \<Longrightarrow> reports enc dec s1 es s2 \<Longrightarrow> reports enc dec s (e # es) s2"

inductive_cases report_stepE: "report_step enc dec s e s'"
inductive_simps report_step_simps:
  "report_step enc dec s (Asked r) s'" "report_step enc dec s (Reported wb c result cancelled) s'"
inductive_simps reports_simps: "reports enc dec s [] s'" "reports enc dec s (e # es) s'"

lemmas flag_defs = discoverIfAsked_def begin_report_def end_report_def

definition reporting_inv :: "reporting \<Rightarrow> bool" where
  "reporting_inv s \<longleftrightarrow> rg_running s \<le> 1 \<and> (dv_in_flight (rg_flags s) \<longleftrightarrow> rg_running s = 1)"

lemma report_step_inv: "report_step enc dec s e s' \<Longrightarrow> reporting_inv s \<Longrightarrow> reporting_inv s'"
  by (erule report_stepE) (auto simp: reporting_inv_def flag_defs Let_def)

lemma reports_inv: "reports enc dec s es s' \<Longrightarrow> reporting_inv s \<Longrightarrow> reporting_inv s'"
  by (induction rule: reports.induct) (auto dest: report_step_inv)

lemma reports_append:
  "reports enc dec s (es @ fs) s' \<longleftrightarrow> (\<exists>t. reports enc dec s es t \<and> reports enc dec t fs s')"
  by (induction es arbitrary: s) (auto simp: reports_simps)

text \<open>Once the endpoint is known not to exist, and its report is over, nothing happens any more.\<close>

lemma unsupported_quiet:
  "reports enc dec s es s' \<Longrightarrow> dv_unsupported (rg_flags s) \<Longrightarrow> rg_running s = 0 \<Longrightarrow>
   s' = s \<and> list_all (\<lambda>e. \<exists>r. e = Asked r) es"
proof (induction rule: reports.induct)
  case (more s e s1 es s2)
  from more.hyps(1) more.prems have "s1 = s \<and> (\<exists>r. e = Asked r)"
    by (cases rule: report_stepE) (auto simp: flag_defs)
  with more show ?case by auto
qed simp

lemma report_unsupported:
  assumes "snd (Discovery_call wb enc dec (DiscoveryPayload r) c) = Inl err" and "IsNotFound err"
  shows "snd (sendReport wb enc dec (Some r) False c)"
  using assms by (cases "Discovery_call wb enc dec (DiscoveryPayload r) c") (simp add: sendReport_def)

lemma notfound_quiet:
  assumes "reports enc dec s (Reported wb c (Some r) False # ys) s'" and "reporting_inv s"
    and "snd (Discovery_call wb enc dec (DiscoveryPayload r) c) = Inl err" and "IsNotFound err"
  shows "list_all (\<lambda>e. \<exists>q. e = Asked q) ys"
proof -
  from assms(1) obtain t where "rg_running s > 0" and t: "reports enc dec t ys s'"
    "t = s\<lparr>rg_flags := end_report True (rg_flags s), rg_running := rg_running s - 1\<rparr>"
    using report_unsupported [OF assms(3,4)] by (auto simp: reports_simps report_step_simps)
  with assms(2) have "dv_unsupported (rg_flags t)" "rg_running t = 0"
    by (simp_all add: reporting_inv_def end_report_def)
  from unsupported_quiet [OF t(1) this] show ?thesis by blast
qed

section \<open>What a collection guarantees\<close>

lemma Collect_inv:
  assumes "Collect_work tx quote fv ctx sy executable c0 = Some r"
  obtains cl where "collection_inv (withDefaults executable c0) cl" and "cr_entries r = cl_entries cl"
    and "cr_unreadable r = cl_unreadable cl" and "cr_omitted r = cl_omitted cl"
proof -
  let ?c = "withDefaults executable c0"
  let ?start = "new_collection\<lparr>cl_looks := cl_looks new_collection + 1\<rparr>"
  let ?files = "readUserCrontabs tx fv ?c (readCronDirectory tx fv ?c (readSystemCrontab tx fv ?c ?start))"
  have "collection_inv ?c ?files"
    by (intro readUserCrontabs_inv readCronDirectory_inv readSystemCrontab_inv)
      (simp add: look_inv new_collection_inv [OF withDefaults_limits])
  moreover obtain cl where cl: "readTimers quote ctx sy ?c ?files = Some cl"
    and r: "r = \<lparr>cr_entries = cl_entries cl, cr_unreadable = cl_unreadable cl, cr_omitted = cl_omitted cl\<rparr>"
    using assms by (auto simp: Collect_work_def ctx_err_def Let_def split: if_splits option.splits)
  ultimately have "collection_inv ?c cl" using readTimers_inv by blast
  with r that show thesis by simp
qed

lemma withDefaults_max:
  "dc_max_entries (withDefaults executable c0) = (if dc_max_entries c0 \<le> 0 then MaxEntries else dc_max_entries c0)"
  "dc_max_bytes (withDefaults executable c0) = (if dc_max_bytes c0 \<le> 0 then MaxBytes else dc_max_bytes c0)"
  by (simp_all add: withDefaults_def Let_def)

section \<open>What systemctl is asked\<close>

definition reading_only :: "string list \<Rightarrow> bool" where
  "reading_only args \<longleftrightarrow> args = ListTimers_args \<or>
     (length args > 2 \<and> isUnitName (args ! 2) \<and>
      (args = Show_args (args ! 2) [''Unit'', ''TimersCalendar'', ''TimersMonotonic''] \<or>
       args = Show_args (args ! 2) [''ExecStart'', ''User'']))"

definition same_answers :: "(string \<Rightarrow> string) \<Rightarrow> systemctl \<Rightarrow> systemctl \<Rightarrow> bool" where
  "same_answers quote sy sy' \<longleftrightarrow> sy_available sy = sy_available sy' \<and> sy_list sy = sy_list sy' \<and>
     (\<forall>u. \<forall>props \<in> {[''Unit'', ''TimersCalendar'', ''TimersMonotonic''], [''ExecStart'', ''User'']}.
        show_unit quote sy u props = show_unit quote sy' u props)"

lemma same_answersD:
  assumes "same_answers quote sy sy'"
  shows "sy_available sy = sy_available sy'" and "sy_list sy = sy_list sy'"
    and "show_unit quote sy u [''Unit'', ''TimersCalendar'', ''TimersMonotonic''] =
      show_unit quote sy' u [''Unit'', ''TimersCalendar'', ''TimersMonotonic'']"
    and "show_unit quote sy u [''ExecStart'', ''User''] = show_unit quote sy' u [''ExecStart'', ''User'']"
  using assms by (simp_all add: same_answers_def)

lemma unitCommand_same: "same_answers quote sy sy' \<Longrightarrow> unitCommand quote ctx sy = unitCommand quote ctx sy'"
  by (intro ext) (simp add: unitCommand_def same_answersD(4) [of quote sy sy'])

lemma readTimer_same: "same_answers quote sy sy' \<Longrightarrow> readTimer quote ctx sy = readTimer quote ctx sy'"
  by (intro ext) (simp add: readTimer_def Let_def same_answersD(3) [of quote sy sy'] unitCommand_same [of quote sy sy'] split: sum.split)

lemma read_rows_same: "same_answers quote sy sy' \<Longrightarrow> read_rows quote ctx sy c ls cl = read_rows quote ctx sy' c ls cl"
  by (induction ls arbitrary: cl)
    (simp_all add: readTimer_same [of quote sy sy'] Let_def split: prod.split option.split)

lemma readTimers_same: "same_answers quote sy sy' \<Longrightarrow> readTimers quote ctx sy = readTimers quote ctx sy'"
  by (intro ext)
    (simp add: readTimers_def read_rows_same [of quote sy sy'] same_answersD(1,2) [of quote sy sy'] split: sum.split)

lemma Show_args_third: "length (Show_args u props) > 2" "Show_args u props ! 2 = u"
  by (simp_all add: Show_args_def)

lemma reading_only_same:
  assumes "\<And>args. reading_only args \<Longrightarrow> exec args = exec' args"
  shows "same_answers quote (DefaultSystemctl found exec) (DefaultSystemctl found exec')"
proof -
  have "exec ListTimers_args = exec' ListTimers_args" by (rule assms) (simp add: reading_only_def)
  moreover have "exec (Show_args u props) = exec' (Show_args u props)"
    if "isUnitName u" and "props = [''Unit'', ''TimersCalendar'', ''TimersMonotonic''] \<or> props = [''ExecStart'', ''User'']" for u props
    using that by (intro assms) (auto simp: reading_only_def Show_args_third)
  ultimately show ?thesis
    by (auto simp: same_answers_def DefaultSystemctl_def noSystemctl_def show_unit_def run_systemctl_def)
qed

section \<open>Properties\<close>



text \<open>C37: An entry the Server may import is complete: one that is not marked unparseable states a
  schedule of a known kind, a command and a user. And nothing is lost on the wire: two entries that are
  sent alike are alike.\<close>

theorem sent_entries_complete:
  assumes "Collect_work tx quote fv ctx sy executable c0 = Some r" and "d \<in> set (dr_entries (DiscoveryPayload r))"
  shows "(de_unparseable d \<or>
      (\<exists>schedule command user. de_schedule d = Some schedule \<and> de_command d = Some command \<and> de_run_as d = Some user \<and>
         de_schedule_kind d \<in> Some ` {KindCron, KindCalendar, KindMonotonic})) \<and>
    (\<exists>!e. e \<in> set (cr_entries r) \<and> d = wire_entry e)"
  using assms(1)
proof (rule Collect_inv)
  fix cl
  assume i: "collection_inv (withDefaults executable c0) cl" and r: "cr_entries r = cl_entries cl"
  from assms(2) obtain e where e: "e \<in> set (cr_entries r)" "d = wire_entry e" by (auto simp: DiscoveryPayload_def)
  with i r have "entry_complete e" by (simp add: collection_inv_def list_all_iff)
  with e show ?thesis
    by (auto simp: entry_complete_def wire_entry_inject KindCron_def KindCalendar_def KindMonotonic_def)
      (auto simp: wire_entry_def optional_def)
qed

text \<open>C36: One discovery at a time, and none after a 404. However often the Server asks and however the
  reports end, at most one report runs, the flag says whether one does, and after a report that the
  Server answered with 404 no report runs again.\<close>

theorem one_discovery_at_a_time:
  assumes "reports enc dec \<lparr>rg_flags = new_discoveries, rg_running = 0\<rparr> es s"
  shows "rg_running s \<le> 1 \<and> (dv_in_flight (rg_flags s) \<longleftrightarrow> rg_running s = 1) \<and>
    (\<forall>xs ys wb c r err. es = xs @ Reported wb c (Some r) False # ys \<longrightarrow>
       snd (Discovery_call wb enc dec (DiscoveryPayload r) c) = Inl err \<longrightarrow> IsNotFound err \<longrightarrow>
       list_all (\<lambda>e. \<exists>q. e = Asked q) ys)"
proof -
  have init: "reporting_inv \<lparr>rg_flags = new_discoveries, rg_running = 0\<rparr>"
    by (simp add: reporting_inv_def new_discoveries_def)
  have "reporting_inv s" by (rule reports_inv [OF assms init])
  moreover have "list_all (\<lambda>e. \<exists>q. e = Asked q) ys"
    if es: "es = xs @ Reported wb c (Some r) False # ys"
      and nf: "snd (Discovery_call wb enc dec (DiscoveryPayload r) c) = Inl err" "IsNotFound err" for xs ys wb c r err
  proof -
    obtain t where t: "reports enc dec \<lparr>rg_flags = new_discoveries, rg_running = 0\<rparr> xs t"
      "reports enc dec t (Reported wb c (Some r) False # ys) s"
      using assms unfolding es reports_append by blast
    show ?thesis by (rule notfound_quiet [OF t(2) reports_inv [OF t(1) init] nf])
  qed
  ultimately show ?thesis unfolding reporting_inv_def by blast
qed

section \<open>Witnesses\<close>

definition sample_files :: file_view where
  "sample_files = \<lparr>fv_file = (\<lambda>_. Inl (NotExist [])), fv_dir = (\<lambda>_. Inl (NotExist []))\<rparr>"

definition sample_exec :: "string list \<Rightarrow> exec_outcome" where
  "sample_exec args =
     (if args = ListTimers_args then Inr ''today a.timer a.service''
      else if args ! 2 = ''a.timer'' then Inr ''TimersMonotonic={ OnBootUSec=5min }''
      else Inr ''ExecStart={ path=/bin/x }'')"

definition sample_collector :: collector where
  "sample_collector = \<lparr>dc_paths = DefaultPaths, dc_agent_path = ''/a'', dc_max_entries = 0, dc_max_bytes = 0\<rparr>"

definition sample_collect :: "discovery_result option" where
  "sample_collect = Collect_work (\<lambda>_. []) (\<lambda>_. []) sample_files (\<lambda>_. False) (DefaultSystemctl True sample_exec) None sample_collector"

lemma sample_collect_value:
  "map_option (\<lambda>r. (map (\<lambda>d. (de_unparseable d, de_command d, de_schedule d)) (dr_entries (DiscoveryPayload r)), cr_omitted r))
     sample_collect = Some ([(False, Some ''/bin/x'', Some ''OnBootUSec=5min'')], 0)"
  by code_simp

lemma sample_collect_result:
  obtains r d where "sample_collect = Some r" and "dr_entries (DiscoveryPayload r) = [d]"
    and "\<not> de_unparseable d" and "cr_omitted r = 0"
  using sample_collect_value by (cases sample_collect) (auto simp: map_eq_Cons_conv)



theorem sent_entries_complete_witness:
  "\<exists>r d. sample_collect = Some r \<and> dr_entries (DiscoveryPayload r) = [d] \<and> de_command d \<noteq> None \<and> de_run_as d \<noteq> None"
proof -
  obtain r d where r: "sample_collect = Some r" "dr_entries (DiscoveryPayload r) = [d]" "\<not> de_unparseable d"
    by (rule sample_collect_result)
  from sent_entries_complete [OF r(1) [unfolded sample_collect_def], of d] r show ?thesis by auto
qed

theorem one_discovery_at_a_time_witness:
  "\<exists>s. reports (\<lambda>_. None) (\<lambda>_. None) \<lparr>rg_flags = new_discoveries, rg_running = 0\<rparr> [Asked True, Asked True] s \<and>
     rg_running s = 1 \<and> dv_in_flight (rg_flags s)"
proof -
  let ?s = "\<lparr>rg_flags = \<lparr>dv_in_flight = True, dv_unsupported = False\<rparr>, rg_running = 1\<rparr>"
  have r: "reports (\<lambda>_. None) (\<lambda>_. None) \<lparr>rg_flags = new_discoveries, rg_running = 0\<rparr> [Asked True, Asked True] ?s"
    by (simp add: reports_simps report_step_simps flag_defs new_discoveries_def)
  from one_discovery_at_a_time [OF r] r show ?thesis by auto
qed

end
