(* ===== verification/Enroll.thy ===== *)
theory Enroll
  imports Client_Call Sysinfo
begin

text \<open>
  \<open>internal/enroll/enroll.go\<close>: a one-time token is exchanged for a machine id and a credential, which
  are written to the two files of the agent. The model returns what the command leaves behind: the
  files, the request that was handed to the client, if any (the Server may take the token then), the
  changes of ownership, and the result or the error. The text of a message is a constructor with the values that go into it,
  except for the two messages the code assembles itself.
\<close>

section \<open>Reasons\<close>

datatype reason = ReasonUnknown | ReasonInvalidInput | ReasonAlreadyEnrolled | ReasonTokenInvalid
  | ReasonTokenExpired | ReasonUnsupportedOS | ReasonVersionRejected | ReasonThrottled
  | ReasonUnreachable | ReasonPermission

text \<open>What a failed call of the file system was part of.\<close>

datatype fs_failure =
    FsReadConfig
  | FsMkdir | FsCreateProbe | FsCloseProbe | FsRemoveProbe
  | FsSaveConfig load_error
  | FsSaveCredential credential_error
  | FsChown string

datatype enroll_message =
    ServerURLMissing | TokenShape
  | NeedsRoot string | UserMissing string
  | AlreadyEnrolled string
  | ConfigUnreadable string parse_error
  | CannotWrite string | FsMessage fs_failure
  | ClientMessage client_error | CollectMessage | RunAsMessage run_as_error
  | BadCredentialMessage
  | TokenNotAccepted | TokenIsExpired | OSNotSupported string | Rejected string | Limited string
  | Refused api_error | CertMessage string gerror | Unreachable string gerror | EnrollFailed gerror

record enroll_error =
  ee_reason :: reason
  ee_message :: enroll_message

definition enroll_error :: "reason \<Rightarrow> enroll_message \<Rightarrow> enroll_error" where
  "enroll_error r m = \<lparr>ee_reason = r, ee_message = m\<rparr>"

section \<open>Data\<close>

definition TokenPrefix :: string where "TokenPrefix = ''omj_enroll_''"
definition DefaultOwner :: string where "DefaultOwner = ''ohmyjob''"

text \<open>The system as a record of what it answers; \<open>sm_users\<close> is \<open>LookupUser\<close>, \<open>sm_chown\<close> whether a
  change of ownership succeeds, \<open>sm_unit_there\<close> whether the service unit's file exists.\<close>

record system =
  sm_uid :: int
  sm_username :: string
  sm_users :: "string \<Rightarrow> (int \<times> int) option"
  sm_chown :: "string \<Rightarrow> int \<Rightarrow> int \<Rightarrow> bool"
  sm_unit_there :: bool

record enroll_options =
  eo_server_url :: string
  eo_token :: string
  eo_name :: string
  eo_insecure_http :: bool
  eo_user :: string
  eo_force :: bool
  eo_config_dir :: string
  eo_config_file :: string
  eo_credential_file :: string
  eo_collect :: "sys_info option"
  eo_system :: system

text \<open>The outside: the URL parser, the Server, the JSON of the exchange, which file system calls fail
  and which errors are refusals of permission, and which errors are a bad certificate.\<close>

record enroll_env =
  ev_url :: url_parser
  ev_version :: string
  ev_web :: web
  ev_encode :: "enroll_request \<Rightarrow> string option"
  ev_decode :: "string \<Rightarrow> enroll_response option"
  ev_read_fails :: bool
  ev_probe :: string
  ev_probe_fault :: "fs_failure option"
  ev_save_config :: save_env
  ev_save_credential :: save_env
  ev_denied :: "fs_failure \<Rightarrow> bool"
  ev_certificate :: "gerror \<Rightarrow> bool"
  ev_duration :: "duration \<Rightarrow> string"

record enroll_result =
  en_machine_id :: string
  en_config_file :: string
  en_credential_file :: string
  en_owner :: string
  en_next_step :: string

section \<open>Checks before the token is spent\<close>

definition validate_options :: "enroll_options \<Rightarrow> enroll_error option" where
  "validate_options opts =
     (if eo_server_url opts = [] then Some (enroll_error ReasonInvalidInput ServerURLMissing)
      else if \<not> HasPrefix (eo_token opts) TokenPrefix \<or> length (eo_token opts) = length TokenPrefix
      then Some (enroll_error ReasonInvalidInput TokenShape)
      else None)"

record owner =
  ow_name :: string
  ow_uid :: int
  ow_gid :: int
  ow_change :: bool

definition own_files :: "string \<Rightarrow> owner" where
  "own_files n = \<lparr>ow_name = n, ow_uid = 0, ow_gid = 0, ow_change = False\<rparr>"

definition resolveOwner :: "enroll_options \<Rightarrow> enroll_error + owner" where
  "resolveOwner opts =
     (let sys = eo_system opts; root = (sm_uid sys = 0)
      in if eo_user opts = [] then
           (case (if root then sm_users sys DefaultOwner else None) of
              Some (uid, gid) \<Rightarrow> Inr \<lparr>ow_name = DefaultOwner, ow_uid = uid, ow_gid = gid, ow_change = True\<rparr>
            | None \<Rightarrow> Inr (own_files (sm_username sys)))
         else if eo_user opts = sm_username sys then Inr (own_files (eo_user opts))
         else if \<not> root then Inl (enroll_error ReasonPermission (NeedsRoot (eo_user opts)))
         else (case sm_users sys (eo_user opts) of
                 None \<Rightarrow> Inl (enroll_error ReasonInvalidInput (UserMissing (eo_user opts)))
               | Some (uid, gid) \<Rightarrow> Inr \<lparr>ow_name = eo_user opts, ow_uid = uid, ow_gid = gid, ow_change = True\<rparr>))"

definition classifyFilesystem :: "enroll_env \<Rightarrow> string \<Rightarrow> fs_failure \<Rightarrow> enroll_error" where
  "classifyFilesystem ev path f =
     (if ev_denied ev f then enroll_error ReasonPermission (CannotWrite path)
      else enroll_error ReasonUnknown (FsMessage f))"

definition existingConfig :: "enroll_env \<Rightarrow> enroll_options \<Rightarrow> file_system \<Rightarrow> enroll_error + config" where
  "existingConfig ev opts fs =
     (case fs (eo_config_file opts) of
        None \<Rightarrow> Inr Default
      | Some (data, mode) \<Rightarrow>
          if ev_read_fails ev then Inl (classifyFilesystem ev (eo_config_file opts) FsReadConfig)
          else (case Parse data of
                  Inr cfg \<Rightarrow> Inr cfg
                | Inl e \<Rightarrow>
                    if eo_force opts then Inr Default
                    else Inl (enroll_error ReasonUnknown (ConfigUnreadable (eo_config_file opts) e))))"

text \<open>A probe file is made and removed; when closing or removing it fails it stays.\<close>

definition ensureWritable :: "enroll_env \<Rightarrow> file_system \<Rightarrow> file_system \<times> fs_failure option" where
  "ensureWritable ev fs =
     (case ev_probe_fault ev of
        Some f \<Rightarrow> (if f \<in> {FsCloseProbe, FsRemoveProbe} then fs(ev_probe ev \<mapsto> ([], 384)) else fs, Some f)
      | None \<Rightarrow> ((fs(ev_probe ev \<mapsto> ([], 384)))(ev_probe ev := None), None))"

definition allowedUsers :: "config \<Rightarrow> sys_info \<Rightarrow> system \<Rightarrow> enroll_error + string list" where
  "allowedUsers cfg info sys =
     (let runAs = ResolveRunAs cfg \<lparr>rh_uid = si_agent_uid info, rh_username = si_agent_user info,
                    rh_lookup = (\<lambda>name. map_option fst (sm_users sys name))\<rparr>
      in case RunAs_Err runAs of
           Some e \<Rightarrow> Inl (enroll_error ReasonInvalidInput (RunAsMessage e))
         | None \<Rightarrow> Inr (Names runAs))"

section \<open>What the Server's errors mean\<close>

definition versionRejectedMessage :: "api_error \<Rightarrow> string" where
  "versionRejectedMessage a =
     ''the server rejected this agent: '' @ ap_message a @
     (if ap_supported a \<noteq> []
      then '' (this agent speaks protocol '' @ Itoa ProtocolVersion @ '', the server supports '' @
           Join '', '' (map Itoa (ap_supported a)) @ '')'' else []) @
     (if ap_min_agent_version a \<noteq> []
      then ''; the server requires agent '' @ ap_min_agent_version a @ '' or newer'' else [])"

definition throttledMessage :: "enroll_env \<Rightarrow> api_error \<Rightarrow> string" where
  "throttledMessage ev a =
     (if ap_retry_after a > 0
      then ''the server is limiting enrollment attempts; try again in '' @ ev_duration ev (Round second (ap_retry_after a))
      else ''the server is limiting enrollment attempts; wait a minute and try again'')"

definition classifyAPIError :: "enroll_env \<Rightarrow> api_error \<Rightarrow> enroll_error" where
  "classifyAPIError ev a =
     (if ap_status a = 401 then enroll_error ReasonTokenInvalid TokenNotAccepted
      else if ap_status a = 410 then enroll_error ReasonTokenExpired TokenIsExpired
      else if ap_code a = ErrUnsupportedOS then enroll_error ReasonUnsupportedOS (OSNotSupported (ap_message a))
      else if ap_status a = 426 then enroll_error ReasonVersionRejected (Rejected (versionRejectedMessage a))
      else if ap_status a = 429 then enroll_error ReasonThrottled (Limited (throttledMessage ev a))
      else enroll_error ReasonUnknown (Refused a))"

definition classifyServer :: "enroll_env \<Rightarrow> string \<Rightarrow> gerror \<Rightarrow> enroll_error" where
  "classifyServer ev serverURL err =
     (case asAPIError err of
        Some a \<Rightarrow> classifyAPIError ev a
      | None \<Rightarrow>
          if ev_certificate ev err then enroll_error ReasonUnreachable (CertMessage serverURL err)
          else if list_ex is_net_error (error_nodes err) \<or> errors_Is err DeadlineExceeded
          then enroll_error ReasonUnreachable (Unreachable serverURL err)
          else enroll_error ReasonUnknown (EnrollFailed err))"

section \<open>Enrolling\<close>

record enrolled =
  el_files :: file_system
  el_sent :: "enroll_request option"
  el_owned :: "(string \<times> int \<times> int) list"
  el_result :: "enroll_error + enroll_result"

definition stopped :: "file_system \<Rightarrow> enroll_error \<Rightarrow> enrolled" where
  "stopped fs e = \<lparr>el_files = fs, el_sent = None, el_owned = [], el_result = Inl e\<rparr>"

text \<open>\<open>owner.apply\<close>: the paths handed over before the first failure.\<close>

fun owner_apply :: "enroll_env \<Rightarrow> owner \<Rightarrow> system \<Rightarrow> string list \<Rightarrow> (string \<times> int \<times> int) list \<times> enroll_error option" where
  "owner_apply ev ow sys [] = ([], None)"
| "owner_apply ev ow sys (path # ps) =
     (if \<not> ow_change ow then ([], None)
      else if \<not> sm_chown sys path (ow_uid ow) (ow_gid ow) then ([], Some (classifyFilesystem ev path (FsChown path)))
      else case owner_apply ev ow sys ps of (done, e) \<Rightarrow> ((path, ow_uid ow, ow_gid ow) # done, e))"

definition nextStep :: "system \<Rightarrow> string" where
  "nextStep sys = (if sm_unit_there sys then ''systemctl enable --now omj-agent'' else ''omj-agent run'')"

definition enrolled_config :: "config \<Rightarrow> enroll_options \<Rightarrow> enroll_response \<Rightarrow> config" where
  "enrolled_config cfg opts response =
     cfg\<lparr>cf_server_url := eo_server_url opts, cf_machine_id := es_machine_id response,
       cf_insecure_http := eo_insecure_http opts\<rparr>"

text \<open>The end of \<open>Enroll\<close>: the Server has answered.\<close>

definition write_files :: "enroll_env \<Rightarrow> enroll_options \<Rightarrow> owner \<Rightarrow> config \<Rightarrow> enroll_response \<Rightarrow> file_system \<Rightarrow>
    file_system \<times> (string \<times> int \<times> int) list \<times> (enroll_error + enroll_result)" where
  "write_files ev opts ow cfg response fs =
     (case NewCredential (es_credential response) of
        None \<Rightarrow> (fs, [], Inl (enroll_error ReasonUnknown BadCredentialMessage))
      | Some credential \<Rightarrow>
      (case Save_config (ev_url ev) (ev_save_config ev) (eo_config_file opts) (enrolled_config cfg opts response) fs of
        (fs1, Some e) \<Rightarrow> (fs1, [], Inl (classifyFilesystem ev (eo_config_file opts) (FsSaveConfig e)))
      | (fs1, None) \<Rightarrow>
      (case SaveCredential (ev_save_credential ev) (eo_credential_file opts) credential fs1 of
        (fs2, Some e) \<Rightarrow> (fs2, [], Inl (classifyFilesystem ev (eo_credential_file opts) (FsSaveCredential e)))
      | (fs2, None) \<Rightarrow>
      (case owner_apply ev ow (eo_system opts) [eo_config_file opts, eo_credential_file opts] of
        (owned, Some e) \<Rightarrow> (fs2, owned, Inl e)
      | (owned, None) \<Rightarrow>
          (fs2, owned, Inr \<lparr>en_machine_id = es_machine_id response, en_config_file = eo_config_file opts,
             en_credential_file = eo_credential_file opts, en_owner = ow_name ow,
             en_next_step = nextStep (eo_system opts)\<rparr>)))))"

definition exchange :: "enroll_env \<Rightarrow> enroll_options \<Rightarrow> owner \<Rightarrow> config \<Rightarrow> client \<Rightarrow> enroll_request \<Rightarrow> file_system \<Rightarrow> enrolled" where
  "exchange ev opts ow cfg api request fs =
     (case snd (Enroll_call (ev_web ev) (ev_encode ev) (ev_decode ev) request api) of
        Inl err \<Rightarrow> \<lparr>el_files = fs, el_sent = Some request, el_owned = [],
          el_result = Inl (classifyServer ev (eo_server_url opts) err)\<rparr>
      | Inr response \<Rightarrow>
          (case write_files ev opts ow cfg response fs of
             (fs', owned, r) \<Rightarrow> \<lparr>el_files = fs', el_sent = Some request, el_owned = owned, el_result = r\<rparr>))"

definition Enroll :: "enroll_env \<Rightarrow> enroll_options \<Rightarrow> file_system \<Rightarrow> enrolled" where
  "Enroll ev opts fs =
     (case validate_options opts of Some e \<Rightarrow> stopped fs e | None \<Rightarrow>
     (case resolveOwner opts of Inl e \<Rightarrow> stopped fs e | Inr ow \<Rightarrow>
     (case existingConfig ev opts fs of Inl e \<Rightarrow> stopped fs e | Inr cfg \<Rightarrow>
      if cf_machine_id cfg \<noteq> [] \<and> \<not> eo_force opts
      then stopped fs (enroll_error ReasonAlreadyEnrolled (AlreadyEnrolled (cf_machine_id cfg)))
      else
     (case ensureWritable ev fs of
        (fs1, Some f) \<Rightarrow> stopped fs1 (classifyFilesystem ev (eo_config_dir opts) f)
      | (fs1, None) \<Rightarrow>
     (case New_client (ev_url ev) (ev_version ev) (eo_server_url opts) [] (eo_insecure_http opts) 0 0 of
        Inl e \<Rightarrow> stopped fs1 (enroll_error ReasonInvalidInput (ClientMessage e))
      | Inr api \<Rightarrow>
     (case eo_collect opts of
        None \<Rightarrow> stopped fs1 (enroll_error ReasonUnknown CollectMessage)
      | Some info \<Rightarrow>
     (case allowedUsers cfg info (eo_system opts) of
        Inl e \<Rightarrow> stopped fs1 e
      | Inr runAs \<Rightarrow>
          exchange ev opts ow cfg api
            (EnrollRequest (ev_version ev) info (eo_token opts) (eo_name opts) (eo_insecure_http opts) runAs) fs1)))))))"

section \<open>How far an enrollment gets\<close>

text \<open>The names of temporary files are new, and the two files are different ones.\<close>

definition fresh_names :: "enroll_env \<Rightarrow> enroll_options \<Rightarrow> file_system \<Rightarrow> bool" where
  "fresh_names ev opts fs \<longleftrightarrow> fs (ev_probe ev) = None \<and>
     fs (sv_tmp (ev_save_config ev)) = None \<and> fs (sv_tmp (ev_save_credential ev)) = None \<and>
     eo_config_file opts \<noteq> eo_credential_file opts \<and>
     {sv_tmp (ev_save_config ev), sv_tmp (ev_save_credential ev)} \<inter> {eo_config_file opts, eo_credential_file opts} = {}"

text \<open>The checks made before the request, and the client and request they end in.\<close>

definition ready :: "enroll_env \<Rightarrow> enroll_options \<Rightarrow> file_system \<Rightarrow> owner \<Rightarrow> config \<Rightarrow> client \<Rightarrow> enroll_request \<Rightarrow> bool" where
  "ready ev opts fs ow cfg api request \<longleftrightarrow>
     validate_options opts = None \<and> resolveOwner opts = Inr ow \<and> existingConfig ev opts fs = Inr cfg \<and>
     (cf_machine_id cfg = [] \<or> eo_force opts) \<and> ev_probe_fault ev = None \<and>
     New_client (ev_url ev) (ev_version ev) (eo_server_url opts) [] (eo_insecure_http opts) 0 0 = Inr api \<and>
     (\<exists>info runAs. eo_collect opts = Some info \<and> allowedUsers cfg info (eo_system opts) = Inr runAs \<and>
        request = EnrollRequest (ev_version ev) info (eo_token opts) (eo_name opts) (eo_insecure_http opts) runAs)"

lemma ensureWritable_keeps: "ensureWritable ev fs = (fs1, f) \<Longrightarrow> p \<noteq> ev_probe ev \<Longrightarrow> fs1 p = fs p"
  by (auto simp: ensureWritable_def split: option.splits if_splits)

lemma ensureWritable_ok:
  "ensureWritable ev fs = (fs1, None) \<Longrightarrow> fs (ev_probe ev) = None \<Longrightarrow> fs1 = fs \<and> ev_probe_fault ev = None"
  by (cases "ev_probe_fault ev") (auto simp: ensureWritable_def)

lemma Enroll_cases:
  assumes "fs (ev_probe ev) = None"
  obtains (stop) fs1 e where "Enroll ev opts fs = stopped fs1 e" and "\<And>p. p \<noteq> ev_probe ev \<Longrightarrow> fs1 p = fs p"
  | (go) ow cfg api request where "ready ev opts fs ow cfg api request"
      and "Enroll ev opts fs = exchange ev opts ow cfg api request fs"
proof (cases "validate_options opts")
  case (Some e)
  then have "Enroll ev opts fs = stopped fs e" by (simp add: Enroll_def)
  then show thesis by (rule stop) simp
next
  case v: None
  show thesis
  proof (cases "resolveOwner opts")
    case (Inl e)
    with v have "Enroll ev opts fs = stopped fs e" by (simp add: Enroll_def)
    then show thesis by (rule stop) simp
  next
    case ow: (Inr ow)
    show thesis
    proof (cases "existingConfig ev opts fs")
      case (Inl e)
      with v ow have "Enroll ev opts fs = stopped fs e" by (simp add: Enroll_def)
      then show thesis by (rule stop) simp
    next
      case cfg: (Inr cfg)
      obtain fs1 f where w: "ensureWritable ev fs = (fs1, f)" by (rule prod.exhaust)
      show thesis
      proof (cases "cf_machine_id cfg \<noteq> [] \<and> \<not> eo_force opts \<or> f \<noteq> None")
        case True
        with v ow cfg w have "(\<exists>e. Enroll ev opts fs = stopped fs e) \<or> (\<exists>e. Enroll ev opts fs = stopped fs1 e)"
          by (cases "cf_machine_id cfg \<noteq> [] \<and> \<not> eo_force opts") (auto simp: Enroll_def)
        then show thesis using ensureWritable_keeps [OF w] stop [of fs] stop [of fs1] by blast
      next
        case True: False
        then have "ensureWritable ev fs = (fs1, None)" using w by simp
        from this ensureWritable_ok [OF this assms]
        have w': "ensureWritable ev fs = (fs, None)" and pf: "ev_probe_fault ev = None" by simp_all
        let ?api = "New_client (ev_url ev) (ev_version ev) (eo_server_url opts) [] (eo_insecure_http opts) 0 0"
        show thesis
        proof (cases "(\<exists>api. ?api = Inr api) \<and> (\<exists>info runAs. eo_collect opts = Some info \<and>
            allowedUsers cfg info (eo_system opts) = Inr runAs)")
          case False
          then have "\<exists>e. Enroll ev opts fs = stopped fs e"
            using v ow cfg w' True by (cases ?api; cases "eo_collect opts") (auto simp: Enroll_def split: sum.split)
          then show thesis using stop by blast
        next
          case t: True
          then obtain api info runAs where a: "?api = Inr api" "eo_collect opts = Some info"
            "allowedUsers cfg info (eo_system opts) = Inr runAs" by blast
          show thesis
            by (rule go [of ow cfg api "EnrollRequest (ev_version ev) info (eo_token opts) (eo_name opts) (eo_insecure_http opts) runAs"])
              (use v ow cfg w' True pf a in \<open>auto simp: ready_def Enroll_def\<close>)
        qed
      qed
    qed
  qed
qed

lemma atomic_write_others:
  assumes "atomic_write ft tmp path data mode fs = (states, errs)" and "tmp \<noteq> path" and "fs tmp = None"
  shows "(errs = [] \<longrightarrow> last states = fs(path \<mapsto> (data, mode))) \<and>
    (errs \<noteq> [] \<longrightarrow> (\<forall>p. p \<noteq> tmp \<longrightarrow> last states p = fs p))"
  using assms
  by (auto simp: atomic_write_def clean_up_def Let_def fun_eq_iff split: option.splits if_splits)

lemma Save_config_effect:
  assumes "Save_config url_parse e path cfg fs = (fs', r)" and "sv_tmp e \<noteq> path" and "fs (sv_tmp e) = None"
  shows "(r = None \<longrightarrow> fs' = fs(path \<mapsto> (Config_String cfg, configFileMode)) \<and> Validate url_parse cfg = None) \<and>
    (r \<noteq> None \<longrightarrow> (\<forall>p. p \<noteq> sv_tmp e \<longrightarrow> fs' p = fs p))"
proof -
  obtain states errs where w: "atomic_write (sv_faults e) (sv_tmp e) path (Config_String cfg) configFileMode fs = (states, errs)"
    by (rule prod.exhaust)
  from atomic_write_others [OF w assms(2,3)] assms(1) w show ?thesis
    by (auto simp: Save_config_def split: option.splits if_splits)
qed

lemma SaveCredential_effect:
  assumes "SaveCredential e path c fs = (fs', r)" and "sv_tmp e \<noteq> path" and "fs (sv_tmp e) = None"
  shows "(r = None \<longrightarrow> fs' = fs(path \<mapsto> (c @ ''\<newline>'', credentialFileMode))) \<and>
    (r \<noteq> None \<longrightarrow> (\<forall>p. p \<noteq> sv_tmp e \<longrightarrow> fs' p = fs p))"
proof -
  obtain states errs where w: "atomic_write (sv_faults e) (sv_tmp e) path (c @ ''\<newline>'') credentialFileMode fs = (states, errs)"
    by (rule prod.exhaust)
  from atomic_write_others [OF w assms(2,3)] assms(1) w show ?thesis
    by (auto simp: SaveCredential_def split: if_splits)
qed

text \<open>The two files as an enrollment leaves them.\<close>

definition written_config :: "enroll_options \<Rightarrow> config \<Rightarrow> enroll_response \<Rightarrow> file_entry" where
  "written_config opts cfg response = (Config_String (enrolled_config cfg opts response), configFileMode)"

definition written_credential :: "credential \<Rightarrow> file_entry" where
  "written_credential c = (c @ ''\<newline>'', credentialFileMode)"

text \<open>Every file is as before, or the configuration is the new one, or both files are.\<close>

definition files_between :: "enroll_env \<Rightarrow> enroll_options \<Rightarrow> config \<Rightarrow> enroll_response \<Rightarrow> credential \<Rightarrow> file_system \<Rightarrow>
    file_system \<Rightarrow> bool" where
  "files_between ev opts cfg response c fs fs' \<longleftrightarrow>
     (\<exists>g \<in> {fs, fs(eo_config_file opts \<mapsto> written_config opts cfg response),
            fs(eo_config_file opts \<mapsto> written_config opts cfg response, eo_credential_file opts \<mapsto> written_credential c)}.
        \<forall>p. p \<noteq> sv_tmp (ev_save_config ev) \<longrightarrow> p \<noteq> sv_tmp (ev_save_credential ev) \<longrightarrow> fs' p = g p)"

lemma write_files_effect:
  assumes "fresh_names ev opts fs" and "write_files ev opts ow cfg response fs = (fs', owned, r)"
  shows "(NewCredential (es_credential response) = None \<and> fs' = fs \<and> (\<exists>e. r = Inl e)) \<or>
    (\<exists>c. NewCredential (es_credential response) = Some c \<and> files_between ev opts cfg response c fs fs' \<and>
       (\<forall>res. r = Inr res \<longrightarrow> en_machine_id res = es_machine_id response \<and>
          Validate (ev_url ev) (enrolled_config cfg opts response) = None \<and>
          fs' = fs(eo_config_file opts \<mapsto> written_config opts cfg response,
                   eo_credential_file opts \<mapsto> written_credential c)))"
proof (cases "NewCredential (es_credential response)")
  case None
  with assms(2) show ?thesis by (auto simp: write_files_def)
next
  case c: (Some c)
  have tmp: "sv_tmp (ev_save_config ev) \<noteq> eo_config_file opts" "fs (sv_tmp (ev_save_config ev)) = None"
    "sv_tmp (ev_save_credential ev) \<noteq> eo_credential_file opts" "fs (sv_tmp (ev_save_credential ev)) = None"
    "sv_tmp (ev_save_credential ev) \<noteq> eo_config_file opts"
    using assms(1) by (auto simp: fresh_names_def)
  obtain fs1 e1 where s1: "Save_config (ev_url ev) (ev_save_config ev) (eo_config_file opts)
      (enrolled_config cfg opts response) fs = (fs1, e1)" by (rule prod.exhaust)
  note f1 = Save_config_effect [OF s1 tmp(1,2)]
  show ?thesis
  proof (cases e1)
    case (Some e)
    with assms(2) c s1 have r: "fs' = fs1" "\<exists>e. r = Inl e" by (auto simp: write_files_def)
    with f1 Some have "files_between ev opts cfg response c fs fs'" by (auto simp: files_between_def)
    with c r show ?thesis by auto
  next
    case None
    have fs1: "fs1 = fs(eo_config_file opts \<mapsto> written_config opts cfg response)"
      "Validate (ev_url ev) (enrolled_config cfg opts response) = None" using f1 None by (auto simp: written_config_def)
    obtain fs2 e2 where s2: "SaveCredential (ev_save_credential ev) (eo_credential_file opts) c fs1 = (fs2, e2)"
      by (rule prod.exhaust)
    have "fs1 (sv_tmp (ev_save_credential ev)) = None" using fs1(1) tmp by simp
    note f2 = SaveCredential_effect [OF s2 tmp(3) this]
    obtain dn e3 where o: "owner_apply ev ow (eo_system opts) [eo_config_file opts, eo_credential_file opts] = (dn, e3)"
      by (rule prod.exhaust)
    have r: "fs' = fs2" "\<And>res. r = Inr res \<Longrightarrow> e2 = None \<and> en_machine_id res = es_machine_id response"
      using assms(2) c s1 s2 o None by (auto simp: write_files_def split: option.splits)
    show ?thesis
    proof (cases e2)
      case (Some e)
      with f2 fs1(1) r have "files_between ev opts cfg response c fs fs'" by (auto simp: files_between_def)
      with c r Some show ?thesis by blast
    next
      case None
      then have "fs' = fs1(eo_credential_file opts \<mapsto> written_credential c)"
        using f2 r by (simp add: written_credential_def)
      then have eq: "fs' = fs(eo_config_file opts \<mapsto> written_config opts cfg response,
          eo_credential_file opts \<mapsto> written_credential c)" unfolding fs1(1) .
      then have "files_between ev opts cfg response c fs fs'" unfolding files_between_def by blast
      with c r eq fs1(2) show ?thesis by blast
    qed
  qed
qed

section \<open>Properties\<close>

text \<open>C17: What an enrollment does to the token and to the files. As long as nothing is sent it only leaves
  an error and touches no file but its probe. It sends the token only after every local check has
  passed: the options are complete, the owner exists, the machine is not enrolled yet or force is given,
  the directory can be written, the URL is acceptable and every execution user may be used. If it
  succeeds, both files hold exactly what the Server answered, on top of the settings that were there;
  if it fails after the exchange, every file is whole: the old one or the new one, the credential never
  new without the configuration.\<close>

theorem enroll_outcome:
  assumes "fresh_names ev opts fs"
  defines "r \<equiv> Enroll ev opts fs"
  shows "(el_sent r = None \<longrightarrow> (\<exists>e. el_result r = Inl e) \<and> el_owned r = [] \<and> (\<forall>p. p \<noteq> ev_probe ev \<longrightarrow> el_files r p = fs p)) \<and>
    (\<forall>request. el_sent r = Some request \<longrightarrow>
       (\<exists>ow cfg api. ready ev opts fs ow cfg api request \<and> eq_token request = eo_token opts \<and>
          (el_files r = fs \<and> (\<exists>e. el_result r = Inl e) \<or>
           (\<exists>response c. snd (Enroll_call (ev_web ev) (ev_encode ev) (ev_decode ev) request api) = Inr response \<and>
              NewCredential (es_credential response) = Some c \<and> files_between ev opts cfg response c fs (el_files r) \<and>
              (\<forall>res. el_result r = Inr res \<longrightarrow> en_machine_id res = es_machine_id response \<and>
                 Validate (ev_url ev) (enrolled_config cfg opts response) = None \<and>
                 el_files r = fs(eo_config_file opts \<mapsto> written_config opts cfg response,
                                 eo_credential_file opts \<mapsto> written_credential c))))))"
proof -
  have "fs (ev_probe ev) = None" using assms(1) by (simp add: fresh_names_def)
  then show ?thesis
  proof (cases rule: Enroll_cases [where opts = opts])
    case (stop fs1 e)
    then show ?thesis by (simp add: r_def stopped_def)
  next
    case (go ow cfg api request)
    have tok: "eq_token request = eo_token opts" using go(1) by (auto simp: ready_def EnrollRequest_def)
    show ?thesis
    proof (cases "snd (Enroll_call (ev_web ev) (ev_encode ev) (ev_decode ev) request api)")
      case (Inl err)
      with go tok show ?thesis by (auto simp: r_def exchange_def)
    next
      case (Inr response)
      obtain fs' owned q where w: "write_files ev opts ow cfg response fs = (fs', owned, q)" by (rule prod_cases3)
      have r: "el_sent r = Some request" "el_files r = fs'" "el_result r = q"
        using go(2) Inr w by (simp_all add: r_def exchange_def)
      from write_files_effect [OF assms(1) w] go(1) tok Inr r show ?thesis by simp blast
    qed
  qed
qed

section \<open>An enrollment\<close>

definition sample_enroll_env :: enroll_env where
  "sample_enroll_env = \<lparr>ev_url = sample_url, ev_version = ''dev'',
     ev_web = (sample_web 200), ev_encode = (\<lambda>_. Some ''{}''),
     ev_decode = (\<lambda>_. Some \<lparr>es_machine_id = ''m1'', es_credential = ''omj_agent_x'', es_server_time = 0\<rparr>),
     ev_read_fails = False, ev_probe = ''/etc/.enroll-1'', ev_probe_fault = None,
     ev_save_config = sample_save, ev_save_credential = sample_save, ev_denied = (\<lambda>_. False),
     ev_certificate = (\<lambda>_. False), ev_duration = (\<lambda>_. [])\<rparr>"

definition sample_options :: enroll_options where
  "sample_options = \<lparr>eo_server_url = ''https://omj.example'', eo_token = ''omj_enroll_t'', eo_name = [],
     eo_insecure_http = False, eo_user = [], eo_force = False, eo_config_dir = ''/etc'',
     eo_config_file = ''/etc/a'', eo_credential_file = ''/etc/c'',
     eo_collect = Some \<lparr>si_hostname = [], si_os = ''linux'', si_os_version = [], si_arch = [], si_kernel_version = [],
       si_reported_ips = [], si_agent_user = ''u'', si_agent_uid = 7\<rparr>,
     eo_system = \<lparr>sm_uid = 7, sm_username = ''u'', sm_users = (\<lambda>_. None), sm_chown = (\<lambda>_ _ _. False),
       sm_unit_there = False\<rparr>\<rparr>"

lemma sample_exchange:
  "snd (Enroll_call (ev_web sample_enroll_env) (ev_encode sample_enroll_env) (ev_decode sample_enroll_env) req api) =
     Inr \<lparr>es_machine_id = ''m1'', es_credential = ''omj_agent_x'', es_server_time = 0\<rparr>"
  by (simp add: Enroll_call_def call_def newRequest_def sample_enroll_env_def sample_web_def sample_response_def
      readBody_def MaxResponseBytes_def Let_def)

lemma sample_credential: "NewCredential ''omj_agent_x'' = Some ''omj_agent_x''"
  by (simp add: NewCredential_def TrimSpace_graphic graphic_def HasPrefix_def CredentialPrefix_def)

definition sample_request :: enroll_request where
  "sample_request = EnrollRequest ''dev'' (the (eo_collect sample_options)) ''omj_enroll_t'' [] False [''u'']"

definition sample_api :: client where
  "sample_api = \<lparr>cl_base_url = ''https://omj.example/api/agent/v1'', cl_credential = [], cl_agent_version = ''dev'',
     cl_user_agent = ''omj-agent/dev'', cl_timeout = DefaultTimeout, cl_headroom = LongPollHeadroom, cl_server_version = []\<rparr>"

lemma sample_enroll:
  assumes "existingConfig sample_enroll_env sample_options fs = Inr cfg" and "cf_machine_id cfg = []" and "cf_run_as_allowed cfg = []"
    and "fs (ev_probe sample_enroll_env) = None"
  shows "Enroll sample_enroll_env sample_options fs =
    exchange sample_enroll_env sample_options (own_files ''u'') cfg sample_api sample_request fs"
proof -
  have "validate_options sample_options = None" and "resolveOwner sample_options = Inr (own_files ''u'')"
    by (simp_all add: validate_options_def resolveOwner_def sample_options_def TokenPrefix_def HasPrefix_def)
  moreover have "ensureWritable sample_enroll_env fs = (fs, None)"
    using assms(4) by (auto simp: ensureWritable_def sample_enroll_env_def)
  moreover have "New_client (ev_url sample_enroll_env) (ev_version sample_enroll_env) (eo_server_url sample_options) []
      (eo_insecure_http sample_options) 0 0 = Inr sample_api"
    by (simp add: New_client_def sample_enroll_env_def sample_options_def sample_url_def sample_api_def trim_slashes_def BasePath_def)
  moreover have "allowedUsers cfg (the (eo_collect sample_options)) (eo_system sample_options) = Inr [''u'']"
    using assms(3) by (simp add: allowedUsers_def ResolveRunAs_def Names_def sample_options_def)
  ultimately show ?thesis using assms(1-3)
    by (simp add: Enroll_def sample_request_def) (simp add: sample_options_def sample_enroll_env_def)
qed

lemma sample_write:
  assumes "fs ''/etc/.tmp'' = None"
  shows "write_files sample_enroll_env sample_options (own_files ''u'') cfg
      \<lparr>es_machine_id = ''m1'', es_credential = ''omj_agent_x'', es_server_time = 0\<rparr> fs =
    (case Validate sample_url (cfg\<lparr>cf_server_url := ''https://omj.example'', cf_machine_id := ''m1'', cf_insecure_http := False\<rparr>) of
       Some e \<Rightarrow> (fs, [], Inl (enroll_error ReasonUnknown (FsMessage (FsSaveConfig (InvalidConfig e)))))
     | None \<Rightarrow> (fs(''/etc/a'' \<mapsto> (Config_String (cfg\<lparr>cf_server_url := ''https://omj.example'', cf_machine_id := ''m1'',
           cf_insecure_http := False\<rparr>), configFileMode), ''/etc/c'' \<mapsto> (''omj_agent_x'' @ ''\<newline>'', credentialFileMode)), [],
         Inr \<lparr>en_machine_id = ''m1'', en_config_file = ''/etc/a'', en_credential_file = ''/etc/c'', en_owner = ''u'',
           en_next_step = ''omj-agent run''\<rparr>))"
  using assms
  by (simp add: write_files_def sample_credential Save_config_def SaveCredential_def enrolled_config_def sample_save_def
      sample_enroll_env_def sample_options_def atomic_write_def no_faults_def credential_is_zero_def own_files_def
      nextStep_def classifyFilesystem_def Let_def fun_upd_twist fun_eq_iff split: option.split)

lemma sample_validate:
  "Validate sample_url (Default\<lparr>cf_server_url := ''https://omj.example'', cf_machine_id := ''m1'',
     cf_insecure_http := False, cf_log_level := l\<rparr>) = (if l \<in> set logLevels then None else Some (BadLogLevel l))"
  by (simp add: Validate_def validateServerURL_def sample_url_def Default_def minConcurrentRuns_def
      maxConcurrentRuns_def validateRunAsAllowed_def)

lemma sample_enrolled:
  "\<exists>res. el_result (Enroll sample_enroll_env sample_options Map.empty) = Inr res \<and> en_machine_id res = ''m1''"
proof -
  let ?r = "\<lparr>es_machine_id = ''m1'', es_credential = ''omj_agent_x'', es_server_time = 0\<rparr>"
  have "existingConfig sample_enroll_env sample_options Map.empty = Inr Default" by (simp add: existingConfig_def)
  from sample_enroll [OF this] have "Enroll sample_enroll_env sample_options Map.empty =
      exchange sample_enroll_env sample_options (own_files ''u'') Default sample_api sample_request Map.empty"
    by (simp add: Default_def)
  moreover have "Validate sample_url (Default\<lparr>cf_server_url := ''https://omj.example'', cf_machine_id := ''m1'',
      cf_insecure_http := False\<rparr>) = None"
    using sample_validate [of "''info''"] by (simp add: Default_def logLevels_def)
  ultimately show ?thesis using sample_exchange sample_write [of Map.empty Default]
    by (simp add: exchange_def)
qed

text \<open>
  What is read back is not validated before the token is sent: with a file that parses but holds a
  value that is not allowed, the exchange takes place, and only then does saving the configuration
  fail, with no credential written. The token is spent and the machine has to be enrolled again.
\<close>

lemma enroll_spends_token:
  defines "r \<equiv> Enroll sample_enroll_env sample_options [''/etc/a'' \<mapsto> (setting ''log_level'' ''loud'', 416)]"
  shows "el_sent r = Some sample_request \<and> el_files r ''/etc/c'' = None \<and>
    el_result r = Inl (enroll_error ReasonUnknown (FsMessage (FsSaveConfig (InvalidConfig (BadLogLevel ''loud'')))))"
proof -
  let ?fs = "[''/etc/a'' \<mapsto> (setting ''log_level'' ''loud'', 416)]"
  let ?cfg = "Default\<lparr>cf_log_level := ''loud''\<rparr>"
  have "Parse (concat (map (\<lambda>(k, v). setting k v) [(''log_level'', ''loud'')])) = Inr (config_of (map_of [(''log_level'', ''loud'')]))"
    by (rule Parse_settings) (simp_all add: known_keys_def good_entry_def graphic_plain graphic_def)
  then have "Parse (setting ''log_level'' ''loud'') = Inr ?cfg" by (simp add: config_of_def field_def Default_def)
  then have "existingConfig sample_enroll_env sample_options ?fs = Inr ?cfg"
    by (simp add: existingConfig_def sample_options_def sample_enroll_env_def)
  from sample_enroll [OF this] have "r =
      exchange sample_enroll_env sample_options (own_files ''u'') ?cfg sample_api sample_request ?fs"
    by (simp add: Default_def r_def sample_enroll_env_def)
  moreover have "Validate sample_url (?cfg\<lparr>cf_server_url := ''https://omj.example'', cf_machine_id := ''m1'',
      cf_insecure_http := False\<rparr>) = Some (BadLogLevel ''loud'')"
    using sample_validate [of "''loud''"] by (simp add: Default_def logLevels_def)
  ultimately show ?thesis using sample_exchange sample_write [of ?fs ?cfg] by (simp add: exchange_def)
qed

theorem enroll_outcome_witness:
  "\<exists>cfg response c res. el_result (Enroll sample_enroll_env sample_options Map.empty) = Inr res \<and>
     en_machine_id res = ''m1'' \<and> NewCredential (es_credential response) = Some c \<and>
     el_files (Enroll sample_enroll_env sample_options Map.empty) =
       [''/etc/a'' \<mapsto> written_config sample_options cfg response, ''/etc/c'' \<mapsto> written_credential c]"
proof -
  have f: "fresh_names sample_enroll_env sample_options Map.empty"
    by (simp add: fresh_names_def sample_enroll_env_def sample_options_def sample_save_def)
  obtain res where r: "el_result (Enroll sample_enroll_env sample_options Map.empty) = Inr res" "en_machine_id res = ''m1''"
    using sample_enrolled by blast
  have p: "eo_config_file sample_options = ''/etc/a''" "eo_credential_file sample_options = ''/etc/c''"
    by (simp_all add: sample_options_def)
  show ?thesis
  proof (cases "el_sent (Enroll sample_enroll_env sample_options Map.empty)")
    case None
    with enroll_outcome [OF f] r(1) show ?thesis by auto
  next
    case (Some request)
    with enroll_outcome [OF f] r p show ?thesis by fastforce
  qed
qed

end
