(* ===== verification/Agent_Stop.thy ===== *)
theory Agent_Stop
  imports Agent_Lease
begin

text \<open>
  \<open>New\<close> and \<open>Run\<close> of \<open>internal/agent/agent.go\<close> and \<open>signals.go\<close>: what an agent starts from, and how
  it stops. The poll loop, the goroutine that watches the signals and the reporters run side by side;
  each atomic step of one of them is a rule of a step relation. Time is not modelled: the stop budget
  may run out at any moment of the wait.
\<close>

section \<open>New\<close>

text \<open>The parts of \<open>Options\<close> that are state here; \<open>None\<close> and \<open>False\<close> stand for nil. The clock, the
  backoff, the sleeper and the ticker are arguments of the operations that use them.\<close>

record agent_options =
  op_config :: config
  op_run_as_allowed :: "string list"
  op_client :: bool
  op_info :: sys_info
  op_store :: "disk_store option"
  op_runner :: runner
  op_buffer :: "buffer option"
  op_stop_budget :: duration

datatype new_error = MissingParts | NoMachineID

definition New_agent :: "agent_options \<Rightarrow> new_error + (agent \<times> duration)" where
  "New_agent op =
     (case (op_client op, op_store op, op_buffer op) of
        (True, Some store, Some b) \<Rightarrow>
          if cf_machine_id (op_config op) = [] then Inl NoMachineID
          else Inr (\<lparr>ag_cfg = op_config op, ag_run_as_allowed = op_run_as_allowed op, ag_info = op_info op,
                  ag_runner = op_runner op, ag_settings = DefaultSettings, ag_registry = [], ag_rejected = [],
                  ag_backoff = new_backoff, ag_store = store, ag_buffer = b, ag_executed = []\<rparr>,
                if op_stop_budget op \<le> 0 then DefaultStopBudget else op_stop_budget op)
      | _ \<Rightarrow> Inl MissingParts)"

section \<open>Run\<close>

text \<open>\<open>ErrForcedStop\<close> is the only error \<open>Run\<close> returns.\<close>

datatype phase = Polling | Draining | Returned (forced_stop: bool)

datatype watcher = Listening | Heard | AllCancelled | StoppedClosed | ListeningAgain | WatcherDone

record stopping =
  so_agent :: agent
  so_runs :: nat
  so_phase :: phase
  so_watcher :: watcher
  so_pending :: nat
  so_heard :: nat
  so_stopped :: bool
  so_forced :: bool
  so_poll_stopped :: bool
  so_parent_done :: bool
  so_reports_stopped :: bool
  so_drained :: bool
  so_saved :: bool

text \<open>
  \<open>so_pending\<close> are the signals in the channel, whose capacity is 2; \<open>so_runs\<close> is the wait group of
  the reporters; \<open>so_heard\<close>, \<open>so_drained\<close> and \<open>so_saved\<close> record what happened. \<open>Run\<close> begins with
  \<open>adopt\<close> and \<open>reconcile\<close>, which starts a reporter for each Run that was left active.
\<close>

definition Run_start :: "store_env \<Rightarrow> store_env list \<Rightarrow> agent \<Rightarrow> stopping" where
  "Run_start e es a =
     (let a1 = adopt e a
      in \<lparr>so_agent = reconcile es a1, so_runs = length (Active (fst (ag_store a1))), so_phase = Polling,
          so_watcher = Listening, so_pending = 0, so_heard = 0, so_stopped = False, so_forced = False,
          so_poll_stopped = False, so_parent_done = False, so_reports_stopped = False, so_drained = False,
          so_saved = False\<rparr>)"

text \<open>What may happen to the Runs of the registry without the stop: their processes make steps.\<close>

definition run_moves :: "run \<Rightarrow> run \<Rightarrow> bool" where
  "run_moves r r' \<longleftrightarrow> ar_lease r' = ar_lease r \<and>
     (case ar_process r of None \<Rightarrow> ar_process r' = None
      | Some p \<Rightarrow> \<exists>q. ar_process r' = Some q \<and> preach p q)"

text \<open>\<open>drain\<close> when its wait is over: the state is saved, and the reporters are stopped unless all are done.\<close>

definition drain_end :: "bool \<Rightarrow> bool \<Rightarrow> stopping \<Rightarrow> stopping" where
  "drain_end all_reported forced s =
     s\<lparr>so_phase := Returned forced, so_saved := True,
       so_reports_stopped := (if all_reported then so_reports_stopped s else True)\<rparr>"

text \<open>The select after the poll loop: \<open>drain\<close> begins with a second \<open>cancelAll\<close>.\<close>

definition poll_ended :: "stopping \<Rightarrow> stopping" where
  "poll_ended s =
     (if so_stopped s then s\<lparr>so_phase := Draining, so_drained := True, so_agent := cancelAll (so_agent s)\<rparr>
      else s\<lparr>so_phase := Returned False\<rparr>)"

text \<open>The first argument tells the steps of the stop itself from those of the rest of the agent.\<close>

inductive stop_step :: "bool \<Rightarrow> stopping \<Rightarrow> stopping \<Rightarrow> bool" where
  arrives: "stop_step False s (s\<lparr>so_pending := min 2 (so_pending s + 1)\<rparr>)"
| parent: "stop_step False s (s\<lparr>so_parent_done := True\<rparr>)"
| launches: "so_phase s = Polling \<Longrightarrow>
    stop_step False s (s\<lparr>so_agent := launch r (so_agent s), so_runs := so_runs s + 1\<rparr>)"
| progress: "ag_registry a = map g (ag_registry (so_agent s)) \<Longrightarrow> (\<And>r. run_moves r (g r)) \<Longrightarrow>
    stop_step False s (s\<lparr>so_agent := a\<rparr>)"
| reported: "so_runs s > 0 \<Longrightarrow> ag_registry a = reg_remove i (ag_registry (so_agent s)) \<Longrightarrow>
    stop_step False s (s\<lparr>so_agent := a, so_runs := so_runs s - 1\<rparr>)"
| hears: "so_watcher s = Listening \<Longrightarrow> so_pending s > 0 \<Longrightarrow>
    stop_step True s (s\<lparr>so_watcher := Heard, so_pending := so_pending s - 1, so_heard := so_heard s + 1\<rparr>)"
| cancels_all: "so_watcher s = Heard \<Longrightarrow>
    stop_step True s (s\<lparr>so_watcher := AllCancelled, so_agent := cancelAll (so_agent s)\<rparr>)"
| closes_stopped: "so_watcher s = AllCancelled \<Longrightarrow>
    stop_step True s (s\<lparr>so_watcher := StoppedClosed, so_stopped := True\<rparr>)"
| stops_polling: "so_watcher s = StoppedClosed \<Longrightarrow>
    stop_step True s (s\<lparr>so_watcher := ListeningAgain, so_poll_stopped := True\<rparr>)"
| hears_again: "so_watcher s = ListeningAgain \<Longrightarrow> so_pending s > 0 \<Longrightarrow>
    stop_step True s (s\<lparr>so_watcher := WatcherDone, so_pending := so_pending s - 1,
      so_heard := so_heard s + 1, so_forced := True\<rparr>)"
| watcher_ends: "so_phase s = Returned x \<Longrightarrow> so_watcher s = Listening \<or> so_watcher s = ListeningAgain \<Longrightarrow>
    stop_step True s (s\<lparr>so_watcher := WatcherDone\<rparr>)"
| poll_ends: "so_phase s = Polling \<Longrightarrow> so_poll_stopped s \<or> so_parent_done s \<Longrightarrow> stop_step True s (poll_ended s)"
| finished: "so_phase s = Draining \<Longrightarrow> so_runs s = 0 \<Longrightarrow> stop_step True s (drain_end True False s)"
| out_of_budget: "so_phase s = Draining \<Longrightarrow> stop_step True s (drain_end False False s)"
| forced: "so_phase s = Draining \<Longrightarrow> so_forced s \<Longrightarrow> stop_step True s (drain_end False True s)"

inductive_cases stop_stepE: "stop_step own s t"

inductive stops :: "stopping \<Rightarrow> stopping \<Rightarrow> bool" for s where
  here: "stops s s"
| step: "stops s t \<Longrightarrow> stop_step own t u \<Longrightarrow> stops s u"

section \<open>Processes that are told to stop\<close>

definition run_settled :: "run \<Rightarrow> bool" where
  "run_settled r \<longleftrightarrow> (\<forall>p. ar_process r = Some p \<longrightarrow> settled p)"

lemma Cancel_settled: "settled (Cancel reason p)"
  by (cases "ps_exited p \<or> ps_terminating p") (simp_all add: Cancel_def terminate_def settled_def)

lemma cancel_run_settled: "run_settled (cancel_run reason r)"
  by (auto simp: run_settled_def cancel_run_def Cancel_settled)

lemma cancelAll_settled: "list_all run_settled (ag_registry (cancelAll a))"
  by (simp add: cancelAll_def list_all_iff cancel_run_settled)

lemma run_moves_settled: "run_moves r r' \<Longrightarrow> run_settled r \<Longrightarrow> run_settled r'"
  using settled_reach by (fastforce simp: run_moves_def run_settled_def split: option.splits)

lemma moves_settled: "(\<And>r. run_moves r (g r)) \<Longrightarrow> list_all run_settled rs \<Longrightarrow> list_all run_settled (map g rs)"
  using run_moves_settled by (auto simp: list_all_iff)

lemma removed_settled: "list_all run_settled rs \<Longrightarrow> list_all run_settled (reg_remove i rs)"
  using set_reg_remove by (fastforce simp: list_all_iff)

section \<open>The invariant\<close>

definition stop_inv :: "stopping \<Rightarrow> bool" where
  "stop_inv s \<longleftrightarrow>
     (so_forced s \<longrightarrow> 2 \<le> so_heard s \<and> so_watcher s = WatcherDone) \<and>
     (so_stopped s \<longrightarrow> 1 \<le> so_heard s) \<and>
     (so_watcher s \<in> {Heard, AllCancelled, StoppedClosed, ListeningAgain} \<longrightarrow> 1 \<le> so_heard s) \<and>
     (so_watcher s \<in> {StoppedClosed, ListeningAgain} \<longrightarrow> so_stopped s) \<and>
     (so_watcher s = ListeningAgain \<longrightarrow> so_poll_stopped s) \<and>
     (so_forced s \<longrightarrow> so_poll_stopped s) \<and>
     (so_watcher s = Listening \<longrightarrow> so_heard s = 0) \<and>
     (so_watcher s = WatcherDone \<longrightarrow> so_forced s \<or> so_phase s \<in> {Returned True, Returned False}) \<and>
     (so_phase s = Draining \<longrightarrow> so_drained s \<and> so_stopped s) \<and>
     (so_drained s \<longrightarrow> so_stopped s \<and> so_phase s \<noteq> Polling \<and> list_all run_settled (ag_registry (so_agent s))) \<and>
     (so_drained s \<and> so_phase s \<noteq> Draining \<longrightarrow> so_saved s) \<and>
     (so_phase s = Returned True \<longrightarrow> so_forced s \<and> so_drained s \<and> so_reports_stopped s) \<and>
     (so_phase s = Returned False \<and> so_drained s \<and> \<not> so_reports_stopped s \<longrightarrow> so_runs s = 0) \<and>
     (so_poll_stopped s \<longrightarrow> so_stopped s)"

lemma stop_inv_step: "stop_step own s t \<Longrightarrow> stop_inv s \<Longrightarrow> stop_inv t"
proof (induction rule: stop_step.induct)
  case (progress a g s)
  then show ?case using moves_settled [of g "ag_registry (so_agent s)"] by (simp add: stop_inv_def)
next
  case (reported s a i)
  then show ?case using removed_settled [of "ag_registry (so_agent s)" i] by (auto simp: stop_inv_def)
next
  case (poll_ends s)
  then show ?case by (cases "so_stopped s") (auto simp: stop_inv_def poll_ended_def cancelAll_settled)
qed (auto simp: stop_inv_def drain_end_def cancelAll_settled)

lemma stop_inv_start: "stop_inv (Run_start e es a)"
  by (simp add: stop_inv_def Run_start_def Let_def)

lemma stops_inv: "stops s t \<Longrightarrow> stop_inv s \<Longrightarrow> stop_inv t"
  by (induction rule: stops.induct) (auto intro: stop_inv_step)

lemma stop_inv_returned:
  assumes "stop_inv s" and "so_phase s = Returned f" and "so_drained s"
  shows "so_saved s \<and> (so_reports_stopped s \<or> so_runs s = 0)"
proof -
  have "so_phase s \<noteq> Draining" using assms(2) by simp
  then have "so_saved s" using assms(1,3) unfolding stop_inv_def by blast
  moreover have "so_reports_stopped s \<or> so_runs s = 0"
    using assms unfolding stop_inv_def by (cases f) metis+
  ultimately show ?thesis ..
qed

section \<open>Steps of the stop come to an end\<close>

definition watcher_rank :: "watcher \<Rightarrow> nat" where
  "watcher_rank w = (case w of Listening \<Rightarrow> 5 | Heard \<Rightarrow> 4 | AllCancelled \<Rightarrow> 3 | StoppedClosed \<Rightarrow> 2
     | ListeningAgain \<Rightarrow> 1 | WatcherDone \<Rightarrow> 0)"

definition phase_rank :: "phase \<Rightarrow> nat" where
  "phase_rank p = (case p of Polling \<Rightarrow> 2 | Draining \<Rightarrow> 1 | Returned _ \<Rightarrow> 0)"

definition stop_rank :: "stopping \<Rightarrow> nat" where
  "stop_rank s = watcher_rank (so_watcher s) + phase_rank (so_phase s)"

lemma rank_simps [simp]:
  "watcher_rank Listening = 5" "watcher_rank Heard = 4" "watcher_rank AllCancelled = 3"
  "watcher_rank StoppedClosed = 2" "watcher_rank ListeningAgain = 1" "watcher_rank WatcherDone = 0"
  "phase_rank Polling = 2" "phase_rank Draining = 1" "phase_rank (Returned x) = 0"
  by (simp_all add: watcher_rank_def phase_rank_def)

lemma stop_step_rank: "stop_step own s t \<Longrightarrow> (if own then stop_rank t < stop_rank s else stop_rank t = stop_rank s)"
  by (induction rule: stop_step.induct) (auto simp: stop_rank_def poll_ended_def drain_end_def)

lemma stop_progress:
  assumes "stop_inv s" and "1 \<le> so_heard s \<or> so_pending s > 0" and "\<nexists>x. so_phase s = Returned x"
  shows "\<exists>t. stop_step True s t"
proof (cases "so_phase s")
  case Polling
  show ?thesis
  proof (cases "so_watcher s")
    case Listening
    with assms(1,2) have "so_pending s > 0" by (auto simp: stop_inv_def)
    with Listening show ?thesis by (blast intro: hears)
  next
    case ListeningAgain
    with assms(1) Polling show ?thesis by (auto simp: stop_inv_def intro: poll_ends)
  next
    case WatcherDone
    with assms(1) Polling show ?thesis by (auto simp: stop_inv_def intro: poll_ends)
  qed (blast intro: cancels_all closes_stopped stops_polling)+
next
  case Draining
  then show ?thesis by (blast intro: out_of_budget)
qed (use assms(3) in simp)

section \<open>Properties\<close>


text \<open>C16: A stop comes to an end. From the arrival of a signal until \<open>Run\<close> has returned some step of the
  stop is always possible, whatever else happens; each such step brings the return nearer and no other
  step takes it further away, and seven of them are the most there are.\<close>

theorem stop_returns:
  assumes "stops (Run_start e es a) s"
  shows "(1 \<le> so_heard s \<or> so_pending s > 0 \<longrightarrow> (\<exists>f. so_phase s = Returned f) \<or> (\<exists>t. stop_step True s t)) \<and>
    (\<forall>t. stop_step True s t \<longrightarrow> stop_rank t < stop_rank s) \<and> (\<forall>t. stop_step False s t \<longrightarrow> stop_rank t = stop_rank s) \<and>
    stop_rank s \<le> 7"
proof -
  have i: "stop_inv s" by (rule stops_inv [OF assms stop_inv_start])
  have "stop_rank s \<le> 7" by (cases "so_watcher s"; cases "so_phase s") (simp_all add: stop_rank_def)
  moreover have "stop_rank t < stop_rank s" if "stop_step True s t" for t using stop_step_rank [OF that] by simp
  moreover have "stop_rank t = stop_rank s" if "stop_step False s t" for t using stop_step_rank [OF that] by simp
  moreover have "(\<exists>f. so_phase s = Returned f) \<or> (\<exists>t. stop_step True s t)" if "1 \<le> so_heard s \<or> so_pending s > 0"
    using stop_progress [OF i that] by blast
  ultimately show ?thesis by simp
qed

section \<open>Witnesses\<close>

text \<open>Two signals, handled before the reporters are done.\<close>

definition two_signals :: "stopping \<Rightarrow> stopping" where
  "two_signals s = s\<lparr>so_agent := cancelAll (so_agent s), so_stopped := True, so_poll_stopped := True,
     so_watcher := WatcherDone, so_pending := 0, so_heard := 2, so_forced := True\<rparr>"

lemma two_signals_reached: "stops (Run_start e es a) (two_signals (Run_start e es a))"
proof -
  let ?s = "Run_start e es a"
  let ?s1 = "?s\<lparr>so_pending := 1\<rparr>"
  let ?s2 = "?s1\<lparr>so_pending := 2\<rparr>"
  let ?s3 = "?s2\<lparr>so_watcher := Heard, so_pending := 1, so_heard := 1\<rparr>"
  let ?s4 = "?s3\<lparr>so_watcher := AllCancelled, so_agent := cancelAll (so_agent ?s3)\<rparr>"
  let ?s5 = "?s4\<lparr>so_watcher := StoppedClosed, so_stopped := True\<rparr>"
  let ?s6 = "?s5\<lparr>so_watcher := ListeningAgain, so_poll_stopped := True\<rparr>"
  have f: "so_watcher ?s = Listening" "so_pending ?s = 0" "so_heard ?s = 0" by (simp_all add: Run_start_def Let_def)
  have "stop_step False ?s ?s1" using arrives [of ?s] f by simp
  moreover have "stop_step False ?s1 ?s2" using arrives [of ?s1] by (simp add: numeral_2_eq_2)
  moreover have "stop_step True ?s2 ?s3" using hears [of ?s2] f by simp
  moreover have "stop_step True ?s3 ?s4" using cancels_all [of ?s3] by simp
  moreover have "stop_step True ?s4 ?s5" using closes_stopped [of ?s4] by simp
  moreover have "stop_step True ?s5 ?s6" using stops_polling [of ?s5] by simp
  moreover have "stop_step True ?s6 (two_signals ?s)" using hears_again [of ?s6] by (simp add: two_signals_def numeral_2_eq_2)
  ultimately show ?thesis by (meson here step)
qed

lemma two_signals_facts:
  "so_phase (two_signals (Run_start e es a)) = Polling" "so_stopped (two_signals s)" "so_poll_stopped (two_signals s)"
  "so_forced (two_signals s)" "so_heard (two_signals s) = 2"
  by (simp_all add: two_signals_def Run_start_def Let_def)


theorem stop_returns_witness:
  "\<forall>e es a. \<exists>s t. stops (Run_start e es a) s \<and> so_heard s = 2 \<and> stop_step True s t \<and> stop_rank t < stop_rank s"
proof (intro allI)
  fix e es a
  let ?s = "two_signals (Run_start e es a)"
  note r = stop_returns [OF two_signals_reached, of e es a]
  have "so_phase ?s = Polling" and h: "so_heard ?s = 2" by (rule two_signals_facts)+
  with conjunct1 [OF r] obtain t where t: "stop_step True ?s t" by auto
  with r have "stop_rank t < stop_rank ?s" by blast
  with t h show "\<exists>s t. stops (Run_start e es a) s \<and> so_heard s = 2 \<and> stop_step True s t \<and> stop_rank t < stop_rank s"
    using two_signals_reached by blast
qed

end
