(* ===== verification/Doctor.thy ===== *)
theory Doctor
  imports Enroll Discovery_Timers State_Store
begin

text \<open>
  \<open>internal/doctor\<close>: the checks of an installation, shared by the commands \<open>status\<close> and \<open>doctor\<close>. What
  the machine, systemd and the Server answer is a record, the \<open>Host\<close> of the code; the texts of errors
  are among its fields.
\<close>

section \<open>Results of checks\<close>

datatype status = Pass | Warn | Fail

text \<open>A status is worse than another in the order the report reads: pass, warning, failure.\<close>

fun severity :: "status \<Rightarrow> nat" where
  "severity Pass = 0"
| "severity Warn = 1"
| "severity Fail = 2"

lemma severity_inject: "severity s = severity t \<longleftrightarrow> s = t"
  by (cases s; cases t) simp_all

instantiation status :: linorder
begin

definition less_eq_status :: "status \<Rightarrow> status \<Rightarrow> bool" where
  "less_eq_status s t \<longleftrightarrow> severity s \<le> severity t"

definition less_status :: "status \<Rightarrow> status \<Rightarrow> bool" where
  "less_status s t \<longleftrightarrow> severity s < severity t"

instance
  by standard (auto simp: less_eq_status_def less_status_def severity_inject)

end

lemma Fail_top: "s \<le> Fail"
  by (cases s) (simp_all add: less_eq_status_def)

record check =
  ch_name :: string
  ch_status :: status
  ch_detail :: string

abbreviation Check :: "string \<Rightarrow> status \<Rightarrow> string \<Rightarrow> check" where
  "Check n s d \<equiv> \<lparr>ch_name = n, ch_status = s, ch_detail = d\<rparr>"

definition Report_Failed :: "check list \<Rightarrow> bool" where
  "Report_Failed checks \<longleftrightarrow> list_ex (\<lambda>c. ch_status c = Fail) checks"

definition worst :: "check list \<Rightarrow> status" where
  "worst checks = Max (insert Pass (set (map ch_status checks)))"

lemma worst_Fail: "worst checks = Fail \<longleftrightarrow> Report_Failed checks"
proof -
  have "worst checks = Fail \<longleftrightarrow> Fail \<in> insert Pass (set (map ch_status checks))"
    unfolding worst_def by (subst Max_eq_iff) (auto simp: Fail_top)
  then show ?thesis by (simp add: Report_Failed_def list_ex_iff image_iff) metis
qed

section \<open>The host\<close>

definition MaxClockSkew :: duration where "MaxClockSkew = 30 * second"
definition doctor_unit :: string where "doctor_unit = ''omj-agent''"
definition hardeningDirectives :: "string list" where
  "hardeningDirectives = [''NoNewPrivileges'', ''PrivateTmp'', ''ProtectSystem'', ''ProtectHome'']"

record texts =
  tx_error :: "gerror \<Rightarrow> string"
  tx_client :: "client_error \<Rightarrow> string"
  tx_run_as :: "run_as_error \<Rightarrow> string"
  tx_duration :: "duration \<Rightarrow> string"
  tx_certificate :: "gerror \<Rightarrow> string option"

text \<open>\<open>hs_systemctl args\<close> is the output of \<open>systemctl\<close>, trimmed, with the error if it failed;
  \<open>hs_state_stat\<close> and \<open>hs_state_probe\<close> are the errors of looking at the state directory and of creating
  a file in it.\<close>

record doctor_host =
  hs_config_file :: string
  hs_credential_file :: string
  hs_state_dir :: string
  hs_uid :: int
  hs_username :: string
  hs_now :: time
  hs_config :: "read_error + config"
  hs_credential :: "read_error + credential"
  hs_users :: "string \<Rightarrow> int option"
  hs_state :: "string + store"
  hs_state_stat :: "string option"
  hs_state_probe :: "string option"
  hs_systemd :: bool
  hs_systemctl :: "string list \<Rightarrow> string \<times> string option"
  hs_web :: web
  hs_ping :: "string \<Rightarrow> ping_response option"
  hs_url :: url_parser
  hs_version :: string
  hs_texts :: texts

section \<open>The probe\<close>

text \<open>\<open>errSkipped\<close>, a client that could not be made, or the error of the ping.\<close>

datatype probe_error = Skipped | NotDialled client_error | PingFails gerror

record probe =
  pr_server_time :: time
  pr_server_version :: string
  pr_skew :: duration
  pr_err :: "probe_error option"

definition skipped :: probe where
  "skipped = \<lparr>pr_server_time = 0, pr_server_version = [], pr_skew = 0, pr_err = Some Skipped\<rparr>"

definition dial :: "doctor_host \<Rightarrow> config \<Rightarrow> credential \<Rightarrow> client_error + client" where
  "dial h cfg credential =
     New_client (hs_url h) (hs_version h) (cf_server_url cfg) credential (cf_insecure_http cfg) 0 0"

definition Probe :: "doctor_host \<Rightarrow> config \<Rightarrow> credential \<Rightarrow> probe" where
  "Probe h cfg credential =
     (case dial h cfg credential of
        Inl e \<Rightarrow> \<lparr>pr_server_time = 0, pr_server_version = [], pr_skew = 0, pr_err = Some (NotDialled e)\<rparr>
      | Inr pinger \<Rightarrow>
          (case Ping_call (hs_web h) (hs_ping h) pinger of
             (c', Inl err) \<Rightarrow> \<lparr>pr_server_time = 0, pr_server_version = cl_server_version c', pr_skew = 0, pr_err = Some (PingFails err)\<rparr>
           | (c', Inr response) \<Rightarrow>
               \<lparr>pr_server_time = pg_server_time response, pr_server_version = cl_server_version c',
                pr_skew = saturate (pg_server_time response - hs_now h),
                pr_err = None\<rparr>))"

section \<open>The checks of files\<close>

definition checkConfig :: "doctor_host \<Rightarrow> check" where
  "checkConfig h =
     (case hs_config h of
        Inl (NotExist _) \<Rightarrow> Check ''configuration'' Fail (hs_config_file h @ '' is missing; run omj-agent enroll'')
      | Inl (ReadFails e) \<Rightarrow> Check ''configuration'' Fail (e @ ''; fix the file and run omj-agent doctor again'')
      | Inr _ \<Rightarrow> Check ''configuration'' Pass (hs_config_file h @ '' is valid''))"

definition checkCredential :: "doctor_host \<Rightarrow> check" where
  "checkCredential h =
     (case hs_credential h of
        Inl (NotExist _) \<Rightarrow> Check ''credential'' Fail (hs_credential_file h @ '' is missing; run omj-agent enroll'')
      | Inl (ReadFails e) \<Rightarrow> Check ''credential'' Fail
          (e @ ''; fix with chmod 0600 '' @ hs_credential_file h @ '' and chown '' @ hs_username h @ '' '' @ hs_credential_file h)
      | Inr _ \<Rightarrow> Check ''credential'' Pass (hs_credential_file h @ '' has mode 0600 and the right owner''))"

definition checkStateDir :: "doctor_host \<Rightarrow> check" where
  "checkStateDir h =
     (let dir = hs_state_dir h; user = hs_username h
      in case hs_state_stat h of
           Some e \<Rightarrow> Check ''state directory'' Fail
             (dir @ '': '' @ e @ ''; create it with mkdir -p '' @ dir @ '' && chown '' @ user @ '' '' @ dir)
         | None \<Rightarrow>
             (case hs_state_probe h of
                Some e \<Rightarrow> Check ''state directory'' Fail
                  (dir @ '' is not writable by '' @ user @ '': '' @ e @ ''; fix with chown '' @ user @ '' '' @ dir)
              | None \<Rightarrow> Check ''state directory'' Pass (dir @ '' is writable'')))"

section \<open>The checks of the Server\<close>

definition reachableCheck :: "config \<Rightarrow> string \<Rightarrow> check" where
  "reachableCheck cfg serverVersion =
     (let detail = cf_server_url cfg @ '' is reachable'' @
            (if serverVersion \<noteq> [] then '', server version '' @ serverVersion else [])
      in if cf_insecure_http cfg
         then Check ''server'' Warn
           (detail @ ''; the connection is plain HTTP, so the credential and every command travel unencrypted'')
         else Check ''server'' Pass (detail @ '' over TLS''))"

definition ServerCheck :: "doctor_host \<Rightarrow> config \<Rightarrow> probe \<Rightarrow> check" where
  "ServerCheck h cfg probe =
     (case pr_err probe of
        None \<Rightarrow> reachableCheck cfg (pr_server_version probe)
      | Some Skipped \<Rightarrow> Check ''server'' Warn ''not checked; fix the configuration and credential first''
      | Some (NotDialled e) \<Rightarrow> Check ''server'' Fail
          (cf_server_url cfg @ '' answered unexpectedly: '' @ tx_client (hs_texts h) e)
      | Some (PingFails err) \<Rightarrow>
          if errors_Is err ErrNoCredential then Check ''server'' Fail ''not enrolled; run omj-agent enroll''
          else (case tx_certificate (hs_texts h) err of
            Some cert \<Rightarrow> Check ''server'' Fail
              (''could not verify the TLS certificate of '' @ cf_server_url cfg @ '': '' @ cert @
               ''; if the server uses its own certificate authority, install it on this machine'')
          | None \<Rightarrow>
              if IsUnauthorized err
              then Check ''server'' Fail ''the server rejected the credential; run omj-agent enroll --force with a new token''
              else if asAPIError err \<noteq> None then reachableCheck cfg (pr_server_version probe)
              else if list_ex is_net_error (error_nodes err) \<or> errors_Is err DeadlineExceeded
              then Check ''server'' Fail (''could not reach '' @ cf_server_url cfg @ '': '' @ tx_error (hs_texts h) err)
              else Check ''server'' Fail (cf_server_url cfg @ '' answered unexpectedly: '' @ tx_error (hs_texts h) err)))"

definition versionRejected :: "api_error \<Rightarrow> string" where
  "versionRejected a =
     ''the server rejected this agent: '' @ ap_message a @
     (if ap_supported a \<noteq> []
      then '' (this agent speaks protocol '' @ Itoa ProtocolVersion @ '', the server supports '' @
           Join '', '' (map Itoa (ap_supported a)) @ '')'' else []) @
     (if ap_min_agent_version a \<noteq> []
      then ''; the server requires agent '' @ ap_min_agent_version a @ '' or newer'' else []) @
     ''; update the agent''"

definition checkProtocol :: "probe \<Rightarrow> check" where
  "checkProtocol probe =
     (case pr_err probe of
        None \<Rightarrow> Check ''protocol'' Pass (''the server accepts protocol '' @ Itoa ProtocolVersion)
      | Some Skipped \<Rightarrow> Check ''protocol'' Warn ''not checked; fix the configuration and credential first''
      | Some (NotDialled e) \<Rightarrow> Check ''protocol'' Warn ''not checked; the server did not answer''
      | Some (PingFails err) \<Rightarrow>
          (case asAPIError err of
             Some a \<Rightarrow> if IsUnsupportedProtocol err then Check ''protocol'' Fail (versionRejected a)
                       else Check ''protocol'' Warn ''not checked; the server did not answer''
           | None \<Rightarrow> Check ''protocol'' Warn ''not checked; the server did not answer''))"

definition aheadOrBehind :: "duration \<Rightarrow> string" where
  "aheadOrBehind skew = (if skew < 0 then ''ahead of'' else ''behind'')"

definition checkClock :: "texts \<Rightarrow> probe \<Rightarrow> check" where
  "checkClock tx probe =
     (if pr_err probe \<noteq> None then Check ''clock'' Warn ''not checked; the server did not answer''
      else let skew = Round (100 * millisecond) (pr_skew probe)
      in if Abs_duration skew > MaxClockSkew
         then Check ''clock'' Fail (''this machine is '' @ tx_duration tx (Abs_duration skew) @ '' '' @ aheadOrBehind skew @
                '' the server; enable time synchronisation (timedatectl set-ntp true)'')
         else Check ''clock'' Pass (''within '' @ tx_duration tx (Abs_duration skew) @ '' of the server''))"

section \<open>The checks of the service\<close>

text \<open>\<open>show\<close>: a later line of the same key replaces an earlier one.\<close>

definition show_property :: "string \<Rightarrow> (string \<rightharpoonup> string) \<Rightarrow> (string \<rightharpoonup> string)" where
  "show_property line values = (case Cut (CHR ''='') (TrimSpace line) of None \<Rightarrow> values | Some (k, v) \<Rightarrow> values(k \<mapsto> v))"

definition doctor_show :: "doctor_host \<Rightarrow> string list \<Rightarrow> string + (string \<rightharpoonup> string)" where
  "doctor_show h properties =
     (case hs_systemctl h [''show'', doctor_unit, ''-p'', Join '','' properties] of
        (_, Some err) \<Rightarrow> Inl err
      | (out, None) \<Rightarrow> Inr (fold show_property (Split (CHR 0x0A) out) Map.empty))"

text \<open>Reading a missing key of a Go map gives the empty string.\<close>

definition value_of :: "(string \<rightharpoonup> string) \<Rightarrow> string \<Rightarrow> string" where
  "value_of m k = (case m k of None \<Rightarrow> [] | Some v \<Rightarrow> v)"

definition checkUnitUser :: "doctor_host \<Rightarrow> check" where
  "checkUnitUser h =
     (if \<not> hs_systemd h then Check ''service user'' Warn ''systemd not present; the service user cannot be checked''
      else case doctor_show h [''LoadState'', ''User''] of
        Inl err \<Rightarrow> Check ''service user'' Warn (''systemctl failed: '' @ err)
      | Inr properties \<Rightarrow>
          if value_of properties ''LoadState'' \<noteq> ''loaded''
          then Check ''service user'' Warn (doctor_unit @ ''.service is not installed'')
          else let user = (if value_of properties ''User'' = [] then ''root'' else value_of properties ''User'')
          in if user \<noteq> hs_username h
             then Check ''service user'' Warn
               (''doctor runs as '' @ hs_username h @ '' but the service runs as '' @ user @
                ''; the file checks above reflect '' @ hs_username h)
             else Check ''service user'' Pass (''the service runs as '' @ user @ '', like doctor''))"

definition checkUnitState :: "doctor_host \<Rightarrow> check" where
  "checkUnitState h =
     (if \<not> hs_systemd h then Check ''service'' Warn ''systemd not present; start the agent with omj-agent run''
      else let enabled = fst (hs_systemctl h [''is-enabled'', doctor_unit]);
               active = fst (hs_systemctl h [''is-active'', doctor_unit]);
               enabled' = (if enabled = [] then ''not installed'' else enabled);
               active' = (if active = [] then ''unknown'' else active)
           in if enabled' \<noteq> ''enabled'' \<or> active' \<noteq> ''active''
              then Check ''service'' Fail (doctor_unit @ '' is '' @ enabled' @ '' and '' @ active' @
                     ''; run systemctl enable --now '' @ doctor_unit)
              else Check ''service'' Pass (doctor_unit @ '' is enabled and active''))"

definition active_directive :: "(string \<rightharpoonup> string) \<Rightarrow> string \<Rightarrow> string option" where
  "active_directive properties directive =
     (let v = value_of properties directive
      in if v = [] \<or> v = ''no'' then None
         else if v = ''yes'' then Some directive else Some (directive @ ''='' @ v))"

definition checkHardening :: "doctor_host \<Rightarrow> check" where
  "checkHardening h =
     (if \<not> hs_systemd h then Check ''hardening'' Warn ''systemd not present; no hardening directives apply''
      else case doctor_show h hardeningDirectives of
        Inl err \<Rightarrow> Check ''hardening'' Warn (''systemctl failed: '' @ err)
      | Inr properties \<Rightarrow>
          (let active = List.map_filter (active_directive properties) hardeningDirectives
           in if value_of properties ''NoNewPrivileges'' = ''yes''
              then Check ''hardening'' Warn
                (''NoNewPrivileges is on, so sudo inside Jobs will fail; active: '' @ Join '', '' active)
              else if active = [] then Check ''hardening'' Pass ''no optional hardening directives are active''
              else Check ''hardening'' Pass (''active: '' @ Join '', '' active)))"

section \<open>Privileges\<close>

definition checkRoot :: "doctor_host \<Rightarrow> check" where
  "checkRoot h =
     (if hs_uid h = 0
      then Check ''privileges'' Warn ''running as root, so every Job runs with root privileges; prefer install.sh --user''
      else Check ''privileges'' Pass (''running as '' @ hs_username h @ '' (uid '' @ Itoa (hs_uid h) @ '')''))"

definition doctor_users :: "doctor_host \<Rightarrow> config \<Rightarrow> run_as_user list" where
  "doctor_users h cfg = ResolveRunAs cfg \<lparr>rh_uid = hs_uid h, rh_username = hs_username h, rh_lookup = hs_users h\<rparr>"

definition checkRunAs :: "doctor_host \<Rightarrow> config \<Rightarrow> check" where
  "checkRunAs h cfg =
     (let users = doctor_users h cfg;
          problems = List.map_filter (\<lambda>u. map_option (tx_run_as (hs_texts h)) (ru_err u)) users;
          usable = map (\<lambda>u. ru_name u @ '' (uid '' @ Itoa (ru_uid u) @ '')'') (filter (\<lambda>u. ru_err u = None) users);
          detail = (if usable = [] then ''no user to run work as; this machine has no name for uid '' @ Itoa (hs_uid h)
                    else ''may run work as '' @ Join '', '' usable)
      in if problems \<noteq> [] then Check ''execution users'' Fail (detail @ ''; '' @ Join ''; '' problems)
         else if cf_run_as_allowed cfg = []
         then Check ''execution users'' Pass (detail @ '' only; run_as_allowed is not set'')
         else Check ''execution users'' Pass detail)"

section \<open>All checks\<close>

text \<open>The probe, and the check of the users, are made only if what they need was read.\<close>

definition doctor_probe :: "doctor_host \<Rightarrow> probe" where
  "doctor_probe h =
     (case (hs_config h, hs_credential h) of
        (Inr cfg, Inr credential) \<Rightarrow> Probe h cfg credential
      | _ \<Rightarrow> skipped)"

text \<open>What \<open>LoadConfig\<close> returns with an error; nothing depends on it.\<close>

definition no_config :: config where
  "no_config = \<lparr>cf_server_url = [], cf_machine_id = [], cf_insecure_http = False, cf_log_level = [],
     cf_max_concurrent_runs = 0, cf_max_timeout_seconds = 0, cf_max_output_bytes = 0, cf_run_as_allowed = []\<rparr>"

definition Run_doctor :: "doctor_host \<Rightarrow> check list" where
  "Run_doctor h =
     (let probe = doctor_probe h;
          cfg = (case hs_config h of Inr cfg \<Rightarrow> cfg | Inl _ \<Rightarrow> no_config);
          runAs = (case hs_config h of Inr cfg \<Rightarrow> checkRunAs h cfg
                   | Inl _ \<Rightarrow> Check ''execution users'' Warn ''not checked; fix the configuration first'')
      in [checkConfig h, checkCredential h, checkStateDir h, ServerCheck h cfg probe, checkProtocol probe,
          checkClock (hs_texts h) probe, checkUnitUser h, checkUnitState h, checkHardening h, checkRoot h, runAs])"

section \<open>When a check fails\<close>

lemma rounded_nonneg:
  fixes s :: int
  assumes "0 \<le> s" and "s < 2 ^ 63"
  shows "0 \<le> Round 100000000 s \<and> (30000000000 < Round 100000000 s \<longleftrightarrow> 30050000000 \<le> s)"
proof -
  define q r where "q = s div 100000000" and "r = s mod 100000000"
  have s: "s = 100000000 * q + r" and r: "0 \<le> r" "r < 100000000" by (simp_all add: q_def r_def)
  have q: "0 \<le> q" using assms(1) by (simp add: q_def)
  have "Round 100000000 s = (if r + r < 100000000 then s - r else if s + 100000000 - r < 2 ^ 63 then s + 100000000 - r else 2 ^ 63 - 1)"
    using assms(1) by (simp add: Round_def Let_def r_def)
  then show ?thesis using s r q by (auto split: if_splits)
qed

lemma rounded_neg:
  fixes s :: int
  assumes "s < 0" and "- (2 ^ 63) \<le> s"
  shows "Round 100000000 s \<le> 0 \<and> - (2 ^ 63) \<le> Round 100000000 s \<and> (Round 100000000 s < -30000000000 \<longleftrightarrow> s \<le> -30050000000)"
proof -
  define q r where "q = (- s) div 100000000" and "r = (- s) mod 100000000"
  have s: "s = - (100000000 * q) - r" and r: "0 \<le> r" "r < 100000000"
    using mult_div_mod_eq [of 100000000 "- s"] unfolding q_def r_def by (linarith, simp_all)
  have q: "0 \<le> q" using assms(1) by (simp add: q_def)
  have "Round 100000000 s = (if r + r < 100000000 then s + r else if s - 100000000 + r \<ge> - (2 ^ 63) then s - 100000000 + r else - (2 ^ 63))"
    using assms(1) by (simp add: Round_def Let_def r_def)
  then show ?thesis using s r q assms by (auto split: if_splits)
qed

lemma clock_tolerance:
  assumes "in64 s"
  shows "MaxClockSkew < Abs_duration (Round (100 * millisecond) s) \<longleftrightarrow> 30050000000 \<le> \<bar>s\<bar>"
proof (cases "s < 0")
  case True
  with rounded_neg [of s] assms show ?thesis
    by (auto simp: in64_def Abs_duration_def MaxClockSkew_def second_def millisecond_def)
next
  case False
  with rounded_nonneg [of s] assms show ?thesis
    by (auto simp: in64_def Abs_duration_def MaxClockSkew_def second_def millisecond_def)
qed

lemma saturate_in64: "in64 (saturate d)"
  by (auto simp: saturate_def in64_def)

lemma Probe_skew: "in64 (pr_skew (Probe h cfg credential))"
  by (auto simp: Probe_def saturate_in64 split: sum.split prod.split) (simp_all add: in64_def)

text \<open>The errors of a ping that mean a broken installation: none of the Server's own answers except a
  rejected credential or version.\<close>

definition broken_answer :: "texts \<Rightarrow> gerror \<Rightarrow> bool" where
  "broken_answer tx err \<longleftrightarrow> asAPIError err = None \<or> IsUnauthorized err \<or> IsUnsupportedProtocol err \<or>
     tx_certificate tx err \<noteq> None \<or> errors_Is err ErrNoCredential"

definition probe_fails :: "texts \<Rightarrow> probe \<Rightarrow> bool" where
  "probe_fails tx p \<longleftrightarrow>
     (case pr_err p of
        None \<Rightarrow> 30050000000 \<le> \<bar>pr_skew p\<bar>
      | Some Skipped \<Rightarrow> False
      | Some (NotDialled _) \<Rightarrow> True
      | Some (PingFails err) \<Rightarrow> broken_answer tx err)"

lemma reachable_ok: "ch_status (reachableCheck cfg v) \<noteq> Fail"
  by (simp add: reachableCheck_def Let_def)

lemma server_checks_fail:
  assumes "in64 (pr_skew p)"
  shows "ch_status (ServerCheck h cfg p) = Fail \<or> ch_status (checkProtocol p) = Fail \<or>
      ch_status (checkClock (hs_texts h) p) = Fail \<longleftrightarrow> probe_fails (hs_texts h) p"
proof (cases "pr_err p")
  case None
  with clock_tolerance [OF assms] show ?thesis
    by (simp add: ServerCheck_def checkProtocol_def checkClock_def probe_fails_def reachable_ok Let_def)
next
  case (Some e)
  then show ?thesis
    by (cases e)
      (auto simp: ServerCheck_def checkProtocol_def checkClock_def probe_fails_def broken_answer_def reachable_ok
        split: option.split)
qed

lemma other_checks_fail:
  "ch_status (checkConfig h) = Fail \<longleftrightarrow> (\<exists>e. hs_config h = Inl e)"
  "ch_status (checkCredential h) = Fail \<longleftrightarrow> (\<exists>e. hs_credential h = Inl e)"
  "ch_status (checkStateDir h) = Fail \<longleftrightarrow> hs_state_stat h \<noteq> None \<or> hs_state_probe h \<noteq> None"
  "ch_status (checkUnitUser h) \<noteq> Fail" "ch_status (checkHardening h) \<noteq> Fail" "ch_status (checkRoot h) \<noteq> Fail"
  "ch_status (checkUnitState h) = Fail \<longleftrightarrow> hs_systemd h \<and>
     (fst (hs_systemctl h [''is-enabled'', doctor_unit]) \<noteq> ''enabled'' \<or> fst (hs_systemctl h [''is-active'', doctor_unit]) \<noteq> ''active'')"
  by (auto simp: checkConfig_def checkCredential_def checkStateDir_def checkUnitUser_def checkHardening_def
      checkRoot_def checkUnitState_def Let_def split: sum.splits read_error.splits option.split if_splits)

lemma checkRunAs_fail: "ch_status (checkRunAs h cfg) = Fail \<longleftrightarrow> (\<exists>u\<in>set (doctor_users h cfg). ru_err u \<noteq> None)"
proof -
  have "List.map_filter (\<lambda>u. map_option f (ru_err u)) us = [] \<longleftrightarrow> (\<forall>u\<in>set us. ru_err u = None)" for f :: "run_as_error \<Rightarrow> string" and us
    by (induction us) (auto simp: map_filter_simps split: option.split)
  then show ?thesis by (auto simp: checkRunAs_def Let_def)
qed

lemma Run_doctor_failed:
  "Report_Failed (Run_doctor h) \<longleftrightarrow>
      (\<exists>e. hs_config h = Inl e) \<or> (\<exists>e. hs_credential h = Inl e) \<or> hs_state_stat h \<noteq> None \<or> hs_state_probe h \<noteq> None \<or>
      (\<exists>cfg credential. hs_config h = Inr cfg \<and> hs_credential h = Inr credential \<and> probe_fails (hs_texts h) (Probe h cfg credential)) \<or>
      hs_systemd h \<and> (fst (hs_systemctl h [''is-enabled'', doctor_unit]) \<noteq> ''enabled'' \<or>
        fst (hs_systemctl h [''is-active'', doctor_unit]) \<noteq> ''active'') \<or>
      (\<exists>cfg. hs_config h = Inr cfg \<and> (\<exists>u\<in>set (doctor_users h cfg). ru_err u \<noteq> None))"
proof -
  have skew: "in64 (pr_skew (doctor_probe h))"
    by (auto simp: doctor_probe_def Probe_skew split: sum.split) (simp_all add: skipped_def in64_def)
  have sk: "\<not> probe_fails (hs_texts h) skipped" by (simp add: probe_fails_def skipped_def)
  note server = server_checks_fail [OF skew]
  show ?thesis
  proof (cases "hs_config h")
    case (Inl e)
    then show ?thesis using other_checks_fail(1) [of h] by (simp add: Run_doctor_def Report_Failed_def Let_def)
  next
    case cfg: (Inr cfg)
    show ?thesis
    proof (cases "hs_credential h")
      case (Inl e)
      then show ?thesis using other_checks_fail(2) [of h] by (simp add: Run_doctor_def Report_Failed_def Let_def)
    next
      case (Inr credential)
      with cfg have "doctor_probe h = Probe h cfg credential" by (simp add: doctor_probe_def)
      with server [of h cfg] cfg Inr other_checks_fail [of h] checkRunAs_fail [of h cfg] show ?thesis
        by (simp add: Run_doctor_def Report_Failed_def Let_def) blast
    qed
  qed
qed

lemma host_web:
  "checkConfig (h\<lparr>hs_web := web\<rparr>) = checkConfig h" "checkCredential (h\<lparr>hs_web := web\<rparr>) = checkCredential h"
  "checkStateDir (h\<lparr>hs_web := web\<rparr>) = checkStateDir h" "ServerCheck (h\<lparr>hs_web := web\<rparr>) = ServerCheck h"
  "checkUnitUser (h\<lparr>hs_web := web\<rparr>) = checkUnitUser h" "checkUnitState (h\<lparr>hs_web := web\<rparr>) = checkUnitState h"
  "checkHardening (h\<lparr>hs_web := web\<rparr>) = checkHardening h" "checkRoot (h\<lparr>hs_web := web\<rparr>) = checkRoot h"
  "checkRunAs (h\<lparr>hs_web := web\<rparr>) = checkRunAs h"
  by (auto simp: checkConfig_def checkCredential_def checkStateDir_def ServerCheck_def checkUnitUser_def
      checkUnitState_def checkHardening_def checkRoot_def checkRunAs_def doctor_show_def doctor_users_def fun_eq_iff
      Let_def split: sum.split read_error.split option.split prod.split probe_error.split)

section \<open>Properties\<close>

text \<open>C40: What the verdict of \<open>doctor\<close> means. It fails exactly when the configuration or the credential can
  not be used, the state directory can not be written, the Server can not be reached with them or
  rejects credential or version, the clocks are at least 30.05 seconds apart, systemd is there and the
  service is not both enabled and active, or a user of the allowlist can not be used; it fails exactly
  when the worst status is a failure. Without a configuration and a credential nothing is sent.\<close>

theorem doctor_verdict:
  "(Report_Failed (Run_doctor h) \<longleftrightarrow>
      (\<exists>e. hs_config h = Inl e) \<or> (\<exists>e. hs_credential h = Inl e) \<or> hs_state_stat h \<noteq> None \<or> hs_state_probe h \<noteq> None \<or>
      (\<exists>cfg credential. hs_config h = Inr cfg \<and> hs_credential h = Inr credential \<and> probe_fails (hs_texts h) (Probe h cfg credential)) \<or>
      hs_systemd h \<and> (fst (hs_systemctl h [''is-enabled'', doctor_unit]) \<noteq> ''enabled'' \<or>
        fst (hs_systemctl h [''is-active'', doctor_unit]) \<noteq> ''active'') \<or>
      (\<exists>cfg. hs_config h = Inr cfg \<and> (\<exists>u\<in>set (doctor_users h cfg). ru_err u \<noteq> None))) \<and>
   (Report_Failed (Run_doctor h) \<longleftrightarrow> worst (Run_doctor h) = Fail) \<and>
   ((\<exists>e. hs_config h = Inl e) \<or> (\<exists>e. hs_credential h = Inl e) \<longrightarrow>
      (\<forall>web. Run_doctor (h\<lparr>hs_web := web\<rparr>) = Run_doctor h))"
proof (intro conjI impI allI)
  show "Report_Failed (Run_doctor h) \<longleftrightarrow>
      (\<exists>e. hs_config h = Inl e) \<or> (\<exists>e. hs_credential h = Inl e) \<or> hs_state_stat h \<noteq> None \<or> hs_state_probe h \<noteq> None \<or>
      (\<exists>cfg credential. hs_config h = Inr cfg \<and> hs_credential h = Inr credential \<and> probe_fails (hs_texts h) (Probe h cfg credential)) \<or>
      hs_systemd h \<and> (fst (hs_systemctl h [''is-enabled'', doctor_unit]) \<noteq> ''enabled'' \<or>
        fst (hs_systemctl h [''is-active'', doctor_unit]) \<noteq> ''active'') \<or>
      (\<exists>cfg. hs_config h = Inr cfg \<and> (\<exists>u\<in>set (doctor_users h cfg). ru_err u \<noteq> None))"
    by (rule Run_doctor_failed)
  show "Report_Failed (Run_doctor h) \<longleftrightarrow> worst (Run_doctor h) = Fail" by (simp add: worst_Fail)
  fix web
  assume "(\<exists>e. hs_config h = Inl e) \<or> (\<exists>e. hs_credential h = Inl e)"
  then show "Run_doctor (h\<lparr>hs_web := web\<rparr>) = Run_doctor h"
    by (auto simp: Run_doctor_def doctor_probe_def Let_def host_web split: sum.split)
qed

section \<open>Witnesses\<close>

definition sample_doctor :: doctor_host where
  "sample_doctor = \<lparr>hs_config_file = ''/etc/a'', hs_credential_file = ''/etc/c'', hs_state_dir = ''/var/s'',
     hs_uid = 7, hs_username = ''u'', hs_now = 0, hs_config = Inl (NotExist []), hs_credential = Inl (NotExist []),
     hs_users = (\<lambda>_. None), hs_state = Inl [], hs_state_stat = None, hs_state_probe = None, hs_systemd = False,
     hs_systemctl = (\<lambda>_. ([], None)), hs_web = sample_web 200, hs_ping = (\<lambda>_. None), hs_url = sample_url,
     hs_version = ''dev'', hs_texts = \<lparr>tx_error = (\<lambda>_. []), tx_client = (\<lambda>_. []), tx_run_as = (\<lambda>_. []),
       tx_duration = (\<lambda>_. []), tx_certificate = (\<lambda>_. None)\<rparr>\<rparr>"

theorem doctor_verdict_witness:
  "worst (Run_doctor sample_doctor) = Fail \<and> Run_doctor (sample_doctor\<lparr>hs_web := sample_web 500\<rparr>) = Run_doctor sample_doctor"
proof -
  have "hs_config sample_doctor = Inl (NotExist [])" by (simp add: sample_doctor_def)
  with doctor_verdict [of sample_doctor] show ?thesis by blast
qed

end
