(* ===== verification/Cli.thy ===== *)
theory Cli
  imports Agent_Stop Discovery_Report Doctor
begin

text \<open>
  \<open>internal/cli\<close>: the subcommands, what they print and the exit codes; and the paths of
  \<open>internal/config/paths_unix.go\<close>. Parsing flags is a library call: its outcome is an argument, and what
  it prints itself is left out, as are log lines. The texts of errors, \<open>quote\<close> for the verb \<open>%q\<close>, and the
  formats of times and durations are parameters.
\<close>

section \<open>Paths\<close>

record agent_paths =
  ap_config_dir :: string
  ap_config_file :: string
  ap_credential_file :: string
  ap_state_dir :: string
  ap_state_file :: string

definition defaultConfigDir :: string where "defaultConfigDir = ''/etc/ohmyjob''"
definition defaultStateDir :: string where "defaultStateDir = ''/var/lib/ohmyjob''"

text \<open>\<open>filepath.Clean\<close> and \<open>filepath.Join\<close>: empty elements and \<open>.\<close> are left out, \<open>..\<close> takes back the
  element before it. The elements are kept in reverse.\<close>

definition clean_element :: "bool \<Rightarrow> string \<Rightarrow> string list \<Rightarrow> string list" where
  "clean_element rooted el out =
     (if el = [] \<or> el = ''.'' then out
      else if el = ''..'' then
        (case out of [] \<Rightarrow> if rooted then [] else [''..'']
         | x # xs \<Rightarrow> if x = ''..'' then ''..'' # out else xs)
      else el # out)"

definition Clean :: "string \<Rightarrow> string" where
  "Clean path =
     (let rooted = HasPrefix path ''/'';
          body = Join ''/'' (rev (fold (clean_element rooted) (Split (CHR ''/'') path) []))
      in if rooted then ''/'' @ body else if body = [] then ''.'' else body)"

definition Join_path :: "string \<Rightarrow> string \<Rightarrow> string" where
  "Join_path dir nm = (if dir = [] then Clean nm else Clean (dir @ ''/'' @ nm))"

text \<open>\<open>getenv\<close> gives the empty string for a variable that is not set.\<close>

definition agent_DefaultPaths :: "(string \<Rightarrow> string) \<Rightarrow> agent_paths" where
  "agent_DefaultPaths getenv =
     (let configDir = (if getenv ''OMJ_CONFIG_DIR'' \<noteq> [] then getenv ''OMJ_CONFIG_DIR'' else defaultConfigDir);
          stateDir = (if getenv ''OMJ_STATE_DIR'' \<noteq> [] then getenv ''OMJ_STATE_DIR'' else defaultStateDir)
      in \<lparr>ap_config_dir = configDir, ap_config_file = Join_path configDir ''agent.conf'',
          ap_credential_file = Join_path configDir ''agent.credential'', ap_state_dir = stateDir,
          ap_state_file = Join_path stateDir ''state.json''\<rparr>)"

section \<open>Dispatch\<close>

definition ExitOK :: int where "ExitOK = 0"
definition ExitError :: int where "ExitError = 1"
definition ExitUsage :: int where "ExitUsage = 2"

record cli_output =
  co_code :: int
  co_stdout :: string
  co_stderr :: string

abbreviation Exit :: "int \<Rightarrow> string \<Rightarrow> string \<Rightarrow> cli_output" where
  "Exit code out err \<equiv> \<lparr>co_code = code, co_stdout = out, co_stderr = err\<rparr>"

definition line_of :: "string \<Rightarrow> string" where
  "line_of s = s @ [CHR 0x0A]"

text \<open>The verb \<open>%-ns\<close>, for text of one byte per character.\<close>

definition pad :: "nat \<Rightarrow> string \<Rightarrow> string" where
  "pad n s = s @ replicate (n - length s) CHR '' ''"

datatype subcommand = CmdEnroll | CmdRun | CmdStatus | CmdVersion | CmdDoctor | CmdDiscover

definition commands :: "(string \<times> string \<times> subcommand) list" where
  "commands =
     [(''enroll'', ''Enroll this machine with a server'', CmdEnroll),
      (''run'', ''Run the agent in the foreground'', CmdRun),
      (''status'', ''Show the configuration, machine id and server reachability'', CmdStatus),
      (''version'', ''Print the agent and protocol versions'', CmdVersion),
      (''doctor'', ''Check the installation and exit 1 on any problem'', CmdDoctor),
      (''discover'', ''Print the scheduled work this machine already has, and send nothing'', CmdDiscover)]"

definition usage :: string where
  "usage = line_of ''Usage: omj-agent <command> [options]'' @ line_of [] @ line_of ''Commands:'' @
     concat (map (\<lambda>(nm, summary, _). line_of (''  '' @ pad 8 nm @ '' '' @ summary)) commands)"

definition Run_cli :: "(string \<Rightarrow> string) \<Rightarrow> (subcommand \<Rightarrow> string list \<Rightarrow> cli_output) \<Rightarrow> string list \<Rightarrow> cli_output" where
  "Run_cli quote run args =
     (case args of
        [] \<Rightarrow> Exit ExitUsage [] usage
      | a # rest \<Rightarrow>
          if a \<in> {''help'', ''-h'', ''--help''} then Exit ExitOK usage []
          else (case map_of (map (\<lambda>(nm, _, c). (nm, c)) commands) a of
                  Some c \<Rightarrow> run c rest
                | None \<Rightarrow> Exit ExitUsage [] (line_of (''omj-agent: unknown command '' @ quote a) @ line_of [] @ usage)))"

text \<open>The outcome of \<open>flags.Parse\<close>: help was asked for, an error, or the options and the other arguments.\<close>

datatype 'o flags = FlagHelp | FlagError | Flags 'o "string list"

definition parseNoFlags :: "string \<Rightarrow> unit flags \<Rightarrow> (int \<times> string) option" where
  "parseNoFlags nm fl =
     (case fl of
        FlagHelp \<Rightarrow> Some (ExitOK, [])
      | FlagError \<Rightarrow> Some (ExitUsage, [])
      | Flags _ rest \<Rightarrow>
          if rest \<noteq> [] then Some (ExitUsage, line_of (''omj-agent '' @ nm @ '' takes no arguments'')) else None)"

section \<open>version\<close>

record build_info =
  bi_version :: string
  bi_commit :: string
  bi_date :: string

definition runVersion :: "build_info \<Rightarrow> unit flags \<Rightarrow> cli_output" where
  "runVersion b fl =
     (case fl of
        FlagHelp \<Rightarrow> Exit ExitOK [] []
      | FlagError \<Rightarrow> Exit ExitUsage [] []
      | Flags _ _ \<Rightarrow> Exit ExitOK
          (line_of (''omj-agent '' @ bi_version b @ '' ('' @ bi_commit b @ '', '' @ bi_date b @ '') protocol '' @
             Itoa ProtocolVersion)) [])"

section \<open>enroll\<close>

definition ExitAlreadyEnrolled :: int where "ExitAlreadyEnrolled = 3"
definition ExitTokenInvalid :: int where "ExitTokenInvalid = 4"
definition ExitTokenExpired :: int where "ExitTokenExpired = 5"
definition ExitUnsupportedOS :: int where "ExitUnsupportedOS = 6"
definition ExitVersionRejected :: int where "ExitVersionRejected = 7"
definition ExitThrottled :: int where "ExitThrottled = 8"
definition ExitUnreachable :: int where "ExitUnreachable = 9"
definition ExitPermission :: int where "ExitPermission = 10"

lemmas exit_defs = ExitOK_def ExitError_def ExitUsage_def ExitAlreadyEnrolled_def ExitTokenInvalid_def
  ExitTokenExpired_def ExitUnsupportedOS_def ExitVersionRejected_def ExitThrottled_def ExitUnreachable_def
  ExitPermission_def

fun exitCodeFor :: "reason \<Rightarrow> int" where
  "exitCodeFor ReasonInvalidInput = ExitUsage"
| "exitCodeFor ReasonAlreadyEnrolled = ExitAlreadyEnrolled"
| "exitCodeFor ReasonTokenInvalid = ExitTokenInvalid"
| "exitCodeFor ReasonTokenExpired = ExitTokenExpired"
| "exitCodeFor ReasonUnsupportedOS = ExitUnsupportedOS"
| "exitCodeFor ReasonVersionRejected = ExitVersionRejected"
| "exitCodeFor ReasonThrottled = ExitThrottled"
| "exitCodeFor ReasonUnreachable = ExitUnreachable"
| "exitCodeFor ReasonPermission = ExitPermission"
| "exitCodeFor ReasonUnknown = ExitError"

text \<open>There are finitely many reasons, so that what holds of all of them is computed.\<close>

instantiation reason :: enum
begin

definition enum_reason :: "reason list" where
  "enum_reason = [ReasonUnknown, ReasonInvalidInput, ReasonAlreadyEnrolled, ReasonTokenInvalid, ReasonTokenExpired,
     ReasonUnsupportedOS, ReasonVersionRejected, ReasonThrottled, ReasonUnreachable, ReasonPermission]"

definition enum_all_reason :: "(reason \<Rightarrow> bool) \<Rightarrow> bool" where
  "enum_all_reason P \<longleftrightarrow> list_all P enum_class.enum"

definition enum_ex_reason :: "(reason \<Rightarrow> bool) \<Rightarrow> bool" where
  "enum_ex_reason P \<longleftrightarrow> list_ex P enum_class.enum"

instance
proof
  show u: "UNIV = set (enum_class.enum :: reason list)"
    unfolding enum_reason_def by (auto intro: reason.exhaust)
  show "distinct (enum_class.enum :: reason list)" by (simp add: enum_reason_def)
  show "enum_class.enum_all P \<longleftrightarrow> Ball UNIV P" for P :: "reason \<Rightarrow> bool"
    unfolding enum_all_reason_def u by (rule list.pred_set [THEN fun_cong])
  show "enum_class.enum_ex P \<longleftrightarrow> Bex UNIV P" for P :: "reason \<Rightarrow> bool"
    unfolding enum_ex_reason_def u by (rule list_ex_iff)
qed

end

lemma exit_codes_differ: "\<forall>r s. exitCodeFor r = exitCodeFor s \<longrightarrow> r = s"
  by code_simp

lemma exit_codes_nonzero: "\<forall>r. exitCodeFor r \<noteq> ExitOK"
  by code_simp

lemma exit_code_reason:
  "exitCodeFor r = ExitUsage \<longleftrightarrow> r = ReasonInvalidInput"
  "exitCodeFor r = ExitAlreadyEnrolled \<longleftrightarrow> r = ReasonAlreadyEnrolled"
  "4 \<le> exitCodeFor r \<and> exitCodeFor r \<le> 9 \<longleftrightarrow>
     r \<notin> {ReasonUnknown, ReasonInvalidInput, ReasonAlreadyEnrolled, ReasonPermission}"
  by (cases r; simp add: exit_defs)+

record enroll_flags =
  ef_server :: string
  ef_token :: string
  ef_name :: string
  ef_insecure_http :: bool
  ef_user :: string
  ef_force :: bool

text \<open>The options the flags leave alone are filled in by \<open>withDefaults\<close>, here taken from \<open>base\<close>.\<close>

definition options_of :: "enroll_options \<Rightarrow> enroll_flags \<Rightarrow> enroll_options" where
  "options_of base fl =
     base\<lparr>eo_server_url := ef_server fl, eo_token := ef_token fl, eo_name := ef_name fl,
       eo_insecure_http := ef_insecure_http fl, eo_user := ef_user fl, eo_force := ef_force fl\<rparr>"

text \<open>What the command prints and, if it got that far, the enrollment.\<close>

definition runEnroll :: "(enroll_message \<Rightarrow> string) \<Rightarrow> enroll_env \<Rightarrow> enroll_options \<Rightarrow> enroll_flags flags \<Rightarrow> file_system \<Rightarrow>
    cli_output \<times> enrolled option" where
  "runEnroll tx ev base fl fs =
     (case fl of
        FlagHelp \<Rightarrow> (Exit ExitOK [] [], None)
      | FlagError \<Rightarrow> (Exit ExitUsage [] [], None)
      | Flags opts _ \<Rightarrow>
          if ef_server opts = [] \<or> ef_token opts = []
          then (Exit ExitUsage [] (line_of ''omj-agent enroll: --server and --token are required''), None)
          else let warning = (if ef_insecure_http opts
                 then line_of ''Warning: --insecure-http sends the credential and every command over plain HTTP; use it only on a network you trust.''
                 else []);
                   r = Enroll ev (options_of base opts) fs
          in (case el_result r of
                Inl e \<Rightarrow> Exit (exitCodeFor (ee_reason e)) [] (warning @ line_of (''omj-agent enroll: '' @ tx (ee_message e)))
              | Inr res \<Rightarrow> Exit ExitOK
                  (line_of (''Enrolled as machine '' @ en_machine_id res @ ''.'') @
                   line_of (''Wrote '' @ en_config_file res @ '' and '' @ en_credential_file res @ '', owned by '' @ en_owner res @ ''.'') @
                   line_of (''Next: '' @ en_next_step res)) warning, Some r))"

section \<open>Reasons before and after the token is sent\<close>

lemma reason_simps [simp]:
  "ee_reason (enroll_error r msg) = r"
  "ee_reason (classifyFilesystem ev path f) = (if ev_denied ev f then ReasonPermission else ReasonUnknown)"
  by (simp_all add: classifyFilesystem_def enroll_error_def)

lemma local_reasons:
  "validate_options opts = Some e \<Longrightarrow> ee_reason e = ReasonInvalidInput"
  "resolveOwner opts = Inl e \<Longrightarrow> ee_reason e = ReasonInvalidInput \<or> ee_reason e = ReasonPermission"
  "existingConfig ev opts fs = Inl e \<Longrightarrow> ee_reason e = ReasonPermission \<or> ee_reason e = ReasonUnknown"
  "allowedUsers cfg info sys = Inl e \<Longrightarrow> ee_reason e = ReasonInvalidInput"
  by (auto simp: validate_options_def resolveOwner_def existingConfig_def allowedUsers_def Let_def
      split: if_splits option.splits sum.splits)

lemma sent_stopped [simp]: "el_sent (stopped fs e) = None" "el_result (stopped fs e) = Inl e"
  by (simp_all add: stopped_def)

lemma sent_exchange [simp]: "el_sent (exchange ev opts ow cfg api request fs) = Some request"
  by (simp add: exchange_def split: sum.split prod.split)

lemma stopped_reason:
  assumes "el_sent (Enroll ev opts fs) = None" and "el_result (Enroll ev opts fs) = Inl e"
  shows "ee_reason e \<in> {ReasonInvalidInput, ReasonAlreadyEnrolled, ReasonPermission, ReasonUnknown}"
  using assms unfolding Enroll_def
  by (simp split: option.splits sum.splits if_splits prod.splits) (auto dest: local_reasons split: if_splits)

lemma classifyServer_reason:
  "ee_reason (classifyServer ev url err) \<notin> {ReasonInvalidInput, ReasonAlreadyEnrolled, ReasonPermission}"
  by (simp add: classifyServer_def classifyAPIError_def split: option.split)

lemma owner_apply_reason: "owner_apply ev ow sys ps = (xs, Some e) \<Longrightarrow> ee_reason e = ReasonPermission \<or> ee_reason e = ReasonUnknown"
  by (induction ps arbitrary: xs) (auto split: if_splits prod.splits)

lemma write_files_reason:
  assumes "write_files ev opts ow cfg response fs = (fs', owned, Inl e)"
  shows "ee_reason e = ReasonPermission \<or> ee_reason e = ReasonUnknown"
  using assms unfolding write_files_def
  by (auto simp del: owner_apply.simps split: option.splits prod.splits if_splits dest: owner_apply_reason)

lemma exchange_reason:
  assumes "el_result (exchange ev opts ow cfg api request fs) = Inl e"
  shows "ee_reason e \<noteq> ReasonInvalidInput \<and> ee_reason e \<noteq> ReasonAlreadyEnrolled"
  using assms classifyServer_reason [of ev "eo_server_url opts"] unfolding exchange_def
  by (auto split: sum.splits prod.splits dest: write_files_reason)

section \<open>Properties\<close>


section \<open>Witnesses\<close>

definition sample_flags :: enroll_flags where
  "sample_flags = \<lparr>ef_server = ''https://omj.example'', ef_token = ''omj_agent_t'', ef_name = [], ef_insecure_http = False,
     ef_user = [], ef_force = False\<rparr>"

lemma sample_bad_token:
  "validate_options (options_of sample_options sample_flags) = Some (enroll_error ReasonInvalidInput TokenShape)"
  by (simp add: validate_options_def options_of_def sample_flags_def TokenPrefix_def HasPrefix_def)


end
