(* ===== verification/Cli_Run.thy ===== *)
theory Cli_Run
  imports Cli
begin

text \<open>
  \<open>internal/cli/run.go\<close>: how the command \<open>run\<close> puts the agent together from the files and the machine, and
  \<open>DefaultHost\<close> of \<open>internal/doctor/host.go\<close>, which reads the same files. What the daemon does once it is
  built is \<open>Agent_Stop\<close>; here its \<open>Run\<close> is an argument that says whether the stop was forced.
\<close>

section \<open>The machine\<close>

text \<open>\<open>mc_users\<close> is the user database with uid and gid, \<open>mc_chown\<close> whether a change of ownership succeeds, \<open>mc_owner\<close> and \<open>mc_read_fails\<close> what the file system says of the
  credential, \<open>mc_systemctl\<close> the program if it is in the path; the texts of errors are among the fields.\<close>

record machine =
  mc_getenv :: "string \<Rightarrow> string"
  mc_files :: file_system
  mc_owner :: "string \<Rightarrow> int option"
  mc_read_fails :: bool
  mc_uid :: int
  mc_host :: host
  mc_users :: "string \<Rightarrow> (string \<times> string) option"
  mc_chown :: "string \<Rightarrow> int \<Rightarrow> int \<Rightarrow> bool"
  mc_state :: store_env
  mc_url :: url_parser
  mc_version :: string
  mc_now :: time
  mc_systemctl :: "(string list \<Rightarrow> string \<times> string option) option"
  mc_web :: web
  mc_ping :: "string \<Rightarrow> ping_response option"
  mc_state_stat :: "string option"
  mc_state_probe :: "string option"
  mc_texts :: texts
  mc_config_text :: "load_error \<Rightarrow> string"
  mc_credential_text :: "credential_error \<Rightarrow> string"
  mc_state_text :: "state_error \<Rightarrow> string"

definition machine_paths :: "machine \<Rightarrow> agent_paths" where
  "machine_paths m = agent_DefaultPaths (mc_getenv m)"

definition machine_config :: "machine \<Rightarrow> load_error + config" where
  "machine_config m = Load_config (mc_url m) (ap_config_file (machine_paths m)) (mc_files m)"

text \<open>\<open>LoadCredential\<close>: for the uid of the process.\<close>

definition machine_credential :: "machine \<Rightarrow> credential_error + credential" where
  "machine_credential m =
     loadCredential (mc_owner m) (mc_read_fails m) (mc_uid m) (ap_credential_file (machine_paths m)) (mc_files m)"

definition machine_lookup :: "machine \<Rightarrow> string \<Rightarrow> int option" where
  "machine_lookup m = LookupUser (\<lambda>nm. map_option fst (mc_users m nm))"

definition machine_state :: "machine \<Rightarrow> state_error + disk_store" where
  "machine_state m = Load (mc_state m) (ap_state_file (machine_paths m)) (mc_files m)"

section \<open>Building the agent\<close>

datatype start_failure =
    ConfigFails load_error | CredentialFails credential_error | ClientFails client_error | CollectFails
  | StateFails state_error | RunAsFails string run_as_error | AgentFails new_error

definition build :: "machine \<Rightarrow> sys_info option \<Rightarrow> config \<Rightarrow> start_failure + (client \<times> agent \<times> duration)" where
  "build m collected cfg =
     (case machine_credential m of Inl e \<Rightarrow> Inl (CredentialFails e) | Inr credential \<Rightarrow>
     (case New_client (mc_url m) (mc_version m) (cf_server_url cfg) credential (cf_insecure_http cfg) 0 0 of
        Inl e \<Rightarrow> Inl (ClientFails e) | Inr apiClient \<Rightarrow>
     (case collected of None \<Rightarrow> Inl CollectFails | Some info \<Rightarrow>
     (case machine_state m of Inl e \<Rightarrow> Inl (StateFails e) | Inr store \<Rightarrow>
     (let runAs = ResolveRunAs cfg \<lparr>rh_uid = si_agent_uid info, rh_username = si_agent_user info,
            rh_lookup = machine_lookup m\<rparr>
      in case RunAs_Err runAs of
           Some e \<Rightarrow> Inl (RunAsFails (ap_config_file (machine_paths m)) e)
         | None \<Rightarrow>
             (case New_agent \<lparr>op_config = cfg, op_run_as_allowed = Names runAs, op_client = True, op_info = info,
                 op_store = Some store,
                 op_runner = \<lparr>rn_max_timeout = seconds (cf_max_timeout_seconds cfg), rn_grace = 0\<rparr>,
                 op_buffer = Some (NewBuffer \<lparr>bo_cap = 0, bo_batch_bytes = 0, bo_batch_chunks = 0\<rparr>),
                 op_stop_budget = 0\<rparr> of
                Inl e \<Rightarrow> Inl (AgentFails e)
              | Inr (a, budget) \<Rightarrow> Inr (apiClient, a, budget)))))))"

section \<open>The command\<close>

datatype level = LevelDebug | LevelInfo | LevelWarn | LevelError

definition parseLevel :: "string \<Rightarrow> level \<times> bool" where
  "parseLevel nm =
     (if nm = ''debug'' then (LevelDebug, True)
      else if nm = ''info'' then (LevelInfo, True)
      else if nm = ''warn'' then (LevelWarn, True)
      else if nm = ''error'' then (LevelError, True)
      else (LevelInfo, False))"

definition ExitForcedStop :: int where "ExitForcedStop = 3"

record run_flags =
  rf_log_level :: string
  rf_log_format :: string

text \<open>The logger the daemon writes to, the client and the agent with its stop budget. \<open>daemon\<close> is whether
  its \<open>Run\<close> returned the error of a forced stop.\<close>

record started =
  sd_format :: string
  sd_level :: level
  sd_client :: client
  sd_agent :: agent
  sd_budget :: duration

definition start_agent :: "machine \<Rightarrow> run_flags \<Rightarrow> start_failure + started" where
  "start_agent m fl =
     (case machine_config m of
        Inl e \<Rightarrow> Inl (ConfigFails e)
      | Inr cfg \<Rightarrow>
          (let logLevel = (if rf_log_level fl = [] then cf_log_level cfg else rf_log_level fl)
           in case build m (Some (Collect_info (mc_host m))) cfg of
                Inl e \<Rightarrow> Inl e
              | Inr (api, a, budget) \<Rightarrow>
                  Inr \<lparr>sd_format = rf_log_format fl, sd_level = fst (parseLevel logLevel), sd_client = api,
                       sd_agent = a, sd_budget = budget\<rparr>))"

definition runRun :: "(string \<Rightarrow> string) \<Rightarrow> (start_failure \<Rightarrow> string) \<Rightarrow> string \<Rightarrow> machine \<Rightarrow> run_flags flags \<Rightarrow>
    (started \<Rightarrow> bool) \<Rightarrow> cli_output" where
  "runRun quote tx forced_text m fl daemon =
     (case fl of
        FlagHelp \<Rightarrow> Exit ExitOK [] []
      | FlagError \<Rightarrow> Exit ExitUsage [] []
      | Flags opts _ \<Rightarrow>
          if rf_log_format opts \<notin> {''text'', ''json''}
          then Exit ExitUsage [] (line_of (''omj-agent run: --log-format must be text or json, got '' @ quote (rf_log_format opts)))
          else if rf_log_level opts \<noteq> [] \<and> \<not> snd (parseLevel (rf_log_level opts))
          then Exit ExitUsage [] (line_of (''omj-agent run: --log-level must be debug, info, warn or error, got '' @
                 quote (rf_log_level opts)))
          else (case start_agent m opts of
                  Inl e \<Rightarrow> Exit ExitError [] (line_of (''omj-agent run: '' @ tx e))
                | Inr s \<Rightarrow> if daemon s then Exit ExitForcedStop [] (line_of (''omj-agent run: '' @ forced_text))
                           else Exit ExitOK [] []))"

section \<open>The host the checks look at\<close>

text \<open>\<open>DefaultHost\<close>, \<open>WithDefaults\<close> and \<open>DefaultSystemctl\<close>: the same files, read by the same functions. The
  name is that of \<open>user.Current\<close>; an error is \<open>os.ErrNotExist\<close> exactly when the file is not there.\<close>

definition file_result :: "file_system \<Rightarrow> string \<Rightarrow> ('e \<Rightarrow> string) \<Rightarrow> 'e + 'a \<Rightarrow> read_error + 'a" where
  "file_result fs path tx r =
     (case r of
        Inr x \<Rightarrow> Inr x
      | Inl e \<Rightarrow> Inl (if fs path = None then NotExist (tx e) else ReadFails (tx e)))"

definition systemctl_run :: "(string list \<Rightarrow> string \<times> string option) option \<Rightarrow> string list \<Rightarrow> string \<times> string option" where
  "systemctl_run found args =
     (case found of None \<Rightarrow> ([], None) | Some exec \<Rightarrow> (TrimSpace (fst (exec args)), snd (exec args)))"

definition DefaultHost :: "machine \<Rightarrow> doctor_host" where
  "DefaultHost m =
     (let paths = machine_paths m
      in \<lparr>hs_config_file = ap_config_file paths, hs_credential_file = ap_credential_file paths,
          hs_state_dir = ap_state_dir paths, hs_uid = mc_uid m,
          hs_username = (case ho_user (mc_host m) of None \<Rightarrow> [] | Some (name, _) \<Rightarrow> name), hs_now = mc_now m,
          hs_config = file_result (mc_files m) (ap_config_file paths) (mc_config_text m) (machine_config m),
          hs_credential = file_result (mc_files m) (ap_credential_file paths) (mc_credential_text m) (machine_credential m),
          hs_users = machine_lookup m,
          hs_state = map_sum (mc_state_text m) fst (machine_state m),
          hs_state_stat = mc_state_stat m, hs_state_probe = mc_state_probe m,
          hs_systemd = (mc_systemctl m \<noteq> None), hs_systemctl = systemctl_run (mc_systemctl m),
          hs_web = mc_web m, hs_ping = mc_ping m, hs_url = mc_url m, hs_version = mc_version m,
          hs_texts = mc_texts m\<rparr>)"

section \<open>What a start needs\<close>

definition run_as_host_of :: "machine \<Rightarrow> run_as_host" where
  "run_as_host_of m = \<lparr>rh_uid = snd (currentUser (ho_user (mc_host m))), rh_username = fst (currentUser (ho_user (mc_host m))),
     rh_lookup = machine_lookup m\<rparr>"

lemma agent_user_of: "si_agent_user (Collect_info h) = fst (currentUser (ho_user h))"
  "si_agent_uid (Collect_info h) = snd (currentUser (ho_user h))"
  by (simp_all add: Collect_info_def Let_def split: prod.split option.split)

lemma build_Inr:
  assumes "build m (Some (Collect_info (mc_host m))) cfg = Inr (api, a, budget)"
  obtains credential store where "machine_credential m = Inr credential" "machine_state m = Inr store"
    "New_client (mc_url m) (mc_version m) (cf_server_url cfg) credential (cf_insecure_http cfg) 0 0 = Inr api"
    "RunAs_Err (ResolveRunAs cfg (run_as_host_of m)) = None" "cf_machine_id cfg \<noteq> []" "ag_cfg a = cfg"
    "ag_run_as_allowed a = Names (ResolveRunAs cfg (run_as_host_of m))" "ag_registry a = []" "ag_executed a = []"
    "ag_store a = store" "budget = DefaultStopBudget"
  using assms
  by (auto simp: build_def New_agent_def run_as_host_of_def agent_user_of Let_def
      split: sum.splits option.splits if_splits prod.splits)

lemma build_Inl:
  assumes "build m (Some (Collect_info (mc_host m))) cfg = Inl e"
  shows "(\<exists>x. e = CredentialFails x \<and> machine_credential m = Inl x) \<or>
    (\<exists>x credential. e = ClientFails x \<and> machine_credential m = Inr credential \<and>
       New_client (mc_url m) (mc_version m) (cf_server_url cfg) credential (cf_insecure_http cfg) 0 0 = Inl x) \<or>
    (\<exists>x. e = StateFails x \<and> machine_state m = Inl x) \<or>
    (\<exists>p x. e = RunAsFails p x \<and> RunAs_Err (ResolveRunAs cfg (run_as_host_of m)) = Some x) \<or>
    e = AgentFails NoMachineID \<and> cf_machine_id cfg = []"
  using assms
  by (auto simp: build_def New_agent_def run_as_host_of_def agent_user_of Let_def
      split: sum.splits option.splits if_splits prod.splits)

lemma start_agent_Inr:
  assumes "start_agent m fl = Inr s"
  obtains cfg where "machine_config m = Inr cfg"
    "build m (Some (Collect_info (mc_host m))) cfg = Inr (sd_client s, sd_agent s, sd_budget s)"
  using assms by (auto simp: start_agent_def Let_def split: sum.splits prod.splits)

lemma start_agent_Inl:
  assumes "start_agent m fl = Inl e"
  shows "(\<exists>x. e = ConfigFails x \<and> machine_config m = Inl x) \<or>
    (\<exists>cfg. machine_config m = Inr cfg \<and> build m (Some (Collect_info (mc_host m))) cfg = Inl e)"
  using assms by (auto simp: start_agent_def Let_def split: sum.splits prod.splits)

lemma machine_config_valid: "machine_config m = Inr cfg \<Longrightarrow> Validate (mc_url m) cfg = None"
  by (auto simp: machine_config_def Load_config_def split: option.splits sum.splits)

lemma machine_credential_safe:
  assumes "machine_credential m = Inr c"
  defines "path \<equiv> ap_credential_file (machine_paths m)"
  shows "(\<exists>data. mc_files m path = Some (data, credentialFileMode) \<and> NewCredential data = Some c) \<and>
    (\<forall>owner. mc_owner m path = Some owner \<longrightarrow> owner = mc_uid m)"
  using assms by (auto simp: machine_credential_def loadCredential_def split: option.splits if_splits)

lemma New_client_credential: "New_client up v url c insecure t h = Inr api \<Longrightarrow> cl_credential api = c"
  by (auto simp: New_client_def split: option.splits if_splits prod.splits)

lemma all_offered:
  assumes "RunAs_Err (ResolveRunAs cfg h) = None"
  shows "set (Names (ResolveRunAs cfg h)) = {n. n = rh_username h \<and> n \<noteq> []} \<union> {n \<in> set (cf_run_as_allowed cfg). n \<noteq> rh_username h}"
    and "rh_uid h \<noteq> rootUID \<Longrightarrow> set (cf_run_as_allowed cfg) \<subseteq> {rh_username h}"
proof -
  have ok: "n = rh_username h \<or> rh_uid h = rootUID \<and> rh_lookup h n \<noteq> None" if "n \<in> set (cf_run_as_allowed cfg)" for n
    using assms that unfolding RunAs_Err_iff ResolveRunAs_def list_all_append checked_ok by (auto simp: list_all_iff)
  show "rh_uid h \<noteq> rootUID \<Longrightarrow> set (cf_run_as_allowed cfg) \<subseteq> {rh_username h}" using ok by blast
  show "set (Names (ResolveRunAs cfg h)) = {n. n = rh_username h \<and> n \<noteq> []} \<union> {n \<in> set (cf_run_as_allowed cfg). n \<noteq> rh_username h}"
    by (rule set_eqI) (simp add: in_Names, use ok in blast)
qed

text \<open>The daemon's \<open>Run\<close> can return with or without the error of a forced stop.\<close>

definition runs_to :: "started \<Rightarrow> bool \<Rightarrow> bool" where
  "runs_to s forced \<longleftrightarrow> (\<exists>e es st. stops (Run_start e es (sd_agent s)) st \<and> so_phase st = Returned forced)"

lemma forced_after_two:
  assumes "runs_to s True"
  shows "\<exists>e es st. stops (Run_start e es (sd_agent s)) st \<and> 2 \<le> so_heard st \<and> so_saved st"
proof -
  obtain e es st where st: "stops (Run_start e es (sd_agent s)) st" and p: "so_phase st = Returned True"
    using assms by (auto simp: runs_to_def)
  from stops_inv [OF st stop_inv_start] have i: "stop_inv st" .
  then have "so_drained st" and "2 \<le> so_heard st" using p unfolding stop_inv_def by blast+
  with stop_inv_returned [OF i p] st show ?thesis by blast
qed

section \<open>What doctor has to do with it\<close>

lemma file_result_ok [simp]: "(\<exists>e. file_result fs path tx r = Inl e) \<longleftrightarrow> (\<exists>e. r = Inl e)"
  "file_result fs path tx (Inr x) = Inr x"
  by (auto simp: file_result_def split: sum.split)

lemma host_fields:
  "hs_uid (DefaultHost m) = mc_uid m" "hs_users (DefaultHost m) = machine_lookup m"
  "hs_config (DefaultHost m) = file_result (mc_files m) (ap_config_file (machine_paths m)) (mc_config_text m) (machine_config m)"
  "hs_credential (DefaultHost m) =
     file_result (mc_files m) (ap_credential_file (machine_paths m)) (mc_credential_text m) (machine_credential m)"
  "hs_url (DefaultHost m) = mc_url m" "hs_version (DefaultHost m) = mc_version m"
  "hs_username (DefaultHost m) = (case ho_user (mc_host m) of None \<Rightarrow> [] | Some (name, _) \<Rightarrow> name)"
  by (simp_all add: DefaultHost_def Let_def)

lemma doctor_passes:
  assumes "\<not> Report_Failed (Run_doctor (DefaultHost m))"
  obtains cfg credential api where "machine_config m = Inr cfg" "machine_credential m = Inr credential"
    "New_client (mc_url m) (mc_version m) (cf_server_url cfg) credential (cf_insecure_http cfg) 0 0 = Inr api"
    "RunAs_Err (doctor_users (DefaultHost m) cfg) = None"
proof -
  let ?h = "DefaultHost m"
  note ok = assms [unfolded Run_doctor_failed]
  from ok obtain cfg where cfg: "machine_config m = Inr cfg"
    by (cases "machine_config m") (auto simp: host_fields)
  from ok obtain credential where cred: "machine_credential m = Inr credential"
    by (cases "machine_credential m") (auto simp: host_fields)
  have h: "hs_config ?h = Inr cfg" "hs_credential ?h = Inr credential" by (simp_all add: host_fields cfg cred)
  have u: "RunAs_Err (doctor_users ?h cfg) = None" using ok h by (auto simp: RunAs_Err_iff list_all_iff)
  have "\<not> probe_fails (hs_texts ?h) (Probe ?h cfg credential)" using ok h by blast
  then obtain api where "dial ?h cfg credential = Inr api"
    by (auto simp: Probe_def probe_fails_def split: sum.splits)
  with that cfg cred u show ?thesis by (auto simp: dial_def host_fields)
qed

lemma doctor_users_agree:
  assumes "ho_user (mc_host m) = Some (nm, Itoa (mc_uid m))" and "in64 (mc_uid m)"
  shows "doctor_users (DefaultHost m) cfg = ResolveRunAs cfg (run_as_host_of m)"
  using assms by (simp add: doctor_users_def host_fields run_as_host_of_def currentUser_def)

section \<open>Properties\<close>

text \<open>C19: What a daemon that was started rests on. Its configuration is valid and names a machine; its
  credential comes from a file with mode 0600 that belongs to nobody but the user of the process; it
  offers its own user and exactly the operator's list, which names nobody else unless the agent is
  root; it holds no Run and has executed none; and the exit code 3 is given only after two signals,
  with the state saved.\<close>

theorem run_starts_agent:
  assumes "start_agent m fl = Inr s"
  defines "path \<equiv> ap_credential_file (machine_paths m)" and "own \<equiv> currentUser (ho_user (mc_host m))"
  shows "(\<exists>cfg. machine_config m = Inr cfg \<and> ag_cfg (sd_agent s) = cfg \<and> Validate (mc_url m) cfg = None \<and> cf_machine_id cfg \<noteq> [] \<and>
      set (ag_run_as_allowed (sd_agent s)) =
        {n. n = fst own \<and> n \<noteq> []} \<union> {n \<in> set (cf_run_as_allowed cfg). n \<noteq> fst own} \<and>
      (snd own \<noteq> rootUID \<longrightarrow> set (cf_run_as_allowed cfg) \<subseteq> {fst own})) \<and>
    (\<exists>data. mc_files m path = Some (data, credentialFileMode) \<and> NewCredential data = Some (cl_credential (sd_client s))) \<and>
    (\<forall>uid. mc_owner m path = Some uid \<longrightarrow> uid = mc_uid m) \<and>
    ag_registry (sd_agent s) = [] \<and> ag_executed (sd_agent s) = [] \<and>
    (\<forall>quote tx msg rest daemon. (daemon s \<longrightarrow> runs_to s True) \<and>
       co_code (runRun quote tx msg m (Flags fl rest) daemon) = ExitForcedStop \<longrightarrow>
       (\<exists>e es st. stops (Run_start e es (sd_agent s)) st \<and> 2 \<le> so_heard st \<and> so_saved st))"
proof -
  obtain cfg where cfg: "machine_config m = Inr cfg"
    and b: "build m (Some (Collect_info (mc_host m))) cfg = Inr (sd_client s, sd_agent s, sd_budget s)"
    by (rule start_agent_Inr [OF assms(1)])
  from b obtain credential where c: "machine_credential m = Inr credential" "cl_credential (sd_client s) = credential"
    and u: "RunAs_Err (ResolveRunAs cfg (run_as_host_of m)) = None"
    and a: "cf_machine_id cfg \<noteq> []" "ag_cfg (sd_agent s) = cfg" "ag_registry (sd_agent s) = []" "ag_executed (sd_agent s) = []"
      "ag_run_as_allowed (sd_agent s) = Names (ResolveRunAs cfg (run_as_host_of m))"
    by (elim build_Inr) (use New_client_credential in blast)
  have own: "rh_username (run_as_host_of m) = fst own" "rh_uid (run_as_host_of m) = snd own"
    by (simp_all add: run_as_host_of_def own_def)
  have code: "daemon s" if "co_code (runRun quote tx msg m (Flags fl rest) daemon) = ExitForcedStop" for quote tx msg rest daemon
    using that assms(1) by (auto simp: runRun_def ExitForcedStop_def exit_defs split: if_splits)
  have two: "\<exists>e es st. stops (Run_start e es (sd_agent s)) st \<and> 2 \<le> so_heard st \<and> so_saved st"
    if "(daemon s \<longrightarrow> runs_to s True) \<and> co_code (runRun quote tx msg m (Flags fl rest) daemon) = ExitForcedStop"
    for quote tx msg rest daemon
    using that code forced_after_two [of s] by blast
  show ?thesis
  proof (intro conjI exI [of _ cfg])
    show "\<exists>data. mc_files m path = Some (data, credentialFileMode) \<and> NewCredential data = Some (cl_credential (sd_client s))"
      and "\<forall>uid. mc_owner m path = Some uid \<longrightarrow> uid = mc_uid m"
      using machine_credential_safe [OF c(1)] c(2) unfolding path_def by simp_all
    show "\<forall>quote tx msg rest daemon. (daemon s \<longrightarrow> runs_to s True) \<and>
       co_code (runRun quote tx msg m (Flags fl rest) daemon) = ExitForcedStop \<longrightarrow>
       (\<exists>e es st. stops (Run_start e es (sd_agent s)) st \<and> 2 \<le> so_heard st \<and> so_saved st)"
      using two by (intro allI impI)
  qed (use cfg a machine_config_valid [OF cfg] all_offered [OF u] own in simp_all)
qed

text \<open>C23: What a passing \<open>doctor\<close> promises. On a machine that names the user of the process, an
  installation in which \<open>doctor\<close> found no failure can fail to start for two reasons only, and both are
  ones it does not look at: the state file can not be read, or the configuration has no machine id.\<close>

theorem doctor_predicts_run:
  assumes "ho_user (mc_host m) = Some (nm, Itoa (mc_uid m))" and "in64 (mc_uid m)"
    and "\<not> Report_Failed (Run_doctor (DefaultHost m))"
  shows "case start_agent m fl of
      Inr s \<Rightarrow> cf_machine_id (ag_cfg (sd_agent s)) \<noteq> []
    | Inl e \<Rightarrow> (\<exists>x. machine_state m = Inl x \<and> e = StateFails x) \<or>
        (\<exists>cfg. machine_config m = Inr cfg \<and> cf_machine_id cfg = [] \<and> e = AgentFails NoMachineID)"
proof -
  obtain cfg credential api where d: "machine_config m = Inr cfg" "machine_credential m = Inr credential"
    "New_client (mc_url m) (mc_version m) (cf_server_url cfg) credential (cf_insecure_http cfg) 0 0 = Inr api"
    and "RunAs_Err (doctor_users (DefaultHost m) cfg) = None"
    by (rule doctor_passes [OF assms(3)])
  then have u: "RunAs_Err (ResolveRunAs cfg (run_as_host_of m)) = None" by (simp add: doctor_users_agree [OF assms(1,2)])
  show ?thesis
  proof (cases "start_agent m fl")
    case (Inl e)
    with start_agent_Inl [OF this] d(1) have "build m (Some (Collect_info (mc_host m))) cfg = Inl e" by simp
    from build_Inl [OF this] d u Inl show ?thesis by auto
  next
    case (Inr s)
    then obtain cfg' where "build m (Some (Collect_info (mc_host m))) cfg' = Inr (sd_client s, sd_agent s, sd_budget s)"
      by (rule start_agent_Inr)
    then show ?thesis by (rule build_Inr) (simp add: Inr)
  qed
qed

section \<open>Witnesses\<close>

text \<open>A machine without systemd whose configuration has the given lines.\<close>

definition sample_linux :: "string \<Rightarrow> machine" where
  "sample_linux conf = \<lparr>mc_getenv = (\<lambda>_. []),
     mc_files = [''/etc/ohmyjob/agent.conf'' \<mapsto> (conf, 416), ''/etc/ohmyjob/agent.credential'' \<mapsto> (''omj_agent_x'', 384)],
     mc_owner = (\<lambda>_. Some 7), mc_read_fails = False, mc_uid = 7,
     mc_host = \<lparr>ho_goos = ''linux'', ho_goarch = [], ho_uname = None, ho_hostname = None, ho_user = Some (''u'', Itoa 7),
       ho_os_release = None, ho_interfaces = None\<rparr>,
     mc_users = (\<lambda>_. None), mc_chown = (\<lambda>_ _ _. False),
     mc_state = \<lparr>se_encode = (\<lambda>_. None), se_decode = (\<lambda>_. None), se_stamp = (\<lambda>_. []), se_now = 0, se_now2 = 0,
       se_tmp = [], se_faults = no_faults, se_mkdir_fails = False, se_read_fails = False, se_rename_fails = False\<rparr>,
     mc_url = sample_url, mc_version = ''dev'', mc_now = 0, mc_systemctl = None, mc_web = sample_web 200,
     mc_ping = (\<lambda>_. Some \<lparr>pg_machine_id = [], pg_server_version = [], pg_server_time = 0, pg_recorded_run_as_allowed = []\<rparr>),
     mc_state_stat = None, mc_state_probe = None, mc_texts = hs_texts sample_doctor, mc_config_text = (\<lambda>_. []),
     mc_credential_text = (\<lambda>_. []), mc_state_text = (\<lambda>_. [])\<rparr>"

lemma sample_paths: "agent_DefaultPaths (\<lambda>_. []) = \<lparr>ap_config_dir = ''/etc/ohmyjob'',
    ap_config_file = ''/etc/ohmyjob/agent.conf'', ap_credential_file = ''/etc/ohmyjob/agent.credential'',
    ap_state_dir = ''/var/lib/ohmyjob'', ap_state_file = ''/var/lib/ohmyjob/state.json''\<rparr>"
  by (simp add: agent_DefaultPaths_def defaultConfigDir_def defaultStateDir_def Join_path_def Clean_def clean_element_def
      HasPrefix_def Let_def)

lemma sample_linux_paths: "machine_paths (sample_linux conf) = agent_DefaultPaths (\<lambda>_. [])"
  by (simp add: machine_paths_def sample_linux_def)

lemma sample_linux_credential: "machine_credential (sample_linux conf) = Inr ''omj_agent_x''"
  unfolding machine_credential_def sample_linux_paths sample_paths
  by (simp add: sample_linux_def loadCredential_def sample_credential credentialFileMode_def)

definition sample_conf :: "string \<Rightarrow> string" where
  "sample_conf i = setting ''server_url'' ''https://omj.example'' @ setting ''machine_id'' i"

definition sample_cfg :: "string \<Rightarrow> config" where
  "sample_cfg i = Default\<lparr>cf_server_url := ''https://omj.example'', cf_machine_id := i\<rparr>"

lemma sample_linux_config:
  assumes "i \<in> {[], ''m1''}"
  shows "machine_config (sample_linux (sample_conf i)) = Inr (sample_cfg i)"
proof -
  let ?kvs = "[(''server_url'', ''https://omj.example''), (''machine_id'', i)]"
  have "plain_value i" using assms by (auto simp: plain_value_def trimmed_def TrimSpace_graphic graphic_def unquote_unquoted)
  moreover have "plain_value ''https://omj.example''" by (simp add: plain_value_def trimmed_def TrimSpace_graphic graphic_def unquote_unquoted)
  ultimately have "Parse (concat (map (\<lambda>(k, v). setting k v) ?kvs)) = Inr (config_of (map_of ?kvs))"
    by (intro Parse_settings) (simp_all add: known_keys_def good_entry_def)
  then have "Parse (sample_conf i) = Inr (sample_cfg i)"
    by (simp add: config_of_def field_def Default_def sample_conf_def sample_cfg_def)
  moreover have "Validate sample_url (sample_cfg i) = None"
    by (simp add: sample_cfg_def Validate_def validateServerURL_def sample_url_def Default_def minConcurrentRuns_def
        maxConcurrentRuns_def validateRunAsAllowed_def logLevels_def)
  ultimately show ?thesis unfolding machine_config_def sample_linux_paths sample_paths
    by (simp add: Load_config_def sample_linux_def)
qed

definition sample_run_client :: client where
  "sample_run_client = sample_api\<lparr>cl_credential := ''omj_agent_x''\<rparr>"

lemma sample_dial:
  "New_client sample_url ''dev'' (cf_server_url (sample_cfg i)) ''omj_agent_x'' (cf_insecure_http (sample_cfg i)) 0 0 =
     Inr sample_run_client"
  by (simp add: New_client_def sample_url_def sample_cfg_def Default_def sample_api_def sample_run_client_def
      trim_slashes_def BasePath_def)

lemma sample_ping: "\<exists>c'. Ping_call (sample_web 200) (mc_ping (sample_linux conf)) sample_run_client =
    (c', Inr \<lparr>pg_machine_id = [], pg_server_version = [], pg_server_time = 0, pg_recorded_run_as_allowed = []\<rparr>)"
  by (simp add: Ping_call_def call_def newRequest_def sample_web_def sample_response_def sample_run_client_def
      sample_api_def sample_linux_def readBody_def MaxResponseBytes_def credential_is_zero_def Let_def)

lemma sample_users: "ResolveRunAs (sample_cfg i) h =
    (if rh_username h \<noteq> [] then [\<lparr>ru_name = rh_username h, ru_uid = rh_uid h, ru_err = None\<rparr>] else [])"
  by (simp add: ResolveRunAs_def sample_cfg_def Default_def)

lemma sample_doctor_passes:
  assumes "i \<in> {[], ''m1''}"
  shows "\<not> Report_Failed (Run_doctor (DefaultHost (sample_linux (sample_conf i))))"
proof -
  let ?m = "sample_linux (sample_conf i)"
  let ?h = "DefaultHost ?m"
  have h: "hs_config ?h = Inr (sample_cfg i)" "hs_credential ?h = Inr ''omj_agent_x''"
    by (simp_all add: host_fields sample_linux_config [OF assms] sample_linux_credential)
  have f: "hs_url ?h = sample_url" "hs_version ?h = ''dev''" "hs_web ?h = sample_web 200" "hs_ping ?h = mc_ping ?m"
    "hs_now ?h = 0" "hs_state_stat ?h = None" "hs_state_probe ?h = None" "\<not> hs_systemd ?h"
    by (simp_all add: DefaultHost_def Let_def sample_linux_def)
  have "dial ?h (sample_cfg i) ''omj_agent_x'' = Inr sample_run_client" by (simp add: dial_def f sample_dial)
  then have "\<not> probe_fails (hs_texts ?h) (Probe ?h (sample_cfg i) ''omj_agent_x'')"
    using sample_ping [of "sample_conf i"] by (auto simp: Probe_def probe_fails_def f saturate_def)
  moreover have "\<forall>u \<in> set (doctor_users ?h (sample_cfg i)). ru_err u = None"
    by (simp add: doctor_users_def sample_users)
  ultimately show ?thesis unfolding Run_doctor_failed by (simp add: h f)
qed

lemma sample_started:
  assumes "i \<in> {[], ''m1''}"
  shows "(case start_agent (sample_linux (sample_conf i)) \<lparr>rf_log_level = [], rf_log_format = ''text''\<rparr> of
      Inl e \<Rightarrow> i = [] \<and> e = AgentFails NoMachineID | Inr s \<Rightarrow> i = ''m1'')"
proof -
  let ?m = "sample_linux (sample_conf i)"
  have "mc_url ?m = sample_url" "mc_version ?m = ''dev''" by (simp_all add: sample_linux_def)
  moreover obtain st where "machine_state ?m = Inr st"
    unfolding machine_state_def sample_linux_paths sample_paths by (simp add: Load_def sample_linux_def)
  moreover have "cf_machine_id (sample_cfg i) = i" by (simp add: sample_cfg_def)
  ultimately show ?thesis using assms
    by (auto simp: start_agent_def sample_linux_config sample_linux_credential build_def sample_dial
        sample_users New_agent_def Names_def Let_def)
qed

theorem run_starts_agent_witness:
  "\<exists>s. start_agent (sample_linux (sample_conf ''m1'')) \<lparr>rf_log_level = [], rf_log_format = ''text''\<rparr> = Inr s \<and>
     cf_machine_id (ag_cfg (sd_agent s)) = ''m1'' \<and> set (ag_run_as_allowed (sd_agent s)) = {''u''}"
proof -
  obtain s where s: "start_agent (sample_linux (sample_conf ''m1'')) \<lparr>rf_log_level = [], rf_log_format = ''text''\<rparr> = Inr s"
    using sample_started [of "''m1''"] by (auto split: sum.splits)
  have own: "currentUser (ho_user (mc_host (sample_linux (sample_conf ''m1'')))) = (''u'', 7)"
    by (simp add: sample_linux_def currentUser_def in64_def)
  have cfg: "machine_config (sample_linux (sample_conf ''m1'')) = Inr (sample_cfg ''m1'')"
    by (rule sample_linux_config) simp
  have "cf_run_as_allowed (sample_cfg ''m1'') = []" and "cf_machine_id (sample_cfg ''m1'') = ''m1''"
    by (simp_all add: sample_cfg_def Default_def)
  with conjunct1 [OF run_starts_agent [OF s]] own cfg s show ?thesis by auto
qed

theorem doctor_predicts_run_witness:
  "\<exists>s. start_agent (sample_linux (sample_conf ''m1'')) \<lparr>rf_log_level = [], rf_log_format = ''text''\<rparr> = Inr s \<and>
     cf_machine_id (ag_cfg (sd_agent s)) \<noteq> []"
proof -
  let ?m = "sample_linux (sample_conf ''m1'')"
  have u: "ho_user (mc_host ?m) = Some (''u'', Itoa (mc_uid ?m))" and w: "in64 (mc_uid ?m)"
    by (simp_all add: sample_linux_def in64_def)
  have "\<not> Report_Failed (Run_doctor (DefaultHost ?m))" by (rule sample_doctor_passes) simp
  from doctor_predicts_run [OF u w this, of "\<lparr>rf_log_level = [], rf_log_format = ''text''\<rparr>"] sample_started [of "''m1''"]
  show ?thesis by (auto split: sum.splits)
qed

text \<open>A configuration without a machine id passes all checks, and the daemon does not start with it.\<close>

lemma doctor_misses_machine_id:
  "\<not> Report_Failed (Run_doctor (DefaultHost (sample_linux (sample_conf [])))) \<and>
   start_agent (sample_linux (sample_conf [])) \<lparr>rf_log_level = [], rf_log_format = ''text''\<rparr> = Inl (AgentFails NoMachineID)"
  using sample_doctor_passes [of "[]"] sample_started [of "[]"] by (auto split: sum.splits)

end
