(* ===== verification/Cli_Report.thy ===== *)
theory Cli_Report
  imports Cli_Run
begin

text \<open>
  \<open>internal/cli/status.go\<close>, \<open>doctor.go\<close> and \<open>discover.go\<close>: the commands that look at an installation
  and print what they find. The timeout of the probe is part of what the Server answers. How a time is
  printed and how a payload is encoded are parameters; counts are printed in decimal.
\<close>

section \<open>doctor\<close>

definition status_text :: "status \<Rightarrow> string" where
  "status_text s = (case s of Pass \<Rightarrow> ''PASS'' | Warn \<Rightarrow> ''WARN'' | Fail \<Rightarrow> ''FAIL'')"

definition check_line :: "check \<Rightarrow> string" where
  "check_line c = line_of (pad 4 (status_text (ch_status c)) @ ''  '' @ pad 16 (ch_name c) @ '' '' @ ch_detail c)"

definition runDoctor :: "doctor_host \<Rightarrow> unit flags \<Rightarrow> cli_output" where
  "runDoctor h fl =
     (case parseNoFlags ''doctor'' fl of
        Some (code, err) \<Rightarrow> Exit code [] err
      | None \<Rightarrow>
          (let report = Run_doctor h; out = concat (map check_line report)
           in if Report_Failed report
              then Exit ExitError out (line_of ''omj-agent doctor: at least one check failed'')
              else Exit ExitOK out []))"

section \<open>status\<close>

definition row :: "string \<Rightarrow> string \<Rightarrow> string" where
  "row lbl v = line_of (pad 16 lbl @ v)"

definition signed_duration :: "texts \<Rightarrow> duration \<Rightarrow> string" where
  "signed_duration tx d = (if d < 0 then ''-'' @ tx_duration tx (Abs_duration d) else ''+'' @ tx_duration tx d)"

text \<open>The text of an error of reading a file.\<close>

fun read_text :: "read_error \<Rightarrow> string" where
  "read_text (NotExist e) = e"
| "read_text (ReadFails e) = e"

definition serverLine :: "(time \<Rightarrow> string) \<Rightarrow> doctor_host \<Rightarrow> config \<Rightarrow> string" where
  "serverLine rfc3339 h cfg =
     (case hs_credential h of
        Inl e \<Rightarrow> ''FAIL '' @ read_text e
      | Inr credential \<Rightarrow>
          (let probe = Probe h cfg credential; c = ServerCheck h cfg probe;
               line = status_text (ch_status c) @ '' '' @ ch_detail c
           in if pr_err probe = None
              then line @ ''; server time '' @ rfc3339 (pr_server_time probe) @ ''; clock skew '' @
                signed_duration (hs_texts h) (Round (100 * millisecond) (pr_skew probe))
              else line))"

definition activeRuns :: "(time \<Rightarrow> string) \<Rightarrow> doctor_host \<Rightarrow> string" where
  "activeRuns rfc3339 h =
     (case hs_state h of
        Inl e \<Rightarrow> row ''Active runs'' (''FAIL '' @ e)
      | Inr st \<Rightarrow>
          (let active = Active st
           in if active = [] then row ''Active runs'' ''none''
              else row ''Active runs'' (Itoa (int (length active))) @
                concat (map (\<lambda>r. line_of (''  '' @ av_run_id r @ ''  pid '' @ Itoa (av_pid r) @ ''  started '' @
                  rfc3339 (av_started_at r))) active)))"

definition serviceLine :: "doctor_host \<Rightarrow> string" where
  "serviceLine h =
     (if \<not> hs_systemd h then ''systemd not present''
      else let active = fst (hs_systemctl h [''is-active'', doctor_unit])
           in if active = [] then ''omj-agent is not installed'' else active)"

definition config_rows :: "doctor_host \<Rightarrow> string" where
  "config_rows h =
     (case hs_config h of
        Inl (NotExist _) \<Rightarrow> row ''Server URL'' ''not enrolled; run omj-agent enroll'' @ row ''Machine'' ''not enrolled''
      | Inl (ReadFails e) \<Rightarrow> row ''Server URL'' (''FAIL '' @ e) @ row ''Machine'' ''unknown''
      | Inr cfg \<Rightarrow> row ''Server URL'' (cf_server_url cfg) @ row ''Machine'' (cf_machine_id cfg))"

definition limit_rows :: "(time \<Rightarrow> string) \<Rightarrow> doctor_host \<Rightarrow> string" where
  "limit_rows rfc3339 h =
     (case hs_config h of
        Inr cfg \<Rightarrow>
          row ''Limits'' (Itoa (cf_max_concurrent_runs cfg) @ '' concurrent runs, timeout up to '' @
            Itoa (cf_max_timeout_seconds cfg) @ '' s, output up to '' @ Itoa (cf_max_output_bytes cfg) @ '' bytes'') @
          row ''Server'' (serverLine rfc3339 h cfg)
      | Inl _ \<Rightarrow> row ''Limits'' ''unknown'' @ row ''Server'' ''not checked; fix the configuration first'')"

definition runStatus :: "(time \<Rightarrow> string) \<Rightarrow> doctor_host \<Rightarrow> unit flags \<Rightarrow> cli_output" where
  "runStatus rfc3339 h fl =
     (case parseNoFlags ''status'' fl of
        Some (code, err) \<Rightarrow> Exit code [] err
      | None \<Rightarrow> Exit ExitOK
          (row ''Configuration'' (hs_config_file h) @ config_rows h @
           row ''User'' (hs_username h @ '' (uid '' @ Itoa (hs_uid h) @ '')'') @
           limit_rows rfc3339 h @ activeRuns rfc3339 h @ row ''Service'' (serviceLine h)) [])"

section \<open>discover\<close>

text \<open>\<open>collected\<close> is what \<open>discovery.Collect\<close> returned, \<open>encode\<close> the JSON of a payload; \<open>failed\<close> are the
  texts of their errors.\<close>

definition runDiscover :: "(discovery_request \<Rightarrow> string option) \<Rightarrow> string \<Rightarrow> string \<Rightarrow> discovery_result option \<Rightarrow> unit flags \<Rightarrow>
    cli_output" where
  "runDiscover encode collect_failed encode_failed collected fl =
     (case parseNoFlags ''discover'' fl of
        Some (code, err) \<Rightarrow> Exit code [] err
      | None \<Rightarrow>
          (case collected of
             None \<Rightarrow> Exit ExitError [] (line_of (''omj-agent discover: '' @ collect_failed))
           | Some result \<Rightarrow>
               (let payload = DiscoveryPayload result
                in case encode payload of
                     None \<Rightarrow> Exit ExitError [] (line_of (''omj-agent discover: '' @ encode_failed))
                   | Some encoded \<Rightarrow> Exit ExitOK (line_of encoded)
                       (line_of [] @ line_of (Itoa (int (length (dr_entries payload))) @ '' entries, '' @
                         Itoa (dr_omitted_entries payload) @ '' omitted, '' @
                         Itoa (int (length (dr_unreadable_sources payload))) @
                         '' unreadable sources. Nothing was sent.'')))))"

section \<open>The program\<close>

text \<open>What the commands are given: the machine, how each of them parses its arguments, and the texts.\<close>

record cli_world =
  cw_machine :: machine
  cw_quote :: "string \<Rightarrow> string"
  cw_build :: build_info
  cw_enroll_flags :: "string list \<Rightarrow> enroll_flags flags"
  cw_run_flags :: "string list \<Rightarrow> run_flags flags"
  cw_no_flags :: "string list \<Rightarrow> unit flags"
  cw_enroll_text :: "enroll_message \<Rightarrow> string"
  cw_enroll_env :: enroll_env
  cw_enroll_base :: enroll_options
  cw_start_text :: "start_failure \<Rightarrow> string"
  cw_forced_text :: string
  cw_daemon :: "started \<Rightarrow> bool"
  cw_rfc3339 :: "time \<Rightarrow> string"
  cw_encode :: "discovery_request \<Rightarrow> string option"
  cw_collect_failed :: string
  cw_encode_failed :: string
  cw_collected :: "discovery_result option"

definition run_subcommand :: "cli_world \<Rightarrow> subcommand \<Rightarrow> string list \<Rightarrow> cli_output" where
  "run_subcommand w c args =
     (case c of
        CmdEnroll \<Rightarrow> fst (runEnroll (cw_enroll_text w) (cw_enroll_env w) (cw_enroll_base w) (cw_enroll_flags w args)
          (mc_files (cw_machine w)))
      | CmdRun \<Rightarrow> runRun (cw_quote w) (cw_start_text w) (cw_forced_text w) (cw_machine w) (cw_run_flags w args) (cw_daemon w)
      | CmdStatus \<Rightarrow> runStatus (cw_rfc3339 w) (DefaultHost (cw_machine w)) (cw_no_flags w args)
      | CmdVersion \<Rightarrow> runVersion (cw_build w) (cw_no_flags w args)
      | CmdDoctor \<Rightarrow> runDoctor (DefaultHost (cw_machine w)) (cw_no_flags w args)
      | CmdDiscover \<Rightarrow> runDiscover (cw_encode w) (cw_collect_failed w) (cw_encode_failed w) (cw_collected w) (cw_no_flags w args))"

definition omj_agent_main :: "cli_world \<Rightarrow> string list \<Rightarrow> cli_output" where
  "omj_agent_main w args = Run_cli (cw_quote w) (run_subcommand w) args"

lemma unknown_command:
  assumes "a \<notin> {''help'', ''-h'', ''--help''} \<union> fst ` set commands"
  shows "co_code (omj_agent_main w (a # rest)) = ExitUsage \<and> co_stdout (omj_agent_main w (a # rest)) = []"
proof -
  have "map_of (map (\<lambda>(nm, _, c). (nm, c)) commands) a = None"
    using assms by (simp add: commands_def)
  with assms show ?thesis by (simp add: omj_agent_main_def Run_cli_def)
qed

section \<open>Exit codes of the reports\<close>

lemma runDoctor_code:
  "co_code (runDoctor h (Flags () [])) = (if Report_Failed (Run_doctor h) then ExitError else ExitOK)"
  by (simp add: runDoctor_def parseNoFlags_def Let_def)

lemma runStatus_code: "co_code (runStatus rfc3339 h (Flags () [])) = ExitOK"
  by (simp add: runStatus_def parseNoFlags_def)

text \<open>The standard output of \<open>discover\<close> is the body a report would have, and nothing else.\<close>

lemma runDiscover_payload:
  assumes "co_code (runDiscover encode cf ef collected (Flags () [])) = ExitOK"
  shows "\<exists>r s. collected = Some r \<and> encode (DiscoveryPayload r) = Some s \<and>
    co_stdout (runDiscover encode cf ef collected (Flags () [])) = line_of s"
  using assms by (auto simp: runDiscover_def parseNoFlags_def exit_defs Let_def split: option.splits)

end
