(* ===== verification/Enroll_Run.thy ===== *)
theory Enroll_Run
  imports Cli_Run
begin

text \<open>
  An enrollment on a machine, and the daemon that is started on what it left behind. \<open>withDefaults\<close>,
  \<open>DefaultSystem\<close> and \<open>lookupUser\<close> of \<open>internal/enroll/enroll.go\<close> say how the options of the command
  are completed from the machine.
\<close>

section \<open>Default options\<close>

definition DefaultServiceUnit :: string where
  "DefaultServiceUnit = ''/etc/systemd/system/omj-agent.service''"

definition enroll_lookupUser :: "(string \<Rightarrow> (string \<times> string) option) \<Rightarrow> string \<Rightarrow> (int \<times> int) option" where
  "enroll_lookupUser users nm =
     (case users nm of
        None \<Rightarrow> None
      | Some (u, g) \<Rightarrow>
          (case Atoi u of None \<Rightarrow> None | Some uid \<Rightarrow>
          (case Atoi g of None \<Rightarrow> None | Some gid \<Rightarrow> Some (uid, gid))))"

definition DefaultSystem :: "machine \<Rightarrow> system" where
  "DefaultSystem m =
     \<lparr>sm_uid = mc_uid m,
      sm_username = (case ho_user (mc_host m) of None \<Rightarrow> [] | Some (nm, _) \<Rightarrow> nm),
      sm_users = enroll_lookupUser (mc_users m), sm_chown = mc_chown m,
      sm_unit_there = (mc_files m DefaultServiceUnit \<noteq> None)\<rparr>"

text \<open>\<open>withDefaults\<close> on the options of the command, which sets none of the fields filled in here.\<close>

definition enroll_withDefaults :: "machine \<Rightarrow> enroll_options" where
  "enroll_withDefaults m =
     \<lparr>eo_server_url = [], eo_token = [], eo_name = [], eo_insecure_http = False, eo_user = [], eo_force = False,
      eo_config_dir = ap_config_dir (machine_paths m), eo_config_file = ap_config_file (machine_paths m),
      eo_credential_file = ap_credential_file (machine_paths m),
      eo_collect = Some (Collect_info (mc_host m)), eo_system = DefaultSystem m\<rparr>"

definition machine_options :: "machine \<Rightarrow> enroll_flags \<Rightarrow> enroll_options" where
  "machine_options m fl = options_of (enroll_withDefaults m) fl"

lemma machine_options_simps [simp]:
  "eo_server_url (machine_options m fl) = ef_server fl" "eo_insecure_http (machine_options m fl) = ef_insecure_http fl"
  "eo_config_file (machine_options m fl) = ap_config_file (machine_paths m)"
  "eo_credential_file (machine_options m fl) = ap_credential_file (machine_paths m)"
  "eo_collect (machine_options m fl) = Some (Collect_info (mc_host m))" "eo_system (machine_options m fl) = DefaultSystem m"
  by (simp_all add: machine_options_def options_of_def enroll_withDefaults_def)

section \<open>Users the enrollment has checked\<close>

lemma lookup_machine: "enroll_lookupUser (mc_users m) nm = Some (u, g) \<Longrightarrow> machine_lookup m nm = Some u"
  by (auto simp: enroll_lookupUser_def machine_lookup_def LookupUser_def split: option.splits)

lemma RunAs_Err_mono:
  assumes "RunAs_Err (ResolveRunAs cfg h) = None" and "rh_uid h' = rh_uid h" and "rh_username h' = rh_username h"
    and "\<And>n. rh_lookup h n \<noteq> None \<Longrightarrow> rh_lookup h' n \<noteq> None"
  shows "RunAs_Err (ResolveRunAs cfg h') = None"
  using assms unfolding RunAs_Err_iff ResolveRunAs_def list_all_append checked_ok by (auto simp: list_all_iff)

lemma allowed_here:
  assumes "allowedUsers cfg (Collect_info (mc_host m)) (DefaultSystem m) = Inr names"
  shows "RunAs_Err (ResolveRunAs cfg (run_as_host_of m)) = None"
proof (rule RunAs_Err_mono)
  show "RunAs_Err (ResolveRunAs cfg \<lparr>rh_uid = si_agent_uid (Collect_info (mc_host m)),
      rh_username = si_agent_user (Collect_info (mc_host m)),
      rh_lookup = (\<lambda>nm. map_option fst (sm_users (DefaultSystem m) nm))\<rparr>) = None"
    using assms by (auto simp: allowedUsers_def Let_def split: option.splits)
qed (auto simp: run_as_host_of_def agent_user_of DefaultSystem_def dest: lookup_machine)

lemma enrolled_run_as: "ResolveRunAs (enrolled_config cfg opts response) h = ResolveRunAs cfg h"
  by (simp add: ResolveRunAs_def enrolled_config_def)

section \<open>Starting on what an enrollment wrote\<close>

definition after_enroll :: "enroll_env \<Rightarrow> enroll_flags \<Rightarrow> machine \<Rightarrow> machine" where
  "after_enroll ev fl m = m\<lparr>mc_files := el_files (Enroll ev (machine_options m fl) (mc_files m))\<rparr>"

lemma after_enroll_fields [simp]:
  "machine_paths (after_enroll ev fl m) = machine_paths m" "mc_url (after_enroll ev fl m) = mc_url m"
  "mc_version (after_enroll ev fl m) = mc_version m" "mc_host (after_enroll ev fl m) = mc_host m"
  "run_as_host_of (after_enroll ev fl m) = run_as_host_of m" "mc_owner (after_enroll ev fl m) = mc_owner m"
  "mc_read_fails (after_enroll ev fl m) = mc_read_fails m" "mc_uid (after_enroll ev fl m) = mc_uid m"
  "mc_state (after_enroll ev fl m) = mc_state m"
  by (simp_all add: after_enroll_def machine_paths_def run_as_host_of_def machine_lookup_def)

lemma New_client_other_credential:
  "New_client up v url c insecure t h = Inr api \<Longrightarrow> New_client up v url c' insecure t h = Inr (api\<lparr>cl_credential := c'\<rparr>)"
  by (auto simp: New_client_def split: option.splits if_splits prod.splits)

lemma build_starts:
  assumes "machine_credential m = Inr c" and "machine_state m = Inr st"
    and "New_client (mc_url m) (mc_version m) (cf_server_url cfg) c (cf_insecure_http cfg) 0 0 = Inr api"
    and "RunAs_Err (ResolveRunAs cfg (run_as_host_of m)) = None" and "cf_machine_id cfg \<noteq> []"
    and "machine_config m = Inr cfg"
  shows "\<exists>s. start_agent m fl = Inr s \<and> ag_cfg (sd_agent s) = cfg \<and> sd_client s = api"
  using assms by (simp add: start_agent_def build_def New_agent_def run_as_host_of_def agent_user_of Let_def)

lemma machine_state_there: "\<not> se_read_fails (mc_state m) \<Longrightarrow> \<exists>st. machine_state m = Inr st"
  by (auto simp: machine_state_def Load_def Let_def split: option.split)

section \<open>Properties\<close>


section \<open>Witness\<close>

definition bare_linux :: machine where
  "bare_linux = (sample_linux [])\<lparr>mc_files := Map.empty\<rparr>"

definition enrolling :: enroll_flags where
  "enrolling = \<lparr>ef_server = ''https://omj.example'', ef_token = ''omj_enroll_t'', ef_name = [], ef_insecure_http = False,
     ef_user = [], ef_force = False\<rparr>"

lemma bare_paths: "machine_paths bare_linux = agent_DefaultPaths (\<lambda>_. [])"
  by (simp add: bare_linux_def machine_paths_def sample_linux_def)

lemma bare_files:
  "eo_config_file (machine_options bare_linux enrolling) = ''/etc/ohmyjob/agent.conf''"
  "eo_credential_file (machine_options bare_linux enrolling) = ''/etc/ohmyjob/agent.credential''"
  by (simp_all add: bare_paths sample_paths)

lemma bare_fields:
  "mc_files bare_linux = Map.empty" "mc_url bare_linux = sample_url" "mc_version bare_linux = ''dev''"
  "mc_owner bare_linux p = Some 7" "mc_uid bare_linux = 7" "\<not> mc_read_fails bare_linux"
  "\<not> se_read_fails (mc_state bare_linux)" "ho_user (mc_host bare_linux) = Some (''u'', Itoa 7)"
  by (simp_all add: bare_linux_def sample_linux_def)

lemma bare_enroll:
  "\<exists>request. Enroll sample_enroll_env (machine_options bare_linux enrolling) Map.empty =
     exchange sample_enroll_env (machine_options bare_linux enrolling) (own_files ''u'') Default sample_api request Map.empty"
proof -
  let ?o = "machine_options bare_linux enrolling"
  have "validate_options ?o = None" and "resolveOwner ?o = Inr (own_files ''u'')"
    by (simp_all add: validate_options_def resolveOwner_def machine_options_def options_of_def enroll_withDefaults_def
        DefaultSystem_def bare_fields enrolling_def TokenPrefix_def HasPrefix_def)
  moreover have "existingConfig sample_enroll_env ?o Map.empty = Inr Default" by (simp add: existingConfig_def)
  moreover have "ensureWritable sample_enroll_env Map.empty = (Map.empty, None)"
    by (simp add: ensureWritable_def sample_enroll_env_def)
  moreover have "New_client (ev_url sample_enroll_env) (ev_version sample_enroll_env) (ef_server enrolling) []
      (ef_insecure_http enrolling) 0 0 = Inr sample_api"
    by (simp add: New_client_def sample_enroll_env_def enrolling_def sample_url_def sample_api_def trim_slashes_def BasePath_def)
  moreover have "\<exists>names. allowedUsers Default (Collect_info (mc_host bare_linux)) (DefaultSystem bare_linux) = Inr names"
    by (simp add: allowedUsers_def ResolveRunAs_def Default_def)
  ultimately show ?thesis by (auto simp: Enroll_def) (simp add: Default_def)
qed

lemma bare_validate:
  "Validate (ev_url sample_enroll_env) (enrolled_config Default (machine_options bare_linux enrolling)
     \<lparr>es_machine_id = ''m1'', es_credential = ''omj_agent_x'', es_server_time = 0\<rparr>) = None"
  by (simp add: enrolled_config_def enrolling_def sample_enroll_env_def Validate_def validateServerURL_def sample_url_def
      Default_def minConcurrentRuns_def maxConcurrentRuns_def validateRunAsAllowed_def logLevels_def)

lemma bare_enrolled:
  "\<exists>res. el_result (Enroll sample_enroll_env (machine_options bare_linux enrolling) Map.empty) = Inr res \<and>
     en_machine_id res = ''m1''"
proof -
  let ?o = "machine_options bare_linux enrolling"
  obtain request where e: "Enroll sample_enroll_env ?o Map.empty =
      exchange sample_enroll_env ?o (own_files ''u'') Default sample_api request Map.empty" using bare_enroll by blast
  have s: "ev_save_config sample_enroll_env = sample_save" "ev_save_credential sample_enroll_env = sample_save"
    by (simp_all add: sample_enroll_env_def)
  show ?thesis unfolding e
    by (simp add: exchange_def sample_exchange write_files_def sample_credential Save_config_def bare_validate s sample_save_def
        SaveCredential_def atomic_write_def no_faults_def credential_is_zero_def own_files_def bare_files Let_def)
qed


end
