(* ===== verification/State_Alias.thy ===== *)
theory State_Alias
  imports State_Store
begin

text \<open>
  The pointers of \<open>internal/state/state.go\<close>. \<open>Outcome\<close> and \<open>RecentRun\<close> hold \<open>*int\<close>, \<open>*time.Time\<close> and
  \<open>*FinishReason\<close>, and a caller may write through a pointer it has passed in or was given.
  \<open>State_Store\<close> has values in their place; here the cells are explicit, the three clone functions
  are modelled, and it is shown that with them the values are all there is to see.
\<close>

section \<open>Cells\<close>

text \<open>The cells of one type are a list, a pointer is an index, and a new cell goes to the end; \<open>None\<close> is nil.\<close>

type_synonym pointer = "nat option"

definition pointee :: "'a list \<Rightarrow> pointer \<Rightarrow> 'a option" where
  "pointee cells p = map_option (\<lambda>i. cells ! i) p"

definition clone :: "'a list \<Rightarrow> pointer \<Rightarrow> pointer \<times> 'a list" where
  "clone cells p = (case p of None \<Rightarrow> (None, cells) | Some i \<Rightarrow> (Some (length cells), cells @ [cells ! i]))"

record heap =
  hp_codes :: "int list"
  hp_times :: "time list"
  hp_reasons :: "finish_reason list"

definition cloneExitCode :: "pointer \<Rightarrow> heap \<Rightarrow> pointer \<times> heap" where
  "cloneExitCode code h = (case clone (hp_codes h) code of (p, cells) \<Rightarrow> (p, h\<lparr>hp_codes := cells\<rparr>))"

definition cloneReason :: "pointer \<Rightarrow> heap \<Rightarrow> pointer \<times> heap" where
  "cloneReason reason h = (case clone (hp_reasons h) reason of (p, cells) \<Rightarrow> (p, h\<lparr>hp_reasons := cells\<rparr>))"

definition cloneTime :: "pointer \<Rightarrow> heap \<Rightarrow> pointer \<times> heap" where
  "cloneTime moment h = (case clone (hp_times h) moment of (p, cells) \<Rightarrow> (p, h\<lparr>hp_times := cells\<rparr>))"

section \<open>The store with pointers\<close>

record ptr_outcome =
  po_status :: run_status
  po_exit_code :: pointer
  po_started_at :: pointer
  po_reason :: pointer

record ptr_recent =
  pq_run_id :: string
  pq_status :: run_status
  pq_exit_code :: pointer
  pq_started_at :: pointer
  pq_finished_at :: time
  pq_reason :: pointer

record ptr_contents =
  pc_machine_id :: string
  pc_active :: "active_run list"
  pc_recent :: "ptr_recent list"

text \<open>Go evaluates the clones in the order of the fields.\<close>

definition ptr_recent_of :: "string \<Rightarrow> ptr_outcome \<Rightarrow> time \<Rightarrow> heap \<Rightarrow> ptr_recent \<times> heap" where
  "ptr_recent_of runID out now h =
     (let (code, h1) = cloneExitCode (po_exit_code out) h;
          (started, h2) = cloneTime (po_started_at out) h1;
          (reason, h3) = cloneReason (po_reason out) h2
      in (\<lparr>pq_run_id = runID, pq_status = po_status out, pq_exit_code = code, pq_started_at = started,
           pq_finished_at = now, pq_reason = reason\<rparr>, h3))"

definition ptr_prune :: "time \<Rightarrow> ptr_contents \<Rightarrow> ptr_contents" where
  "ptr_prune now c =
     (let cutoff = now - RecentRunTTL;
          recent = filter (\<lambda>r. \<not> pq_finished_at r < cutoff) (pc_recent c)
      in c\<lparr>pc_recent := (if length recent > MaxRecentRuns
                          then drop (length recent - MaxRecentRuns) recent else recent)\<rparr>)"

text \<open>The memory side of \<open>MarkFinished\<close>, \<open>MarkActive\<close>, \<open>SetMachineID\<close> and \<open>RecentOutcome\<close>. A record
  that is returned is cloned field by field.\<close>

definition ptr_MarkFinished :: "store_env \<Rightarrow> string \<Rightarrow> ptr_outcome \<Rightarrow> ptr_contents \<times> heap \<Rightarrow> ptr_contents \<times> heap" where
  "ptr_MarkFinished e runID out ch =
     (case ptr_recent_of runID out (se_now e) (snd ch) of
        (recent, h) \<Rightarrow>
          (ptr_prune (se_now2 e)
             ((fst ch)\<lparr>pc_active := filter (\<lambda>r. av_run_id r \<noteq> runID) (pc_active (fst ch)),
                pc_recent := upsert (\<lambda>r. pq_run_id r = runID) recent (pc_recent (fst ch))\<rparr>), h))"

definition ptr_MarkActive :: "store_env \<Rightarrow> active_run \<Rightarrow> ptr_contents \<Rightarrow> ptr_contents" where
  "ptr_MarkActive e run c =
     ptr_prune (se_now e) (c\<lparr>pc_active := upsert (\<lambda>r. av_run_id r = av_run_id run) run (pc_active c)\<rparr>)"

definition ptr_SetMachineID :: "store_env \<Rightarrow> string \<Rightarrow> ptr_contents \<Rightarrow> ptr_contents" where
  "ptr_SetMachineID e machineID c = ptr_prune (se_now e) (c\<lparr>pc_machine_id := machineID\<rparr>)"

definition ptr_RecentOutcome :: "string \<Rightarrow> ptr_contents \<times> heap \<Rightarrow> ptr_recent option \<times> heap" where
  "ptr_RecentOutcome runID ch =
     (case find (\<lambda>r. pq_run_id r = runID) (pc_recent (fst ch)) of
        None \<Rightarrow> (None, snd ch)
      | Some recent \<Rightarrow>
          (let (code, h1) = cloneExitCode (pq_exit_code recent) (snd ch);
               (started, h2) = cloneTime (pq_started_at recent) h1;
               (reason, h3) = cloneReason (pq_reason recent) h2
           in (Some (recent\<lparr>pq_exit_code := code, pq_started_at := started, pq_reason := reason\<rparr>), h3)))"

section \<open>What the pointers stand for\<close>

definition outcome_value :: "heap \<Rightarrow> ptr_outcome \<Rightarrow> outcome" where
  "outcome_value h out = \<lparr>oc_status = po_status out, oc_exit_code = pointee (hp_codes h) (po_exit_code out),
     oc_started_at = pointee (hp_times h) (po_started_at out), oc_reason = pointee (hp_reasons h) (po_reason out)\<rparr>"

definition recent_value :: "heap \<Rightarrow> ptr_recent \<Rightarrow> recent_run" where
  "recent_value h r = \<lparr>rr_run_id = pq_run_id r, rr_status = pq_status r, rr_exit_code = pointee (hp_codes h) (pq_exit_code r),
     rr_started_at = pointee (hp_times h) (pq_started_at r), rr_finished_at = pq_finished_at r,
     rr_reason = pointee (hp_reasons h) (pq_reason r)\<rparr>"

definition contents_value :: "heap \<Rightarrow> ptr_contents \<Rightarrow> contents" where
  "contents_value h c = \<lparr>cn_machine_id = pc_machine_id c, cn_active = pc_active c,
     cn_recent = map (recent_value h) (pc_recent c)\<rparr>"

section \<open>Ownership\<close>

text \<open>The cells the store's records point to, and that no pointer outside the store reaches any of them.\<close>

definition owned :: "(ptr_recent \<Rightarrow> pointer) \<Rightarrow> ptr_contents \<Rightarrow> nat set" where
  "owned f c = (\<Union>r \<in> set (pc_recent c). set_option (f r))"

definition apart :: "'a list \<Rightarrow> nat set \<Rightarrow> nat set \<Rightarrow> bool" where
  "apart cells own out \<longleftrightarrow> own \<inter> out = {} \<and> (\<forall>i \<in> own \<union> out. i < length cells)"

record shared =
  sh_heap :: heap
  sh_store :: ptr_contents
  sh_codes :: "nat set"
  sh_times :: "nat set"
  sh_reasons :: "nat set"

definition isolated :: "shared \<Rightarrow> bool" where
  "isolated s \<longleftrightarrow>
     apart (hp_codes (sh_heap s)) (owned pq_exit_code (sh_store s)) (sh_codes s) \<and>
     apart (hp_times (sh_heap s)) (owned pq_started_at (sh_store s)) (sh_times s) \<and>
     apart (hp_reasons (sh_heap s)) (owned pq_reason (sh_store s)) (sh_reasons s)"

definition shared_value :: "shared \<Rightarrow> contents" where
  "shared_value s = contents_value (sh_heap s) (sh_store s)"

subsection \<open>Cells\<close>

lemma clone_simps [simp]:
  "clone cells None = (None, cells)" "clone cells (Some i) = (Some (length cells), cells @ [cells ! i])"
  by (simp_all add: clone_def)

lemma pointee_simps [simp]: "pointee cells None = None" "pointee cells (Some i) = Some (cells ! i)"
  by (simp_all add: pointee_def)

lemma pointee_clone [simp]: "pointee (snd (clone cells p)) (fst (clone cells p)) = pointee cells p"
  by (cases p) simp_all

lemma clone_keeps: "i < length cells \<Longrightarrow> snd (clone cells p) ! i = cells ! i"
  by (cases p) (simp_all add: nth_append)

lemma pointee_cong: "(\<And>i. p = Some i \<Longrightarrow> cells' ! i = cells ! i) \<Longrightarrow> pointee cells' p = pointee cells p"
  by (cases p) simp_all

lemma apart_fewer: "apart cells own out \<Longrightarrow> own' \<subseteq> own \<Longrightarrow> apart cells own' out"
  by (auto simp: apart_def)

lemma apart_append:
  "apart cells own out \<Longrightarrow> apart (cells @ [v]) (insert (length cells) own) out"
  "apart cells own out \<Longrightarrow> apart (cells @ [v]) own (insert (length cells) out)"
  by (auto simp: apart_def less_Suc_eq)

lemma apart_clone_own:
  "apart cells own out \<Longrightarrow> own' \<subseteq> own \<union> set_option (fst (clone cells p)) \<Longrightarrow> apart (snd (clone cells p)) own' out"
  by (cases p) (auto elim: apart_fewer intro: apart_fewer [OF apart_append(1)])

lemma apart_clone_out:
  "apart cells own out \<Longrightarrow> apart (snd (clone cells p)) own (out \<union> set_option (fst (clone cells p)))"
  by (cases p) (simp_all add: apart_append)

lemma apart_write: "apart cells own out \<Longrightarrow> apart (cells[i := v]) own out"
  by (simp add: apart_def)

subsection \<open>Values seen through the heap\<close>

lemma contents_value_cong:
  assumes "\<And>i. i \<in> owned pq_exit_code c \<Longrightarrow> hp_codes h' ! i = hp_codes h ! i"
    and "\<And>i. i \<in> owned pq_started_at c \<Longrightarrow> hp_times h' ! i = hp_times h ! i"
    and "\<And>i. i \<in> owned pq_reason c \<Longrightarrow> hp_reasons h' ! i = hp_reasons h ! i"
  shows "contents_value h' c = contents_value h c"
proof -
  have "recent_value h' r = recent_value h r" if "r \<in> set (pc_recent c)" for r
  proof -
    have "i \<in> owned f c" if "f r = Some i" for f i using that \<open>r \<in> set (pc_recent c)\<close> by (force simp: owned_def)
    with assms show ?thesis by (auto simp: recent_value_def intro!: pointee_cong)
  qed
  then show ?thesis by (simp add: contents_value_def)
qed

lemma map_upsert: "(\<And>y. y \<in> set xs \<Longrightarrow> q (f y) = p y) \<Longrightarrow> map f (upsert p x xs) = upsert q (f x) (map f xs)"
  by (induction xs) simp_all

lemma value_prune: "contents_value h (ptr_prune t c) = prune t (contents_value h c)"
  by (simp add: contents_value_def ptr_prune_def prune_def Let_def filter_map comp_def recent_value_def drop_map)

lemma owned_prune: "owned f (ptr_prune t c) \<subseteq> owned f c"
proof -
  have "set (pc_recent (ptr_prune t c)) \<subseteq> set (pc_recent c)"
    by (auto simp: ptr_prune_def Let_def dest: in_set_dropD)
  then show ?thesis by (auto simp: owned_def)
qed

lemma owned_upsert:
  "owned f (c\<lparr>pc_active := as, pc_recent := upsert p r (pc_recent c)\<rparr>) \<subseteq> owned f c \<union> set_option (f r)"
  using set_upsert_subset [of p r "pc_recent c"] by (fastforce simp: owned_def)

section \<open>What may happen to the store and around it\<close>

text \<open>An operation of the store, labelled with the value it got or gave; or something the rest of the
  program does with its own pointers: it makes a new cell, or writes through a pointer it holds.\<close>

datatype store_event =
    Finished store_env string outcome | Activated store_env active_run | Adopted store_env string
  | Looked string "recent_run option" | Elsewhere

definition holds :: "shared \<Rightarrow> ptr_outcome \<Rightarrow> bool" where
  "holds s out \<longleftrightarrow> set_option (po_exit_code out) \<subseteq> sh_codes s \<and> set_option (po_started_at out) \<subseteq> sh_times s \<and>
     set_option (po_reason out) \<subseteq> sh_reasons s"

definition give :: "ptr_recent option \<Rightarrow> heap \<Rightarrow> shared \<Rightarrow> shared" where
  "give r h s =
     (let pointers = (\<lambda>f. case r of None \<Rightarrow> {} | Some q \<Rightarrow> set_option (f q))
      in s\<lparr>sh_heap := h, sh_codes := sh_codes s \<union> pointers pq_exit_code,
           sh_times := sh_times s \<union> pointers pq_started_at, sh_reasons := sh_reasons s \<union> pointers pq_reason\<rparr>)"

inductive shared_step :: "shared \<Rightarrow> store_event \<Rightarrow> shared \<Rightarrow> bool" where
  finishes: "holds s out \<Longrightarrow> ptr_MarkFinished e i out (sh_store s, sh_heap s) = (c, h) \<Longrightarrow>
    shared_step s (Finished e i (outcome_value (sh_heap s) out)) (s\<lparr>sh_store := c, sh_heap := h\<rparr>)"
| activates: "shared_step s (Activated e r) (s\<lparr>sh_store := ptr_MarkActive e r (sh_store s)\<rparr>)"
| adopts: "shared_step s (Adopted e i) (s\<lparr>sh_store := ptr_SetMachineID e i (sh_store s)\<rparr>)"
| looks: "ptr_RecentOutcome i (sh_store s, sh_heap s) = (r, h) \<Longrightarrow>
    shared_step s (Looked i (map_option (recent_value h) r)) (give r h s)"
| new_code: "shared_step s Elsewhere (s\<lparr>sh_heap := (sh_heap s)\<lparr>hp_codes := hp_codes (sh_heap s) @ [v]\<rparr>,
    sh_codes := insert (length (hp_codes (sh_heap s))) (sh_codes s)\<rparr>)"
| new_time: "shared_step s Elsewhere (s\<lparr>sh_heap := (sh_heap s)\<lparr>hp_times := hp_times (sh_heap s) @ [v]\<rparr>,
    sh_times := insert (length (hp_times (sh_heap s))) (sh_times s)\<rparr>)"
| new_reason: "shared_step s Elsewhere (s\<lparr>sh_heap := (sh_heap s)\<lparr>hp_reasons := hp_reasons (sh_heap s) @ [v]\<rparr>,
    sh_reasons := insert (length (hp_reasons (sh_heap s))) (sh_reasons s)\<rparr>)"
| writes_code: "i \<in> sh_codes s \<Longrightarrow>
    shared_step s Elsewhere (s\<lparr>sh_heap := (sh_heap s)\<lparr>hp_codes := (hp_codes (sh_heap s))[i := v]\<rparr>\<rparr>)"
| writes_time: "i \<in> sh_times s \<Longrightarrow>
    shared_step s Elsewhere (s\<lparr>sh_heap := (sh_heap s)\<lparr>hp_times := (hp_times (sh_heap s))[i := v]\<rparr>\<rparr>)"
| writes_reason: "i \<in> sh_reasons s \<Longrightarrow>
    shared_step s Elsewhere (s\<lparr>sh_heap := (sh_heap s)\<lparr>hp_reasons := (hp_reasons (sh_heap s))[i := v]\<rparr>\<rparr>)"

inductive shared_run :: "shared \<Rightarrow> store_event list \<Rightarrow> shared \<Rightarrow> bool" where
  nothing: "shared_run s [] s"
| then_more: "shared_step s ev u \<Longrightarrow> shared_run u evs t \<Longrightarrow> shared_run s (ev # evs) t"

inductive_cases shared_runE: "shared_run s evs t"

text \<open>The same events on values are operations of \<open>State_Store\<close>; what they leave in memory does not depend
  on the path or the disk.\<close>

definition store_of :: "contents \<Rightarrow> disk_store" where
  "store_of c = (\<lparr>so_path = [], so_contents = c\<rparr>, Map.empty)"

definition in_memory :: "store_result \<Rightarrow> contents" where
  "in_memory r = so_contents (fst (fst r))"

fun event_value :: "store_event \<Rightarrow> contents \<Rightarrow> contents" where
  "event_value (Finished e i out) c = in_memory (MarkFinished e i out (store_of c))"
| "event_value (Activated e r) c = in_memory (MarkActive e r (store_of c))"
| "event_value (Adopted e i) c = in_memory (SetMachineID e i (store_of c))"
| "event_value (Looked i r) c = c"
| "event_value Elsewhere c = c"

fun answered :: "contents \<Rightarrow> store_event list \<Rightarrow> bool" where
  "answered c [] = True"
| "answered c (ev # evs) =
     ((case ev of Looked i r \<Rightarrow> r = RecentOutcome i (fst (store_of c)) | _ \<Rightarrow> True) \<and> answered (event_value ev c) evs)"

section \<open>Every step keeps the store to itself\<close>

lemma cloned_record:
  "ptr_recent_of i out now h =
     (\<lparr>pq_run_id = i, pq_status = po_status out, pq_exit_code = fst (clone (hp_codes h) (po_exit_code out)),
        pq_started_at = fst (clone (hp_times h) (po_started_at out)), pq_finished_at = now,
        pq_reason = fst (clone (hp_reasons h) (po_reason out))\<rparr>,
      \<lparr>hp_codes = snd (clone (hp_codes h) (po_exit_code out)), hp_times = snd (clone (hp_times h) (po_started_at out)),
       hp_reasons = snd (clone (hp_reasons h) (po_reason out))\<rparr>)"
  by (simp add: ptr_recent_of_def cloneExitCode_def cloneTime_def cloneReason_def Let_def split: prod.split)

lemma cloned_answer:
  "ptr_RecentOutcome i (c, h) =
     (case find (\<lambda>r. pq_run_id r = i) (pc_recent c) of
        None \<Rightarrow> (None, h)
      | Some r \<Rightarrow>
          (Some (r\<lparr>pq_exit_code := fst (clone (hp_codes h) (pq_exit_code r)),
             pq_started_at := fst (clone (hp_times h) (pq_started_at r)), pq_reason := fst (clone (hp_reasons h) (pq_reason r))\<rparr>),
           \<lparr>hp_codes = snd (clone (hp_codes h) (pq_exit_code r)), hp_times = snd (clone (hp_times h) (pq_started_at r)),
            hp_reasons = snd (clone (hp_reasons h) (pq_reason r))\<rparr>))"
  by (simp add: ptr_RecentOutcome_def cloneExitCode_def cloneTime_def cloneReason_def Let_def split: prod.split option.split)

lemma isolated_lengths:
  assumes "isolated s"
  shows "i \<in> owned pq_exit_code (sh_store s) \<Longrightarrow> i < length (hp_codes (sh_heap s))"
    and "i \<in> owned pq_started_at (sh_store s) \<Longrightarrow> i < length (hp_times (sh_heap s))"
    and "i \<in> owned pq_reason (sh_store s) \<Longrightarrow> i < length (hp_reasons (sh_heap s))"
  using assms by (auto simp: isolated_def apart_def)

lemma value_cloned:
  assumes "isolated s"
  shows "contents_value \<lparr>hp_codes = snd (clone (hp_codes (sh_heap s)) p), hp_times = snd (clone (hp_times (sh_heap s)) q),
      hp_reasons = snd (clone (hp_reasons (sh_heap s)) r)\<rparr> (sh_store s) = contents_value (sh_heap s) (sh_store s)"
  by (rule contents_value_cong) (simp_all add: clone_keeps isolated_lengths [OF assms])

lemma MarkFinished_value:
  assumes "isolated s" and "holds s out" and "ptr_MarkFinished e i out (sh_store s, sh_heap s) = (c, h)"
  shows "isolated (s\<lparr>sh_store := c, sh_heap := h\<rparr>)"
    and "contents_value h c = in_memory (MarkFinished e i (outcome_value (sh_heap s) out) (store_of (shared_value s)))"
proof -
  let ?h = "sh_heap s" and ?c = "sh_store s"
  obtain recent where r: "ptr_recent_of i out (se_now e) ?h = (recent, h)"
    and c: "c = ptr_prune (se_now2 e) (?c\<lparr>pc_active := filter (\<lambda>r. av_run_id r \<noteq> i) (pc_active ?c),
        pc_recent := upsert (\<lambda>r. pq_run_id r = i) recent (pc_recent ?c)\<rparr>)"
    using assms(3) by (auto simp: ptr_MarkFinished_def split: prod.splits)
  note recent = cloned_record [of i out "se_now e" ?h, unfolded r]
  have own: "owned f c \<subseteq> owned f ?c \<union> set_option (f recent)" for f
    unfolding c using owned_prune owned_upsert by (blast intro: order_trans)
  show "isolated (s\<lparr>sh_store := c, sh_heap := h\<rparr>)"
    using assms(1) own [of pq_exit_code] own [of pq_started_at] own [of pq_reason] recent
    by (auto simp: isolated_def intro!: apart_clone_own)
  have same: "contents_value h ?c = shared_value s"
    using value_cloned [OF assms(1)] recent by (simp add: shared_value_def)
  have new: "recent_value h recent = recent_of i (outcome_value ?h out) (se_now e)"
    using recent by (simp add: recent_value_def recent_of_def outcome_value_def)
  have "map (recent_value h) (upsert (\<lambda>r. pq_run_id r = i) recent (pc_recent ?c)) =
      upsert (\<lambda>r. rr_run_id r = i) (recent_value h recent) (map (recent_value h) (pc_recent ?c))"
    by (rule map_upsert) (simp add: recent_value_def)
  then show "contents_value h c = in_memory (MarkFinished e i (outcome_value ?h out) (store_of (shared_value s)))"
    unfolding c value_prune same [symmetric] new
    by (simp add: in_memory_def MarkFinished_def store_of_def contents_value_def)
qed

lemma RecentOutcome_value:
  assumes "isolated s" and "ptr_RecentOutcome i (sh_store s, sh_heap s) = (r, h)"
  shows "isolated (give r h s)" and "contents_value h (sh_store s) = shared_value s"
    and "map_option (recent_value h) r = RecentOutcome i (fst (store_of (shared_value s)))"
proof -
  let ?h = "sh_heap s" and ?c = "sh_store s"
  have "find (\<lambda>r. rr_run_id r = i) (map (recent_value ?h) rs) = map_option (recent_value ?h) (find (\<lambda>r. pq_run_id r = i) rs)" for rs
    by (induction rs) (simp_all add: recent_value_def)
  then have f: "RecentOutcome i (fst (store_of (shared_value s))) =
      map_option (recent_value ?h) (find (\<lambda>r. pq_run_id r = i) (pc_recent ?c))"
    by (simp add: RecentOutcome_def store_of_def shared_value_def contents_value_def)
  have "isolated (give r h s) \<and> contents_value h ?c = shared_value s \<and>
      map_option (recent_value h) r = map_option (recent_value ?h) (find (\<lambda>r. pq_run_id r = i) (pc_recent ?c))"
  proof (cases "find (\<lambda>r. pq_run_id r = i) (pc_recent ?c)")
    case None
    then have "r = None" "h = ?h" using assms(2) cloned_answer [of i ?c ?h] by simp_all
    with None assms(1) show ?thesis by (simp add: give_def shared_value_def Let_def)
  next
    case (Some q)
    note answer = assms(2) [unfolded cloned_answer Some option.case prod.inject]
    have "isolated (give r h s)"
      using assms(1) answer by (auto simp: isolated_def give_def Let_def intro!: apart_clone_out)
    moreover have "contents_value h ?c = shared_value s"
      using value_cloned [OF assms(1)] answer by (auto simp: shared_value_def)
    moreover have "map_option (recent_value h) r = Some (recent_value ?h q)"
      using answer by (auto simp: recent_value_def)
    ultimately show ?thesis using Some by simp
  qed
  with f show "isolated (give r h s)" and "contents_value h (sh_store s) = shared_value s"
    and "map_option (recent_value h) r = RecentOutcome i (fst (store_of (shared_value s)))" by simp_all
qed

lemma unpruned_value:
  "contents_value h (c\<lparr>pc_active := as\<rparr>) = (contents_value h c)\<lparr>cn_active := as\<rparr>"
  "contents_value h (c\<lparr>pc_machine_id := i\<rparr>) = (contents_value h c)\<lparr>cn_machine_id := i\<rparr>"
  "cn_active (contents_value h c) = pc_active c"
  by (simp_all add: contents_value_def)

lemma owned_same: "owned f (ptr_MarkActive e r c) \<subseteq> owned f c" "owned f (ptr_SetMachineID e i c) \<subseteq> owned f c"
  using owned_prune [of f "se_now e"] by (force simp: ptr_MarkActive_def ptr_SetMachineID_def owned_def)+

lemma isolated_fewer:
  assumes "isolated s" and "\<And>f. owned f c \<subseteq> owned f (sh_store s)"
  shows "isolated (s\<lparr>sh_store := c\<rparr>)"
  using assms(1) by (auto simp: isolated_def intro: apart_fewer [OF _ assms(2)])

text \<open>A write through a pointer that is not the store's leaves all cells of the store as they are.\<close>

lemma written_elsewhere:
  assumes "apart cells own out" and "i \<in> out" and "j \<in> own"
  shows "cells[i := v] ! j = cells ! j"
  using assms by (auto simp: apart_def nth_list_update)

lemma elsewhere_step:
  assumes "shared_step s Elsewhere t" and "isolated s"
  shows "isolated t \<and> shared_value t = shared_value s"
  using assms
proof (cases rule: shared_step.cases)
  case (new_code v)
  with assms(2) show ?thesis
    by (auto simp: isolated_def shared_value_def apart_append nth_append isolated_lengths [OF assms(2)] intro!: contents_value_cong)
next
  case (new_time v)
  with assms(2) show ?thesis
    by (auto simp: isolated_def shared_value_def apart_append nth_append isolated_lengths [OF assms(2)] intro!: contents_value_cong)
next
  case (new_reason v)
  with assms(2) show ?thesis
    by (auto simp: isolated_def shared_value_def apart_append nth_append isolated_lengths [OF assms(2)] intro!: contents_value_cong)
next
  case (writes_code i v)
  with assms(2) show ?thesis
    by (auto simp: isolated_def shared_value_def apart_write written_elsewhere intro!: contents_value_cong)
next
  case (writes_time i v)
  with assms(2) show ?thesis
    by (auto simp: isolated_def shared_value_def apart_write written_elsewhere intro!: contents_value_cong)
next
  case (writes_reason i v)
  with assms(2) show ?thesis
    by (auto simp: isolated_def shared_value_def apart_write written_elsewhere intro!: contents_value_cong)
qed

lemma shared_step_value:
  assumes "shared_step s ev t" and "isolated s"
  shows "isolated t \<and> shared_value t = event_value ev (shared_value s) \<and> answered (shared_value s) [ev]"
  using assms(1)
proof (cases rule: shared_step.cases)
  case (finishes out e i c h)
  with MarkFinished_value [OF assms(2) finishes(3,4)] show ?thesis by (simp add: shared_value_def)
next
  case (activates e r)
  have "isolated t" unfolding activates by (rule isolated_fewer [OF assms(2) owned_same(1)])
  then show ?thesis
    by (simp add: activates shared_value_def ptr_MarkActive_def value_prune unpruned_value in_memory_def MarkActive_def store_of_def)
next
  case (adopts e i)
  have "isolated t" unfolding adopts by (rule isolated_fewer [OF assms(2) owned_same(2)])
  then show ?thesis
    by (simp add: adopts shared_value_def ptr_SetMachineID_def value_prune unpruned_value in_memory_def SetMachineID_def store_of_def)
next
  case (looks i r h)
  from RecentOutcome_value [OF assms(2) looks(3)] show ?thesis
    by (simp add: looks(1,2)) (simp add: shared_value_def give_def Let_def)
qed (use elsewhere_step assms in auto)

section \<open>Properties\<close>

text \<open>C20: The values of \<open>State_Store\<close> are a faithful picture of a store that holds pointers. Whatever the
  rest of the program does with the pointers it passed in or was given, writing through them included,
  between operations of the store: the record reads as if each operation had been made on values, every
  look at it is answered as on values, and no pointer outside the store reaches one of its cells.\<close>

theorem pointers_invisible:
  assumes "shared_run s evs t" and "isolated s"
  shows "isolated t \<and> shared_value t = fold event_value evs (shared_value s) \<and> answered (shared_value s) evs"
  using assms
proof (induction rule: shared_run.induct)
  case (then_more s ev u evs t)
  from shared_step_value [OF then_more(1,4)] then_more(3) show ?case by auto
qed simp

section \<open>Witness\<close>

text \<open>A caller makes a cell with the exit code 0, hands it to \<open>MarkFinished\<close> and then writes 1 into it.\<close>

definition fresh_shared :: shared where
  "fresh_shared = \<lparr>sh_heap = \<lparr>hp_codes = [], hp_times = [], hp_reasons = []\<rparr>,
     sh_store = \<lparr>pc_machine_id = ''m'', pc_active = [], pc_recent = []\<rparr>, sh_codes = {}, sh_times = {}, sh_reasons = {}\<rparr>"

definition exit_zero :: ptr_outcome where
  "exit_zero = \<lparr>po_status = ''success'', po_exit_code = Some 0, po_started_at = None, po_reason = None\<rparr>"

theorem pointers_invisible_witness:
  "\<exists>evs t. shared_run fresh_shared evs t \<and> hp_codes (sh_heap t) ! 0 = 1 \<and>
     RecentOutcome ''r'' (fst (store_of (shared_value t))) =
       Some (recent_of ''r'' \<lparr>oc_status = ''success'', oc_exit_code = Some 0, oc_started_at = None, oc_reason = None\<rparr> 5)"
proof -
  let ?s1 = "fresh_shared\<lparr>sh_heap := \<lparr>hp_codes = [0], hp_times = [], hp_reasons = []\<rparr>, sh_codes := {0}\<rparr>"
  let ?out = "\<lparr>oc_status = ''success'', oc_exit_code = Some 0, oc_started_at = None, oc_reason = None\<rparr>"
  obtain c h where m: "ptr_MarkFinished sample_env ''r'' exit_zero (sh_store ?s1, sh_heap ?s1) = (c, h)" by (rule prod.exhaust)
  then have h: "hp_codes h = [0, 0]" by (auto simp: ptr_MarkFinished_def cloned_record exit_zero_def)
  let ?s2 = "?s1\<lparr>sh_store := c, sh_heap := h\<rparr>"
  let ?s3 = "?s2\<lparr>sh_heap := h\<lparr>hp_codes := (hp_codes h)[0 := 1]\<rparr>\<rparr>"
  let ?evs = "[Elsewhere, Finished sample_env ''r'' ?out, Elsewhere]"
  have "shared_step fresh_shared Elsewhere ?s1"
    using new_code [of fresh_shared 0] by (simp add: fresh_shared_def)
  moreover have "shared_step ?s1 (Finished sample_env ''r'' ?out) ?s2"
    using finishes [OF _ m] by (simp add: holds_def exit_zero_def outcome_value_def)
  moreover have "shared_step ?s2 Elsewhere ?s3" using writes_code [of 0 ?s2 1] by simp
  ultimately have run: "shared_run fresh_shared ?evs ?s3" by (blast intro: shared_run.intros)
  have "isolated fresh_shared" by (simp add: isolated_def apart_def owned_def fresh_shared_def)
  from pointers_invisible [OF run this]
  have v: "shared_value ?s3 = event_value (Finished sample_env ''r'' ?out) (shared_value fresh_shared)" by simp
  have "RecentOutcome ''r'' (fst (store_of (shared_value ?s3))) = Some (recent_of ''r'' ?out 5)"
    unfolding v by (simp add: RecentOutcome_def store_of_def in_memory_def MarkFinished_def shared_value_def contents_value_def
        fresh_shared_def sample_env_def prune_def recent_of_def RecentRunTTL_def duration_defs MaxRecentRuns_def Let_def)
  with run h show ?thesis by (intro exI [of _ ?evs] exI [of _ ?s3]) simp
qed

end
