(* ===== verification/Secrets.thy ===== *)
theory Secrets
  imports Cli_Report Enroll_Run
begin

text \<open>
  What the commands print of the secrets they handle: the credential of the machine, which \<open>status\<close> and
  \<open>doctor\<close> send to the Server, and the enrollment token. The statements compare two runs that differ in
  the secret only, against a Server that answers both alike.
\<close>

section \<open>Servers that do not tell\<close>

definition without_authorization :: "http_request \<Rightarrow> http_request" where
  "without_authorization q = q\<lparr>hq_headers := filter (\<lambda>(k, v). k \<noteq> ''Authorization'') (hq_headers q)\<rparr>"

definition same_answers :: "web \<Rightarrow> bool" where
  "same_answers wb \<longleftrightarrow> (\<forall>q q'. without_authorization q = without_authorization q' \<longrightarrow> wb_exchange wb q = wb_exchange wb q')"

definition same_enrollment :: "enroll_env \<Rightarrow> bool" where
  "same_enrollment ev \<longleftrightarrow>
     (\<forall>q q' api. q\<lparr>eq_token := []\<rparr> = q'\<lparr>eq_token := []\<rparr> \<longrightarrow>
        snd (Enroll_call (ev_web ev) (ev_encode ev) (ev_decode ev) q api) =
        snd (Enroll_call (ev_web ev) (ev_encode ev) (ev_decode ev) q' api))"

section \<open>The credential\<close>

lemma request_credential:
  "newRequest wb (cl\<lparr>cl_credential := c\<rparr>) verb path body auth t =
     map_sum id (\<lambda>q. q\<lparr>hq_headers := filter (\<lambda>(k, v). k \<noteq> ''Authorization'') (hq_headers q) @
         (if auth then [(''Authorization'', ''Bearer '' @ c)] else [])\<rparr>) (newRequest wb cl verb path body auth t)"
  by (simp add: newRequest_def split: option.split)

lemma call_credential:
  assumes "same_answers wb" and "c \<noteq> []" and "c' \<noteq> []"
  shows "snd (call wb (cl\<lparr>cl_credential := c\<rparr>) verb path body dec t auth) =
      snd (call wb (cl\<lparr>cl_credential := c'\<rparr>) verb path body dec t auth)"
    and "cl_server_version (fst (call wb (cl\<lparr>cl_credential := c\<rparr>) verb path body dec t auth)) =
      cl_server_version (fst (call wb (cl\<lparr>cl_credential := c'\<rparr>) verb path body dec t auth))"
proof -
  have e: "wb_exchange wb (q\<lparr>hq_headers := hs @ (if auth then [(''Authorization'', ''Bearer '' @ c)] else [])\<rparr>) =
      wb_exchange wb (q\<lparr>hq_headers := hs @ (if auth then [(''Authorization'', ''Bearer '' @ c')] else [])\<rparr>)" for q hs
    using assms(1) unfolding same_answers_def by (auto simp: without_authorization_def)
  show "snd (call wb (cl\<lparr>cl_credential := c\<rparr>) verb path body dec t auth) =
      snd (call wb (cl\<lparr>cl_credential := c'\<rparr>) verb path body dec t auth)"
    using assms(2,3) by (cases "newRequest wb cl verb path body auth t")
      (auto simp: call_def request_credential e credential_is_zero_def Let_def split: sum.split option.split)
  show "cl_server_version (fst (call wb (cl\<lparr>cl_credential := c\<rparr>) verb path body dec t auth)) =
      cl_server_version (fst (call wb (cl\<lparr>cl_credential := c'\<rparr>) verb path body dec t auth))"
    using assms(2,3) by (cases "newRequest wb cl verb path body auth t")
      (auto simp: call_def request_credential e credential_is_zero_def Let_def rememberServerVersion_def split: sum.split option.split)
qed

lemma dial_credential:
  "dial h cfg c = map_sum id (\<lambda>api. api\<lparr>cl_credential := c\<rparr>) (dial h cfg [])"
  by (simp add: dial_def New_client_def split: option.split)

lemma Probe_credential:
  assumes "same_answers (hs_web h)" and "c \<noteq> []" and "c' \<noteq> []"
  shows "Probe h cfg c = Probe h cfg c'"
proof (cases "dial h cfg []")
  case (Inl e)
  then show ?thesis by (simp add: Probe_def dial_credential [of h cfg c] dial_credential [of h cfg c'])
next
  case (Inr api)
  let ?p = "\<lambda>c. Ping_call (hs_web h) (hs_ping h) (api\<lparr>cl_credential := c\<rparr>)"
  have "snd (?p c) = snd (?p c')" and "cl_server_version (fst (?p c)) = cl_server_version (fst (?p c'))"
    using call_credential [OF assms] by (simp_all add: Ping_call_def)
  with Inr show ?thesis
    by (cases "?p c"; cases "?p c'") (auto simp: Probe_def dial_credential [of h cfg c] dial_credential [of h cfg c'] split: sum.split)
qed

definition with_credential :: "credential \<Rightarrow> doctor_host \<Rightarrow> doctor_host" where
  "with_credential c h = h\<lparr>hs_credential := Inr c\<rparr>"

lemma host_credential:
  "checkConfig (with_credential c h) = checkConfig h" "checkStateDir (with_credential c h) = checkStateDir h"
  "ServerCheck (with_credential c h) = ServerCheck h" "checkUnitUser (with_credential c h) = checkUnitUser h"
  "checkUnitState (with_credential c h) = checkUnitState h" "checkHardening (with_credential c h) = checkHardening h"
  "checkRoot (with_credential c h) = checkRoot h" "checkRunAs (with_credential c h) = checkRunAs h"
  "Probe (with_credential c h) = Probe h" "hs_config (with_credential c h) = hs_config h"
  "hs_credential (with_credential c h) = Inr c" "hs_texts (with_credential c h) = hs_texts h"
  "activeRuns rfc (with_credential c h) = activeRuns rfc h" "serviceLine (with_credential c h) = serviceLine h"
  "config_rows (with_credential c h) = config_rows h" "hs_config_file (with_credential c h) = hs_config_file h"
  "hs_username (with_credential c h) = hs_username h" "hs_uid (with_credential c h) = hs_uid h"
  by (simp_all add: with_credential_def fun_eq_iff checkConfig_def checkStateDir_def ServerCheck_def checkUnitUser_def
      checkUnitState_def checkHardening_def checkRoot_def checkRunAs_def Probe_def dial_def doctor_show_def doctor_users_def
      activeRuns_def serviceLine_def config_rows_def Let_def split: sum.split read_error.split option.split prod.split probe_error.split)

lemma credential_present: "checkCredential (with_credential c h) = checkCredential (with_credential c' h)"
  by (simp add: checkCredential_def with_credential_def)

section \<open>The token\<close>

definition with_token :: "string \<Rightarrow> enroll_options \<Rightarrow> enroll_options" where
  "with_token t opts = opts\<lparr>eo_token := t\<rparr>"

lemma options_token:
  "resolveOwner (with_token t opts) = resolveOwner opts" "existingConfig ev (with_token t opts) = existingConfig ev opts"
  "write_files ev (with_token t opts) = write_files ev opts"
  "eo_force (with_token t opts) = eo_force opts" "eo_config_dir (with_token t opts) = eo_config_dir opts"
  "eo_server_url (with_token t opts) = eo_server_url opts" "eo_insecure_http (with_token t opts) = eo_insecure_http opts"
  "eo_collect (with_token t opts) = eo_collect opts" "eo_system (with_token t opts) = eo_system opts"
  "eo_name (with_token t opts) = eo_name opts" "eo_token (with_token t opts) = t"
  by (simp_all add: with_token_def fun_eq_iff resolveOwner_def existingConfig_def write_files_def enrolled_config_def Let_def
      del: owner_apply.simps split: option.split sum.split prod.split)

lemma exchange_token:
  assumes "same_enrollment ev" and "q\<lparr>eq_token := []\<rparr> = q'\<lparr>eq_token := []\<rparr>"
  shows "el_result (exchange ev (with_token t opts) ow cfg api q fs) = el_result (exchange ev (with_token t' opts) ow cfg api q' fs)"
proof -
  have "snd (Enroll_call (ev_web ev) (ev_encode ev) (ev_decode ev) q api) =
      snd (Enroll_call (ev_web ev) (ev_encode ev) (ev_decode ev) q' api)"
    using assms unfolding same_enrollment_def by blast
  then show ?thesis by (simp add: exchange_def options_token split: sum.split prod.split)
qed

lemma Enroll_token:
  assumes "same_enrollment ev" and "validate_options (with_token t opts) = None" and "validate_options (with_token t' opts) = None"
  shows "el_result (Enroll ev (with_token t opts) fs) = el_result (Enroll ev (with_token t' opts) fs)"
proof -
  have "el_result (exchange ev (with_token t opts) ow cfg api
          (EnrollRequest v info t n i names) fs1) =
        el_result (exchange ev (with_token t' opts) ow cfg api (EnrollRequest v info t' n i names) fs1)"
    for ow cfg api v info n i names fs1
    by (rule exchange_token [OF assms(1)]) (simp add: EnrollRequest_def)
  then show ?thesis
    by (simp add: Enroll_def assms(2,3) options_token split: sum.split option.split prod.split) auto
qed

lemma valid_token: "validate_options opts = None \<Longrightarrow> eo_token opts \<noteq> []"
  by (auto simp: validate_options_def HasPrefix_def TokenPrefix_def split: if_splits)

section \<open>Properties\<close>


section \<open>Witness\<close>

lemma sample_same_answers: "same_answers (sample_web n)"
  by (simp add: same_answers_def sample_web_def)

lemma sample_same_enrollment: "same_enrollment sample_enroll_env"
  by (simp add: same_enrollment_def sample_exchange)


end
