(* ===== verification/Spec2Isabelle.thy ===== *)
theory Spec2Isabelle
  imports Prelude Interfaces Output_Buffer Output_Chunker Protocol Atomic_File State_Store Go_Strings Config
    Client_Errors Client_Call Runner Sysinfo Agent_Core Agent_Lease Agent_Safety Reporter Delivery Go_Fields
    Discovery Discovery_Cron Discovery_Lines Discovery_Timers Discovery_Report Enroll Agent_Stop Doctor Cli Cli_Run Cli_Report Enroll_Run State_Alias Secrets
begin

text \<open>
  A verification library for the agent of Oh My Job (\<open>omj-agent\<close>): the daemon that polls a Server for
  work, runs each leased Run as a process of a permitted user, streams its output and reports how it
  ended. Each theory models one part of the Go code, in the code's own order; this theory imports
  them all. File names are relative to \<open>src/\<close>.

  \<^bold>\<open>The parts and how they interact.\<close> \<open>internal/enroll\<close> exchanges a one-time token for a machine id and a
  credential and writes both files of \<open>internal/config\<close>. The daemon (\<open>internal/agent\<close>) reads them, adopts
  the state file (\<open>internal/state\<close>), reports what an earlier process left active as lost, and polls the
  Server through \<open>internal/client\<close>. Every lease passes a series of checks before it is started by
  \<open>internal/runner\<close>; what the process prints goes through a chunker into one shared buffer
  (\<open>internal/output\<close>), from which a reporter per Run sends it, with heartbeats in between; when the process
  has ended the outcome is put on record first and then sent. A signal ends the polling, tells every
  process to terminate and gives the reporters a budget of time. On request \<open>internal/discovery\<close> reads
  the crontabs and timers of the machine and one report at a time sends them.

  \<^bold>\<open>Which theory models what.\<close>
  \<^item> \<open>Prelude\<close>: 64-bit wrap-around (\<open>wrap64\<close>), durations, and lemmas on lists and maps every part uses.
    \<open>Interfaces\<close>: the locales (\<open>outbox\<close>: a queue of numbered chunks that is sent and acknowledged;
    \<open>output_sink\<close>: what a writer of output promises; \<open>ledger\<close>: a record of outcomes); each is interpreted on the model's own definitions in the
    theory of the part that provides it.
  \<^item> \<open>Output_Buffer\<close> (\<open>internal/output/buffer.go\<close>) and \<open>Output_Chunker\<close> (\<open>chunker.go\<close>): the buffer as a map
    from Runs to chunks with its accounting; the order in which Go visits a map is a parameter, and
    every theorem holds for all orders.
  \<^item> \<open>Protocol\<close> (\<open>internal/protocol\<close>): the wire types; Go's pointers are options.
  \<^item> \<open>Atomic_File\<close> (\<open>internal/atomicfile\<close>): the sequence of states the disk passes through while a file is
    replaced, for every choice of failing calls. \<open>State_Store\<close> (\<open>internal/state\<close>): the record of active and
    finished Runs, with the file behind it. \<open>State_Alias\<close>: the same record with the pointers of the code in
    an explicit heap, and the proof that values show all there is to see.
  \<^item> \<open>Go_Strings\<close> and \<open>Go_Fields\<close>: the functions of \<open>strings\<close>, \<open>strconv\<close> and \<open>path/filepath\<close> the code uses,
    on strings of bytes. \<open>Config\<close> (\<open>internal/config\<close>): parsing, printing, validating, loading and saving the
    configuration and the credential, and resolving the execution users.
  \<^item> \<open>Client_Errors\<close> (\<open>internal/client/errors.go\<close>, \<open>backoff.go\<close>): an error is a tree, searched as
    \<open>errors.As\<close> does; \<open>Retry\<close> is a partial function, so that not returning is the value \<open>None\<close>.
    \<open>Client_Call\<close> (\<open>client.go\<close>): one call of the API, whose exchange is a parameter.
  \<^item> \<open>Runner\<close> (\<open>internal/runner\<close>): starting a process, its environment and credentials, and a step relation
    with one rule per atomic step of the goroutines of a running process. \<open>Sysinfo\<close>
    (\<open>internal/sysinfo\<close>): what the agent tells about its machine.
  \<^item> \<open>Agent_Core\<close> (\<open>registry.go\<close> and the data of \<open>agent.go\<close>), \<open>Agent_Lease\<close> (\<open>lease.go\<close>, \<open>startup.go\<close>, a
    round of polling) and \<open>Agent_Safety\<close>: the step relation of the whole agent, with restarts, and its
    invariant. \<open>Agent_Stop\<close> (\<open>New\<close> and \<open>Run\<close> of \<open>agent.go\<close>, \<open>signals.go\<close>): the stop as a step relation of
    the poll loop, the watcher and the reporters.
  \<^item> \<open>Reporter\<close> (\<open>reporter.go\<close>): the reporter of a Run; \<open>Delivery\<close>: a whole delivery, from the first chunk to
    the outcome on record.
  \<^item> \<open>Discovery\<close>, \<open>Discovery_Cron\<close>, \<open>Discovery_Timers\<close> (\<open>internal/discovery\<close>), with \<open>Discovery_Lines\<close> on how a
    line of a crontab is read, and \<open>Discovery_Report\<close> (\<open>internal/agent/discovery.go\<close>).
  \<^item> \<open>Enroll\<close> (\<open>internal/enroll\<close>): what an enrollment sends and what it leaves in the files. \<open>Doctor\<close>
    (\<open>internal/doctor\<close>): the checks of an installation and when each of them fails.
  \<^item> \<open>Cli\<close>, \<open>Cli_Run\<close> and \<open>Cli_Report\<close> (\<open>internal/cli\<close>, \<open>paths_unix.go\<close>, \<open>cmd/omj-agent\<close>): the commands and
    their exit codes, how \<open>run\<close> builds the agent from the files of the machine, and the reports. The
    daemon and the checks read one \<open>machine\<close>, so that the one can be compared with the other. \<open>Enroll_Run\<close>: how the options of an enrollment are completed
    from the machine, and the daemon on what an enrollment left. \<open>Secrets\<close>: what the commands print does
    not depend on credential and token but through the Server's answers.

  \<^bold>\<open>How state and operations correspond.\<close> A struct is a record whose fields have the struct's order and a
  prefix; an operation takes its receiver and returns it changed; a mutex makes an operation one step. A
  panic or an access out of range is the value \<open>None\<close>. An error is a constructor of a type of the part,
  its text a parameter where nothing depends on it. What the operating system, the Server or a
  library outside the repository answers is an argument, and each theorem holds for all answers its
  hypotheses admit. \<open>int64\<close> arithmetic is written with \<open>wrap64\<close> wherever a product of unchecked numbers
  is formed.

  \<^bold>\<open>What the lemmas show.\<close> Per part: an invariant and that every operation keeps it (\<open>Output_Buffer\<close>,
  \<open>State_Store\<close>, \<open>Runner\<close>, \<open>Agent_Safety\<close>, \<open>Reporter\<close>, \<open>Discovery\<close>, \<open>Agent_Stop\<close>); what each operation does
  on every branch; round trips of what is printed and read (configuration, credential, crontab lines);
  refinement of an abstract reading (\<open>Config\<close>); and, across the parts, that no Run is executed twice,
  that what a Run printed arrives byte for byte or is reported as truncated, that a repeated lease is
  answered with the outcome that was reported, that a stop comes to an end with the state saved, and
  that an installation which passes the checks starts but for two causes the checks do not look at,
  that what an enrollment writes is what the daemon starts from, and that no secret is printed.

  \<^bold>\<open>Bounds and fuel.\<close> Only \<open>split_at\<close> counts down, from the length of its argument, and
  \<open>split_at_aux_enough\<close> shows this to be enough. \<open>Retry\<close> and the loops over it may run forever and are
  partial functions; that they return is proved under the hypothesis that the Server answers eventually.
  The numbers of the code (64 Runs, 1000 outcomes, 500 entries, 1024 rejected ids and so on) are
  definitions.

  \<^bold>\<open>Not modelled, and why.\<close> Log lines and the construction of the logger; the texts of most errors; JSON,
  URL and date parsing and the parsing of flags, which are library calls whose outcomes are
  parameters, as is the user database; time as such (a timer may fire at any moment, so the loops that
  sleep and the real ticker have no counterpart); the HTTP transport and the subscription to signals,
  which are settings of the standard library. Packaging, the test harness (\<open>test/e2e\<close>) and the tests
  are not part of the program.
\<close>

end
